(* ===== verification/Prelude.thy ===== *)
theory Prelude
  imports Complex_Main "HOL-Library.Word"
begin

text \<open>
  Shared vocabulary of the development: the C integer types of the LP64 platforms the
  server runs on (\<open>int\<close> 32 bit, \<open>long\<close> and \<open>size_t\<close> 64 bit), the byte strings and
  values that the C modules exchange with Lua, and the generic list and arithmetic lemmas
  that the component theories use.
\<close>

unbundle bit_operations_syntax

named_theorems c_arith \<open>C integer conversions and wrap-around, removed under a range condition\<close>
named_theorems conversion_defs \<open>the C integer conversions, for evaluation\<close>

section \<open>Bytes and Lua values\<close>

type_synonym byte = "8 word"
type_synonym bytes = "byte list"
type_synonym errno = int

text \<open>
  The values a C function pushes on the Lua stack. A Lua string is a sequence of bytes,
  \<open>LInt\<close> is a \<^verbatim>\<open>lua_Integer\<close> (64 bit), \<open>LNum\<close> a finite \<^verbatim>\<open>lua_Number\<close>;
  tables, functions and userdata are references. The list of results of a call is the
  list of values that the C function returns, so an empty list is \<^verbatim>\<open>return 0\<close>.
\<close>

datatype lua_value =
    LNil
  | LBool bool
  | LInt int
  | LNum rat
  | LStr bytes
  | LTable nat
  | LFunction nat
  | LUserdata nat

text \<open>
  How a call ends other than by returning: \<^verbatim>\<open>luaL_argerror\<close> (with the argument
  position), \<^verbatim>\<open>luaL_error\<close> / \<^verbatim>\<open>lua_error\<close>, or behaviour the C standard leaves
  undefined (an access outside an object, a shift by more than the width, a signed
  overflow).
\<close>

datatype lua_error =
    ArgError nat string
  | LuaError string
  | Undefined string

type_synonym 'a outcome = "lua_error + 'a"

definition bind_outcome :: "'a outcome \<Rightarrow> ('a \<Rightarrow> 'b outcome) \<Rightarrow> 'b outcome" where
  "bind_outcome m f = (case m of Inl e \<Rightarrow> Inl e | Inr x \<Rightarrow> f x)"

lemma bind_outcome_simps [simp]:
  "bind_outcome (Inl e) f = Inl e"
  "bind_outcome (Inr x) f = f x"
  by (simp_all add: bind_outcome_def)

lemma bind_outcome_Inr_iff:
  "bind_outcome m f = Inr y \<longleftrightarrow> (\<exists>x. m = Inr x \<and> f x = Inr y)"
  by (cases m) simp_all

lemma bind_outcome_Inl_iff:
  "bind_outcome m f = Inl e \<longleftrightarrow> m = Inl e \<or> (\<exists>x. m = Inr x \<and> f x = Inl e)"
  by (cases m) simp_all

lemma bind_outcome_cong [fundef_cong]:
  assumes "m = m'" and "\<And>x. m' = Inr x \<Longrightarrow> f x = f' x"
  shows "bind_outcome m f = bind_outcome m' f'"
  using assms by (cases m') simp_all

text \<open>
  Lua gives every call of a C function room for \<open>LUA_MINSTACK\<close> values on its stack beyond the
  arguments. Pushing more without asking for room with \<^verbatim>\<open>luaL_checkstack\<close> is undefined.
\<close>

definition LUA_MINSTACK :: nat where "LUA_MINSTACK = 20"

text \<open>The triple \<^verbatim>\<open>nil, strerror(e), e\<close> that the system call wrappers return; the
  message is a function of the number, so the number stands for both.\<close>

definition fail_errno :: "(errno \<Rightarrow> bytes) \<Rightarrow> errno \<Rightarrow> lua_value list" where
  "fail_errno strerror e = [LNil, LStr (strerror e), LInt e]"

section \<open>C integers\<close>

text \<open>\<^verbatim>\<open>size_t\<close> arithmetic is modulo \<open>2 ^ 64\<close>.\<close>

definition usize_add :: "nat \<Rightarrow> nat \<Rightarrow> nat" where
  [conversion_defs]: "usize_add a b = (a + b) mod 2 ^ 64"

definition usize_sub :: "nat \<Rightarrow> nat \<Rightarrow> nat" where
  [conversion_defs]: "usize_sub a b = nat ((int a - int b) mod 2 ^ 64)"

text \<open>The conversions between integer types keep the value modulo a power of two.\<close>

definition to_usize :: "int \<Rightarrow> nat" where
  [conversion_defs]: "to_usize i = nat (i mod 2 ^ 64)"

definition to_long :: "int \<Rightarrow> int" where
  [conversion_defs]: "to_long i = (i + 2 ^ 63) mod 2 ^ 64 - 2 ^ 63"

definition to_int :: "int \<Rightarrow> int" where
  [conversion_defs]: "to_int i = (i + 2 ^ 31) mod 2 ^ 32 - 2 ^ 31"

lemma usize_add_less [c_arith]: "a + b < 2 ^ 64 \<Longrightarrow> usize_add a b = a + b"
  by (simp add: usize_add_def)

lemma usize_sub_le [c_arith]: "b \<le> a \<Longrightarrow> a < 2 ^ 64 \<Longrightarrow> usize_sub a b = a - b"
  by (simp add: usize_sub_def nat_diff_distrib)

lemma usize_sub_wrap: "a < b \<Longrightarrow> b < 2 ^ 64 \<Longrightarrow> usize_sub a b = 2 ^ 64 - (b - a)"
proof -
  assume "a < b" "b < 2 ^ 64"
  then have "(int a - int b) mod 2 ^ 64 = (int a - int b + 2 ^ 64) mod 2 ^ 64"
    by simp
  also have "\<dots> = int a - int b + 2 ^ 64"
    using \<open>a < b\<close> \<open>b < 2 ^ 64\<close> by (intro mod_pos_pos_trivial) auto
  finally show ?thesis
    using \<open>a < b\<close> \<open>b < 2 ^ 64\<close> by (simp add: usize_sub_def)
qed

lemma to_usize_nonneg [c_arith]: "0 \<le> i \<Longrightarrow> i < 2 ^ 64 \<Longrightarrow> to_usize i = nat i"
  by (simp add: to_usize_def)

lemma to_usize_neg: "- (2 ^ 63) \<le> i \<Longrightarrow> i < 0 \<Longrightarrow> 2 ^ 63 \<le> to_usize i"
proof -
  assume a: "- (2 ^ 63) \<le> i" "i < 0"
  have "i mod 2 ^ 64 = (i + 2 ^ 64) mod 2 ^ 64" by simp
  also have "\<dots> = i + 2 ^ 64" using a by (intro mod_pos_pos_trivial) auto
  finally show ?thesis using a by (simp add: to_usize_def)
qed

lemma to_long_range [c_arith]: "- (2 ^ 63) \<le> i \<Longrightarrow> i < 2 ^ 63 \<Longrightarrow> to_long i = i"
  by (simp add: to_long_def)

lemma to_int_range [c_arith]: "- (2 ^ 31) \<le> i \<Longrightarrow> i < 2 ^ 31 \<Longrightarrow> to_int i = i"
  by (simp add: to_int_def)

section \<open>C strings\<close>

text \<open>
  The buffer that \<^verbatim>\<open>luaL_checklstring\<close> returns holds the bytes of the string and a
  terminating zero byte, so reading at the length gives zero; \<^verbatim>\<open>strlen\<close> and the
  \<^verbatim>\<open>%s\<close> conversions see the bytes before the first zero.
\<close>

definition cstr_at :: "bytes \<Rightarrow> nat \<Rightarrow> byte" where
  "cstr_at s i = (if i < length s then s ! i else 0)"

definition c_str :: "bytes \<Rightarrow> bytes" where
  "c_str s = takeWhile (\<lambda>c. c \<noteq> 0) s"

lemma cstr_at_simps [simp]:
  "cstr_at (x # xs) 0 = x"
  "cstr_at (x # xs) (Suc i) = cstr_at xs i"
  "cstr_at [] i = 0"
  by (simp_all add: cstr_at_def)

lemma cstr_at_numeral [simp]: "cstr_at (x # xs) (numeral n) = cstr_at xs (pred_numeral n)"
  by (simp add: numeral_eq_Suc)

lemma unat_byte: "unat (c :: byte) < 256"
proof -
  have "unat c < 2 ^ LENGTH(8)" by (rule unsigned_less)
  then show ?thesis by simp
qed

lemma unat_ucast_byte [simp]: "unat (ucast (c :: byte) :: 32 word) = unat c"
proof -
  have "unat c mod 2 ^ 32 = unat c" using unat_byte[of c] by (intro mod_less) simp
  then show ?thesis by (simp add: unsigned_ucast_eq take_bit_eq_mod)
qed

text \<open>The bytes of an ASCII literal of the source.\<close>

definition ascii :: "string \<Rightarrow> bytes" where
  "ascii s = map of_char s"

text \<open>\<^verbatim>\<open>%d\<close>, of a number that is not negative and of any number.\<close>

fun decimal :: "nat \<Rightarrow> bytes" where
  "decimal n = (if n < 10 then [of_nat (48 + n)] else decimal (n div 10) @ [of_nat (48 + n mod 10)])"

declare decimal.simps [simp del]

definition decimal_int :: "int \<Rightarrow> bytes" where
  "decimal_int i = (if i < 0 then ascii ''-'' @ decimal (nat (- i)) else decimal (nat i))"

lemma inj_ascii: "ascii s = ascii t \<longleftrightarrow> s = t"
proof -
  have "inj (of_char :: char \<Rightarrow> byte)"
  proof (rule injI)
    fix c d :: char assume "(of_char c :: byte) = of_char d"
    then have "unat (of_char c :: byte) = unat (of_char d :: byte)" by simp
    moreover have "unat (of_char c :: byte) = of_char c" for c
    proof -
      have "(of_char c :: nat) < 2 ^ 8" by simp
      then show ?thesis by (simp add: of_char_def)
    qed
    ultimately show "c = d" by simp
  qed
  then show ?thesis by (simp add: ascii_def inj_map_eq_map)
qed

text \<open>\<^verbatim>\<open>strchr\<close>, as the offset of the first occurrence.\<close>

fun strchr_from :: "nat \<Rightarrow> bytes \<Rightarrow> byte \<Rightarrow> nat option" where
  "strchr_from i [] c = None"
| "strchr_from i (x # xs) c = (if x = c then Some i else strchr_from (Suc i) xs c)"

definition strchr :: "bytes \<Rightarrow> byte \<Rightarrow> nat option" where
  "strchr s c = strchr_from 0 s c"

lemma strchr_from_nth:
  "distinct s \<Longrightarrow> k < length s \<Longrightarrow> strchr_from i s (s ! k) = Some (i + k)"
proof (induction s arbitrary: i k)
  case (Cons x s)
  then show ?case by (cases k) (auto simp: nth_mem)
qed simp

lemma strchr_nth: "distinct s \<Longrightarrow> k < length s \<Longrightarrow> strchr s (s ! k) = Some k"
  by (simp add: strchr_def strchr_from_nth)

lemma strchr_from_eq_None: "strchr_from i s c = None \<longleftrightarrow> c \<notin> set s"
  by (induction s arbitrary: i) auto

lemma strchr_eq_None: "strchr s c = None \<longleftrightarrow> c \<notin> set s"
  by (simp add: strchr_def strchr_from_eq_None)

lemma strchr_from_SomeD: "strchr_from i s c = Some k \<Longrightarrow> i \<le> k \<and> k - i < length s \<and> s ! (k - i) = c"
proof (induction s arbitrary: i)
  case (Cons x s)
  show ?case
  proof (cases "x = c")
    case False
    with Cons have "Suc i \<le> k \<and> k - Suc i < length s \<and> s ! (k - Suc i) = c" by simp
    then show ?thesis by (auto simp: nth_Cons split: nat.split) (metis Suc_diff_Suc Suc_le_eq nat.inject)
  qed (use Cons.prems in auto)
qed simp

lemma strchr_SomeD: "strchr s c = Some k \<Longrightarrow> k < length s \<and> s ! k = c"
  using strchr_from_SomeD[of 0 s c k] by (simp add: strchr_def)

section \<open>Lists\<close>

lemma map_nth_upt_append:
  "map (\<lambda>i. (xs @ ys) ! (k + i)) [0..<n] = map (\<lambda>i. xs ! (k + i)) [0..<n]"
  if "k + n \<le> length xs"
  using that by (auto simp: nth_append)

lemma map_nth_drop_take:
  "k + n \<le> length xs \<Longrightarrow> map (\<lambda>i. xs ! (k + i)) [0..<n] = take n (drop k xs)"
  by (rule nth_equalityI) auto

lemma map_upt_add_split:
  "map f [0..<m + n] = map f [0..<m] @ map (\<lambda>i. f (m + i)) [0..<n]"
  by (induction n) (auto simp: add.assoc)

lemma take_map_upt: "m \<le> n \<Longrightarrow> take m (map f [0..<n]) = map f [0..<m]"
  by (simp add: take_map take_upt)

lemma drop_map_upt: "m \<le> n \<Longrightarrow> drop m (map f [0..<n]) = map (\<lambda>i. f (m + i)) [0..<n - m]"
  by (rule nth_equalityI) auto

lemma mod_add_less: "a < n \<Longrightarrow> b \<le> n \<Longrightarrow> (a + b) mod n = (if a + b < n then a + b else a + b - n)"
  for n :: nat
  by (auto simp: mod_if)

lemma mod_add_inj:
  "(k + i) mod n = (k + j) mod n \<longleftrightarrow> i = j" if "k < n" "i < n" "j < n" for n :: nat
  using that by (auto simp: mod_add_less split: if_splits)

lemma nth_list_update_same: "f v = f (xs ! i) \<Longrightarrow> f (xs[i := v] ! j) = f (xs ! j)"
  by (cases "i = j"; cases "i < length xs") (auto simp: list_update_beyond)

section \<open>Running a sequence of operations, and simulation\<close>

text \<open>
  A component is a step function from a state and an operation to a state and a result.
  The interface below is the contract between such a component and an abstract
  specification of it: under an invariant of the concrete state and a condition on the
  arguments, a concrete step keeps the invariant and does, on the abstraction of its state,
  what the abstract step does, with the same result.
\<close>

fun run_ops :: "('s \<Rightarrow> 'op \<Rightarrow> 's \<times> 'r) \<Rightarrow> 's \<Rightarrow> 'op list \<Rightarrow> 's \<times> 'r list" where
  "run_ops step s [] = (s, [])"
| "run_ops step s (p # ps) =
     (case step s p of (s', r) \<Rightarrow> (case run_ops step s' ps of (t, rs) \<Rightarrow> (t, r # rs)))"

lemma run_ops_Cons:
  "fst (run_ops step s (p # ps)) = fst (run_ops step (fst (step s p)) ps)"
  "snd (run_ops step s (p # ps)) = snd (step s p) # snd (run_ops step (fst (step s p)) ps)"
  by (simp_all add: case_prod_beta)

lemma run_ops_Cons_pair:
  "run_ops step s (p # ps) =
    (fst (run_ops step (fst (step s p)) ps), snd (step s p) # snd (run_ops step (fst (step s p)) ps))"
  by (simp add: case_prod_beta)

locale simulation =
  fixes inv :: "'c \<Rightarrow> bool"
    and ok :: "'op \<Rightarrow> bool"
    and abs :: "'c \<Rightarrow> 'a"
    and cstep :: "'c \<Rightarrow> 'op \<Rightarrow> 'c \<times> 'r"
    and astep :: "'a \<Rightarrow> 'op \<Rightarrow> 'a \<times> 'r"
  assumes step_inv: "inv c \<Longrightarrow> ok p \<Longrightarrow> inv (fst (cstep c p))"
    and step_abs: "inv c \<Longrightarrow> ok p \<Longrightarrow> astep (abs c) p = (abs (fst (cstep c p)), snd (cstep c p))"
begin

lemma run_inv: "inv c \<Longrightarrow> list_all ok ps \<Longrightarrow> inv (fst (run_ops cstep c ps))"
proof (induction ps arbitrary: c)
  case (Cons p ps)
  then have "inv (fst (cstep c p))" by (simp add: step_inv)
  with Cons show ?case by (simp add: run_ops_Cons del: run_ops.simps)
qed simp

lemma run_refines:
  "inv c \<Longrightarrow> list_all ok ps \<Longrightarrow>
    run_ops astep (abs c) ps = (abs (fst (run_ops cstep c ps)), snd (run_ops cstep c ps))"
proof (induction ps arbitrary: c)
  case (Cons p ps)
  then have "inv (fst (cstep c p))" by (simp add: step_inv)
  with Cons show ?case
    by (simp add: step_abs run_ops_Cons_pair del: run_ops.simps(2))
qed simp

end

text \<open>
  The contract of a step relation and a predicate that every step keeps; it is then kept by
  every sequence of steps.
\<close>

locale preserved =
  fixes step :: "'s \<Rightarrow> 's \<Rightarrow> bool"
    and inv :: "'s \<Rightarrow> bool"
  assumes step_keeps: "inv s \<Longrightarrow> step s s' \<Longrightarrow> inv s'"
begin

lemma steps_keep: "step\<^sup>*\<^sup>* s s' \<Longrightarrow> inv s \<Longrightarrow> inv s'"
  by (induction rule: rtranclp_induct) (auto intro: step_keeps)

end

text \<open>
  The contract of an encoder and a reader of its output: nothing that is encoded is lost, so
  the encoder is injective on what it accepts.
\<close>

locale codec =
  fixes valid :: "'a \<Rightarrow> bool"
    and encode :: "'a \<Rightarrow> 'b"
    and decode :: "'b \<Rightarrow> 'a option"
  assumes decode_encode: "valid x \<Longrightarrow> decode (encode x) = Some x"
begin

lemma encode_eq_iff: "valid x \<Longrightarrow> valid y \<Longrightarrow> encode x = encode y \<longleftrightarrow> x = y"
  using decode_encode by (metis option.inject)

end

end
