(* ===== verification/Ringbuffer.thy ===== *)
theory Ringbuffer
  imports Prelude
begin

text \<open>
  \<^verbatim>\<open>util-src/ringbuffer.c\<close>: a byte FIFO of fixed size for protocol
  data. The definitions follow the C functions one by one; the contents of
  a buffer are the \<open>blen\<close> bytes from \<open>rpos\<close> on, wrapping at \<open>alen\<close>.

  The argument checks of the Lua auxiliary library (\<^verbatim>\<open>luaL_checkudata\<close>,
  \<^verbatim>\<open>luaL_checkinteger\<close>, \<^verbatim>\<open>luaL_checklstring\<close>) are the types of the arguments; an optional
  argument is an \<open>option\<close>.
\<close>

section \<open>State and operations\<close>

record ringbuffer =
  rpos :: nat
  wpos :: nat
  alen :: nat
  blen :: nat
  buffer :: bytes

text \<open>Translate an index relative to the read position to an index of the array.\<close>

definition wrap_pos :: "ringbuffer \<Rightarrow> int \<Rightarrow> int option" where
  "wrap_pos b idx =
     (if idx > to_long (int (blen b)) then None
      else if idx + to_long (int (rpos b)) > to_long (int (alen b))
        then Some (to_long (idx - (int (alen b) - int (rpos b))))
        else Some (to_long (int (rpos b) + idx)))"

definition calc_splice_positions :: "ringbuffer \<Rightarrow> int \<Rightarrow> int \<Rightarrow> (int \<times> int) option" where
  "calc_splice_positions b start0 end0 =
     (let start1 = (if start0 < 0 then to_long (1 + start0 + int (blen b)) else start0);
          start2 = (if start1 \<le> 0 then 1 else start1);
          end1 = (if end0 < 0 then to_long (1 + end0 + int (blen b)) else end0);
          end2 = (if end1 > to_long (int (blen b)) then to_long (int (blen b)) else end1);
          start3 = (if start2 < 1 then 1 else start2)
      in if start3 > end2 then None
         else (case wrap_pos b (start3 - 1) of
                 None \<Rightarrow> None
               | Some out_start \<Rightarrow>
                   (case wrap_pos b end2 of
                      None \<Rightarrow> None
                    | Some out_end \<Rightarrow> Some (out_start, out_end))))"

definition writechar :: "ringbuffer \<Rightarrow> byte \<Rightarrow> ringbuffer" where
  "writechar b c =
     b\<lparr>blen := usize_add (blen b) 1,
       buffer := (buffer b)[wpos b mod alen b := c],
       wpos := usize_add (wpos b) 1\<rparr>"

definition modpos :: "ringbuffer \<Rightarrow> ringbuffer" where
  "modpos b = b\<lparr>rpos := rpos b mod alen b, wpos := wpos b mod alen b\<rparr>"

text \<open>
  The byte at distance \<open>k\<close> from the read position, as \<^verbatim>\<open>find\<close> reads it. The index is
  reduced modulo the size, so the access stays in the array whatever \<open>k\<close> is.
\<close>

definition byte_at :: "ringbuffer \<Rightarrow> nat \<Rightarrow> byte" where
  "byte_at b k = buffer b ! (k mod alen b)"

text \<open>The inner loop of \<^verbatim>\<open>find\<close>: the bytes from index \<open>j\<close> of the pattern on.\<close>

function match_rest :: "ringbuffer \<Rightarrow> bytes \<Rightarrow> nat \<Rightarrow> nat \<Rightarrow> bool" where
  "match_rest b s i j =
     (if j < length s
      then if byte_at b (usize_add (usize_add (rpos b) i) j) \<noteq> s ! j then False
           else match_rest b s i (Suc j)
      else True)"
  by pat_completeness auto
termination
  by (relation "measure (\<lambda>(b, s, i, j). length s - j)") auto

declare match_rest.simps [simp del]

text \<open>
  The outer loop. Its bound \<^verbatim>\<open>b->blen - l\<close> is unsigned: it wraps when the pattern is
  longer than the contents, and the loop then never ends if the bound is the largest
  \<^verbatim>\<open>size_t\<close> and nothing matches. \<open>None\<close> is a loop that does not return.
\<close>

partial_function (option) find_loop :: "ringbuffer \<Rightarrow> bytes \<Rightarrow> nat \<Rightarrow> int option" where
  "find_loop b s i =
     (if i \<le> usize_sub (blen b) (length s)
      then if byte_at b (usize_add (rpos b) i) = cstr_at s 0 \<and> match_rest b s i 1
           then Some (to_int (int (usize_add i (length s))))
           else find_loop b s (usize_add i 1)
      else Some 0)"

definition find :: "ringbuffer \<Rightarrow> bytes \<Rightarrow> int option" where
  "find b s = (if rpos b = wpos b then Some 0 else find_loop b s 0)"

definition rb_find :: "ringbuffer \<Rightarrow> bytes \<Rightarrow> lua_value list option" where
  "rb_find b s =
     (case find b s of
        None \<Rightarrow> None
      | Some r \<Rightarrow> (let m = to_usize r in
          if m > 0 then Some [LInt (to_long (int m))] else Some []))"

definition rb_discard :: "ringbuffer \<Rightarrow> int \<Rightarrow> ringbuffer \<times> lua_value list" where
  "rb_discard b n =
     (let r = to_usize n in
      if r > blen b then (b, [LBool False])
      else (modpos (b\<lparr>blen := usize_sub (blen b) r, rpos := usize_add (rpos b) r\<rparr>), [LBool True]))"

definition rb_read :: "ringbuffer \<Rightarrow> int \<Rightarrow> bool \<Rightarrow> ringbuffer \<times> lua_value list" where
  "rb_read b n peek =
     (let r = to_usize n in
      if r > blen b then (b, [LNil])
      else
        let out = (if usize_add (rpos b) r > alen b
                   then take (alen b - rpos b) (drop (rpos b) (buffer b)) @
                        take (r - (alen b - rpos b)) (buffer b)
                   else take r (drop (rpos b) (buffer b)));
            b' = (if peek then b
                  else modpos (b\<lparr>blen := usize_sub (blen b) r, rpos := usize_add (rpos b) r\<rparr>))
        in (b', [LStr out]))"

definition rb_readuntil :: "ringbuffer \<Rightarrow> bytes \<Rightarrow> (ringbuffer \<times> lua_value list) option" where
  "rb_readuntil b s =
     (case find b s of
        None \<Rightarrow> None
      | Some r \<Rightarrow> (let m = to_usize r in
          if m > 0 then Some (rb_read b (to_long (int m)) False) else Some (b, [])))"

text \<open>The loop of \<^verbatim>\<open>rb_write\<close> writes the bytes in order and counts them.\<close>

fun write_loop :: "ringbuffer \<Rightarrow> bytes \<Rightarrow> nat \<Rightarrow> ringbuffer \<times> nat" where
  "write_loop b [] w = (b, w)"
| "write_loop b (c # s) w = write_loop (writechar b c) s (usize_add w 1)"

definition rb_write :: "ringbuffer \<Rightarrow> bytes \<Rightarrow> ringbuffer \<times> lua_value list" where
  "rb_write b s =
     (if usize_add (length s) (blen b) > alen b then (b, [LNil])
      else (case write_loop b s 0 of (b', w) \<Rightarrow> (modpos b', [LInt (int w)])))"

definition rb_sub :: "ringbuffer \<Rightarrow> int \<Rightarrow> int option \<Rightarrow> lua_value list" where
  "rb_sub b start end_arg =
     (let end0 = (case end_arg of None \<Rightarrow> -1 | Some e \<Rightarrow> e) in
      case calc_splice_positions b start end0 of
        None \<Rightarrow> [LStr []]
      | Some (wrapped_start, wrapped_end) \<Rightarrow>
          if wrapped_end \<le> wrapped_start
          then [LStr (take (alen b - nat wrapped_start) (drop (nat wrapped_start) (buffer b)) @
                      take (nat wrapped_end) (buffer b))]
          else [LStr (take (nat (wrapped_end - wrapped_start)) (drop (nat wrapped_start) (buffer b)))])"

text \<open>
  The loops push one number for each byte and never ask for room on the stack.
\<close>

definition push_bytes :: "bytes \<Rightarrow> nat list \<Rightarrow> lua_value list outcome" where
  "push_bytes buf is =
     (if length is \<le> LUA_MINSTACK then Inr (map (\<lambda>i. LInt (uint (buf ! i))) is)
      else Inl (Undefined ''Lua stack overflow''))"

definition rb_byte :: "ringbuffer \<Rightarrow> int option \<Rightarrow> int option \<Rightarrow> lua_value list outcome" where
  "rb_byte b start_arg end_arg =
     (let start = (case start_arg of None \<Rightarrow> 1 | Some i \<Rightarrow> i);
          end0 = (case end_arg of None \<Rightarrow> start | Some e \<Rightarrow> e)
      in case calc_splice_positions b start end0 of
        None \<Rightarrow> Inr []
      | Some (wrapped_start, wrapped_end) \<Rightarrow>
          push_bytes (buffer b)
            (if wrapped_end \<le> wrapped_start then [nat wrapped_start..<alen b] @ [0..<nat wrapped_end]
             else [nat wrapped_start..<nat wrapped_end]))"

definition rb_length :: "ringbuffer \<Rightarrow> lua_value list" where
  "rb_length b = [LInt (to_long (int (blen b)))]"

definition rb_size :: "ringbuffer \<Rightarrow> lua_value list" where
  "rb_size b = [LInt (to_long (int (alen b)))]"

definition rb_free :: "ringbuffer \<Rightarrow> lua_value list" where
  "rb_free b = [LInt (to_long (int (usize_sub (alen b) (blen b))))]"

text \<open>
  \<open>ptr\<close> is the text that \<^verbatim>\<open>%p\<close> makes of the address. \<^verbatim>\<open>%d\<close> takes an \<^verbatim>\<open>int\<close> where a \<^verbatim>\<open>size_t\<close>
  is passed; on the platforms considered that reads the low 32 bits.
\<close>

definition rb_tostring :: "bytes \<Rightarrow> ringbuffer \<Rightarrow> lua_value list" where
  "rb_tostring ptr b =
     [LStr (ascii ''ringbuffer: '' @ ptr @ ascii '' '' @ decimal_int (to_int (int (blen b))) @ ascii ''/'' @
            decimal_int (to_int (int (alen b))))]"

text \<open>
  The array is not initialised: its first contents are whatever the allocator returns,
  the parameter \<open>mem\<close>. The default size is the page size, the parameter \<open>pagesize\<close>.
\<close>

definition rb_new :: "int \<Rightarrow> (nat \<Rightarrow> byte) \<Rightarrow> int option \<Rightarrow> ringbuffer outcome" where
  "rb_new pagesize mem size_arg =
     (let size = (case size_arg of None \<Rightarrow> pagesize | Some n \<Rightarrow> n) in
      if \<not> size > 0 then Inl (ArgError 1 ''positive integer expected'')
      else Inr \<lparr>rpos = 0, wpos = 0, alen = to_usize size, blen = 0,
                buffer = map mem [0..<to_usize size]\<rparr>)"

section \<open>Invariant and contents\<close>

definition rb_wf :: "ringbuffer \<Rightarrow> bool" where
  "rb_wf b \<longleftrightarrow> 0 < alen b \<and> alen b < 2 ^ 63 \<and> length (buffer b) = alen b \<and> rpos b < alen b
     \<and> blen b \<le> alen b \<and> wpos b = (rpos b + blen b) mod alen b"

definition contents :: "ringbuffer \<Rightarrow> bytes" where
  "contents b = map (\<lambda>i. byte_at b (rpos b + i)) [0..<blen b]"

lemma length_contents [simp]: "length (contents b) = blen b"
  by (simp add: contents_def)

lemma nth_contents [simp]: "i < blen b \<Longrightarrow> contents b ! i = byte_at b (rpos b + i)"
  by (simp add: contents_def)

lemma rb_wfD:
  assumes "rb_wf b"
  shows "0 < alen b" "alen b < 2 ^ 63" "length (buffer b) = alen b" "rpos b < alen b"
    "blen b \<le> alen b" "wpos b = (rpos b + blen b) mod alen b" "wpos b < alen b"
    "blen b < 2 ^ 63" "rpos b < 2 ^ 63" "wpos b < 2 ^ 63"
  using assms by (auto simp: rb_wf_def intro: order.strict_trans mod_less_divisor)

text \<open>The contents as two slices of the array, the way the reading functions take them.\<close>

lemma slice_contents:
  assumes wf: "rb_wf b" and le: "k + n \<le> blen b"
  shows "take n (drop k (contents b)) = map (\<lambda>i. byte_at b (rpos b + k + i)) [0..<n]"
  using le by (intro nth_equalityI) (auto simp: add.assoc)

lemma slice_no_wrap:
  assumes wf: "rb_wf b" and "k + n \<le> blen b" and "rpos b + k + n \<le> alen b"
  shows "take n (drop k (contents b)) = take n (drop (rpos b + k) (buffer b))"
  using assms rb_wfD[OF wf]
  by (intro nth_equalityI) (auto simp: byte_at_def add.assoc)

lemma slice_past:
  assumes wf: "rb_wf b" and "k + n \<le> blen b" and "alen b \<le> rpos b + k"
  shows "take n (drop k (contents b)) = take n (drop (rpos b + k - alen b) (buffer b))"
  using assms rb_wfD[OF wf]
  by (intro nth_equalityI) (auto simp: byte_at_def add.assoc mod_if)

lemma slice_wrap:
  assumes wf: "rb_wf b" and "k + n \<le> blen b"
    and "rpos b + k \<le> alen b" and "alen b \<le> rpos b + k + n"
  shows "take n (drop k (contents b)) =
    take (alen b - (rpos b + k)) (drop (rpos b + k) (buffer b)) @
    take (n - (alen b - (rpos b + k))) (buffer b)"
proof -
  let ?m = "alen b - (rpos b + k)"
  have m: "?m \<le> n" "k + ?m + (n - ?m) \<le> blen b" using assms by auto
  have "take n (drop k (contents b)) =
    take ?m (drop k (contents b)) @ take (n - ?m) (drop (k + ?m) (contents b))"
    using m(1) by (metis add.commute drop_drop le_add_diff_inverse take_add)
  moreover have "take ?m (drop k (contents b)) = take ?m (drop (rpos b + k) (buffer b))"
    using assms m by (intro slice_no_wrap) auto
  moreover have "take (n - ?m) (drop (k + ?m) (contents b)) = take (n - ?m) (buffer b)"
    using slice_past[OF wf m(2)] assms by simp
  ultimately show ?thesis by simp
qed

section \<open>Writing\<close>

lemma contents_writechar:
  assumes "0 < alen b" "length (buffer b) = alen b" "blen b < alen b" "alen b < 2 ^ 63"
    and "rpos b < alen b" and "wpos b mod alen b = (rpos b + blen b) mod alen b"
  shows "contents (writechar b c) = contents b @ [c]"
proof (rule nth_equalityI)
  have blen: "blen (writechar b c) = Suc (blen b)"
    using assms by (simp add: writechar_def c_arith)
  then show "length (contents (writechar b c)) = length (contents b @ [c])" by simp
  fix i assume "i < length (contents (writechar b c))"
  then have i: "i < Suc (blen b)" using blen by simp
  have eq: "(rpos b + blen b) mod alen b = (rpos b + i) mod alen b \<longleftrightarrow> blen b = i"
    using assms i by (intro mod_add_inj) auto
  show "contents (writechar b c) ! i = (contents b @ [c]) ! i"
    using assms i eq blen
    by (auto simp: nth_append byte_at_def writechar_def nth_list_update less_Suc_eq)
qed

lemma writechar_fields [simp]:
  "rpos (writechar b c) = rpos b" "alen (writechar b c) = alen b"
  "length (buffer (writechar b c)) = length (buffer b)"
  by (simp_all add: writechar_def)

lemma write_loop_correct:
  assumes "0 < alen b" "length (buffer b) = alen b" "blen b + length s \<le> alen b"
    "alen b < 2 ^ 63" "rpos b < alen b" "wpos b mod alen b = (rpos b + blen b) mod alen b"
    "wpos b + length s < 2 ^ 64" "w + length s < 2 ^ 64" "write_loop b s w = (b', w')"
  shows "w' = w + length s \<and> rpos b' = rpos b \<and> alen b' = alen b \<and>
    blen b' = blen b + length s \<and> wpos b' = wpos b + length s \<and>
    length (buffer b') = alen b \<and> contents b' = contents b @ s"
  using assms
proof (induction s arbitrary: b w)
  case (Cons c s)
  have fields: "blen (writechar b c) = blen b + 1" "wpos (writechar b c) = wpos b + 1"
    using Cons.prems by (auto simp: writechar_def c_arith)
  have "(wpos b + 1) mod alen b = (rpos b + (blen b + 1)) mod alen b"
    using Cons.prems(6) by (metis add.assoc mod_add_left_eq)
  moreover have "write_loop (writechar b c) s (w + 1) = (b', w')"
    using Cons.prems by (simp add: c_arith)
  ultimately show ?case
    using Cons.IH[of "writechar b c" "w + 1"] Cons.prems fields
    by (simp add: contents_writechar)
qed simp

lemma modpos_fields [simp]:
  "alen (modpos b) = alen b" "blen (modpos b) = blen b" "buffer (modpos b) = buffer b"
  "rpos (modpos b) = rpos b mod alen b" "wpos (modpos b) = wpos b mod alen b"
  by (simp_all add: modpos_def)

lemma contents_modpos [simp]: "contents (modpos b) = contents b"
  by (simp add: contents_def byte_at_def mod_add_left_eq)

lemma rb_write_fits:
  assumes wf: "rb_wf b" and fits: "length s + blen b \<le> alen b"
  shows "\<exists>b'. rb_write b s = (b', [LInt (int (length s))]) \<and> rb_wf b' \<and>
    contents b' = contents b @ s \<and> alen b' = alen b"
proof -
  note wfD = rb_wfD[OF wf]
  obtain b' w where loop: "write_loop b s 0 = (b', w)" by fastforce
  have fits': "blen b + length s \<le> alen b" using fits by simp
  have "w = 0 + length s \<and> rpos b' = rpos b \<and> alen b' = alen b \<and>
    blen b' = blen b + length s \<and> wpos b' = wpos b + length s \<and>
    length (buffer b') = alen b \<and> contents b' = contents b @ s"
    using wfD fits' by (intro write_loop_correct[OF _ _ _ _ _ _ _ _ loop]) auto
  moreover have "\<not> usize_add (length s) (blen b) > alen b"
    using fits wfD by (subst usize_add_less) auto
  moreover have "(wpos b + length s) mod alen b = (rpos b + (blen b + length s)) mod alen b"
    using wfD(6) by (simp add: mod_add_left_eq add.assoc)
  ultimately have "rb_write b s = (modpos b', [LInt (int (length s))]) \<and> rb_wf (modpos b') \<and>
    contents (modpos b') = contents b @ s \<and> alen (modpos b') = alen b"
    using loop wfD fits' by (simp add: rb_write_def rb_wf_def)
  then show ?thesis by blast
qed

lemma rb_write_full:
  assumes wf: "rb_wf b" and "length s < 2 ^ 63" and "alen b < length s + blen b"
  shows "rb_write b s = (b, [LNil])"
  using assms rb_wfD[OF wf] by (simp add: rb_write_def c_arith)

section \<open>Reading and discarding\<close>

definition lua_integer :: "int \<Rightarrow> bool" where
  "lua_integer n \<longleftrightarrow> - (2 ^ 63) \<le> n \<and> n < 2 ^ 63"

lemma consume:
  assumes wf: "rb_wf b" and le: "r \<le> blen b"
  defines "b' \<equiv> modpos (b\<lparr>blen := usize_sub (blen b) r, rpos := usize_add (rpos b) r\<rparr>)"
  shows "rb_wf b'" "contents b' = drop r (contents b)" "alen b' = alen b"
proof -
  note wfD = rb_wfD[OF wf]
  have add: "usize_add (rpos b) r = rpos b + r" using wfD le by (intro usize_add_less) auto
  have sub: "usize_sub (blen b) r = blen b - r" using wfD le by (intro usize_sub_le) auto
  have "wpos b mod alen b = ((rpos b + r) mod alen b + (blen b - r)) mod alen b"
  proof -
    have "((rpos b + r) mod alen b + (blen b - r)) mod alen b = (rpos b + r + (blen b - r)) mod alen b"
      by (rule mod_add_left_eq)
    then show ?thesis using le wfD(6) by simp
  qed
  then show "rb_wf b'" using wfD le by (simp add: b'_def rb_wf_def add sub)
  show "contents b' = drop r (contents b)"
    using le unfolding b'_def contents_modpos
    by (intro nth_equalityI) (auto simp: add sub byte_at_def add.assoc)
  show "alen b' = alen b" by (simp add: b'_def)
qed

lemma to_usize_fits:
  assumes "rb_wf b" "lua_integer n"
  shows "to_usize n \<le> blen b \<longleftrightarrow> 0 \<le> n \<and> n \<le> int (blen b)"
proof (cases "0 \<le> n")
  case True
  with assms show ?thesis by (auto simp: lua_integer_def c_arith)
next
  case False
  then have "2 ^ 63 \<le> to_usize n" using assms by (intro to_usize_neg) (auto simp: lua_integer_def)
  with False show ?thesis using rb_wfD(8)[OF assms(1)] by simp
qed

lemma rb_discard_ok:
  assumes "rb_wf b" "0 \<le> n" "n \<le> int (blen b)"
  shows "\<exists>b'. rb_discard b n = (b', [LBool True]) \<and> rb_wf b' \<and>
    contents b' = drop (nat n) (contents b) \<and> alen b' = alen b"
proof -
  have "to_usize n = nat n" using assms rb_wfD[OF assms(1)] by (intro to_usize_nonneg) auto
  then show ?thesis
    using assms consume[OF assms(1), of "nat n"] by (auto simp: rb_discard_def Let_def)
qed

lemma rb_discard_short:
  assumes "rb_wf b" "lua_integer n" "\<not> (0 \<le> n \<and> n \<le> int (blen b))"
  shows "rb_discard b n = (b, [LBool False])"
  using assms to_usize_fits[OF assms(1,2)] by (auto simp: rb_discard_def Let_def not_le)

lemma rb_read_ok:
  assumes wf: "rb_wf b" and n: "0 \<le> n" "n \<le> int (blen b)"
  shows "\<exists>b'. rb_read b n peek = (b', [LStr (take (nat n) (contents b))]) \<and> rb_wf b' \<and>
    contents b' = (if peek then contents b else drop (nat n) (contents b)) \<and> alen b' = alen b"
proof -
  note wfD = rb_wfD[OF wf]
  have r: "to_usize n = nat n" using n wfD by (intro to_usize_nonneg) auto
  have add: "usize_add (rpos b) (nat n) = rpos b + nat n"
    using wfD n by (intro usize_add_less) auto
  have "take (nat n) (drop 0 (contents b)) =
    (if rpos b + nat n > alen b
     then take (alen b - rpos b) (drop (rpos b) (buffer b)) @
          take (nat n - (alen b - rpos b)) (buffer b)
     else take (nat n) (drop (rpos b) (buffer b)))"
    using slice_wrap[OF wf, of 0 "nat n"] slice_no_wrap[OF wf, of 0 "nat n"] n wfD by auto
  then show ?thesis
    using n wf consume[OF wf, of "nat n"] by (auto simp: rb_read_def r add Let_def)
qed

lemma rb_read_short:
  assumes "rb_wf b" "lua_integer n" "\<not> (0 \<le> n \<and> n \<le> int (blen b))"
  shows "rb_read b n peek = (b, [LNil])"
  using assms to_usize_fits[OF assms(1,2)] by (auto simp: rb_read_def Let_def not_le)

section \<open>Slices: the functions of the Lua string library\<close>

text \<open>
  The start and end positions of \<^verbatim>\<open>string.sub\<close> and \<^verbatim>\<open>string.byte\<close> of the Lua manual:
  negative positions count from the end, and both are clipped to the string.
\<close>

definition lua_start :: "nat \<Rightarrow> int \<Rightarrow> int" where
  "lua_start n i =
     (if i > 0 then i else if i = 0 then 1 else if i < - int n then 1 else int n + i + 1)"

definition lua_end :: "nat \<Rightarrow> int \<Rightarrow> int" where
  "lua_end n j =
     (if j > int n then int n else if j \<ge> 0 then j else if j < - int n then 0 else int n + j + 1)"

definition lua_sub :: "bytes \<Rightarrow> int \<Rightarrow> int \<Rightarrow> bytes" where
  "lua_sub s i j =
     (let a = lua_start (length s) i; e = lua_end (length s) j in
      if a > e then [] else take (nat (e - a + 1)) (drop (nat (a - 1)) s))"

definition wrapped :: "ringbuffer \<Rightarrow> int \<Rightarrow> int" where
  "wrapped b idx = (if idx + int (rpos b) > int (alen b) then idx + int (rpos b) - int (alen b)
                    else int (rpos b) + idx)"

lemma wrap_pos_wrapped:
  assumes "rb_wf b" "0 \<le> idx" "idx \<le> int (blen b)"
  shows "wrap_pos b idx = Some (wrapped b idx)"
proof -
  have long: "to_long (int (blen b)) = int (blen b)" "to_long (int (rpos b)) = int (rpos b)"
    "to_long (int (alen b)) = int (alen b)"
    using rb_wfD[OF assms(1)] by (auto intro!: to_long_range)
  have "to_long (idx - (int (alen b) - int (rpos b))) = idx + int (rpos b) - int (alen b)"
    using rb_wfD[OF assms(1)] assms(2,3) by (subst to_long_range) auto
  moreover have "idx + int (rpos b) \<le> int (alen b) \<Longrightarrow> to_long (int (rpos b) + idx) = int (rpos b) + idx"
    using rb_wfD[OF assms(1)] assms(2,3) by (intro to_long_range) auto
  ultimately show ?thesis
    using assms(3) by (auto simp: wrap_pos_def wrapped_def long)
qed

lemma calc_splice_positions_correct:
  assumes wf: "rb_wf b" and "lua_integer i" "lua_integer j"
  shows "calc_splice_positions b i j =
    (let a = lua_start (blen b) i; e = lua_end (blen b) j in
     if a > e then None else Some (wrapped b (a - 1), wrapped b e))"
proof -
  have long: "to_long (int (blen b)) = int (blen b)"
    using rb_wfD[OF wf] by (intro to_long_range) auto
  have i: "i < 0 \<Longrightarrow> to_long (1 + i + int (blen b)) = int (blen b) + i + 1"
    and j: "j < 0 \<Longrightarrow> to_long (1 + j + int (blen b)) = int (blen b) + j + 1"
    using assms(2,3) rb_wfD[OF wf] by (subst to_long_range; simp add: lua_integer_def)+
  show ?thesis
    using wrap_pos_wrapped[OF wf]
    by (auto simp: calc_splice_positions_def lua_start_def lua_end_def long i j Let_def)
qed

lemma splice_slice:
  assumes wf: "rb_wf b" and "k + n \<le> blen b" "0 < n"
  defines "s \<equiv> wrapped b (int k)" and "e \<equiv> wrapped b (int (k + n))"
  shows "(if e \<le> s then take (alen b - nat s) (drop (nat s) (buffer b)) @ take (nat e) (buffer b)
      else take (nat (e - s)) (drop (nat s) (buffer b))) = take n (drop k (contents b))"
    (is "?lhs = _")
proof -
  note wfD = rb_wfD[OF wf]
  consider (a) "rpos b + k + n \<le> alen b"
    | (b) "rpos b + k \<le> alen b" "alen b < rpos b + k + n" | (c) "alen b < rpos b + k"
    by linarith
  then show ?thesis
  proof cases
    case a
    then have "s = int (rpos b + k)" "e = int (rpos b + k + n)" by (simp_all add: s_def e_def wrapped_def)
    then have "\<not> e \<le> s" "nat s = rpos b + k" "nat (e - s) = n" using assms(3) by linarith+
    then show ?thesis using slice_no_wrap[OF wf assms(2) a] by simp
  next
    case b
    then have "s = int (rpos b + k)" "e = int (n - (alen b - (rpos b + k)))"
      by (auto simp: s_def e_def wrapped_def)
    moreover have "n - (alen b - (rpos b + k)) \<le> rpos b + k" using b wfD assms(2) by linarith
    ultimately have "e \<le> s" "nat s = rpos b + k" "nat e = n - (alen b - (rpos b + k))" by linarith+
    then show ?thesis using slice_wrap[OF wf assms(2)] b by simp
  next
    case c
    then have "s = int (rpos b + k - alen b)" "e = int (rpos b + k - alen b + n)"
      by (auto simp: s_def e_def wrapped_def)
    then have "\<not> e \<le> s" "nat s = rpos b + k - alen b" "nat (e - s) = n" using assms(3) by linarith+
    then show ?thesis using slice_past[OF wf assms(2)] c by simp
  qed
qed

lemma lua_range_bounds:
  assumes "lua_start n i \<le> lua_end n j"
  shows "nat (lua_start n i - 1) + nat (lua_end n j - lua_start n i + 1) \<le> n"
    and "0 < nat (lua_end n j - lua_start n i + 1)"
    and "int (nat (lua_start n i - 1)) = lua_start n i - 1"
    and "int (nat (lua_start n i - 1) + nat (lua_end n j - lua_start n i + 1)) = lua_end n j"
proof -
  have "1 \<le> lua_start n i" "lua_end n j \<le> int n"
    by (auto simp: lua_start_def lua_end_def)
  with assms show "nat (lua_start n i - 1) + nat (lua_end n j - lua_start n i + 1) \<le> n"
    and "0 < nat (lua_end n j - lua_start n i + 1)"
    and "int (nat (lua_start n i - 1)) = lua_start n i - 1"
    and "int (nat (lua_start n i - 1) + nat (lua_end n j - lua_start n i + 1)) = lua_end n j"
    by linarith+
qed

lemma rb_sub_correct:
  assumes wf: "rb_wf b" and "lua_integer i" "lua_integer (case j of None \<Rightarrow> -1 | Some e \<Rightarrow> e)"
  shows "rb_sub b i j = [LStr (lua_sub (contents b) i (case j of None \<Rightarrow> -1 | Some e \<Rightarrow> e))]"
proof -
  let ?j = "case j of None \<Rightarrow> -1 | Some e \<Rightarrow> e"
  note pos = calc_splice_positions_correct[OF wf assms(2,3)]
  show ?thesis
  proof (cases "lua_start (blen b) i > lua_end (blen b) ?j")
    case True
    then show ?thesis by (simp add: rb_sub_def pos lua_sub_def Let_def)
  next
    case False
    note r = lua_range_bounds[of "blen b" i ?j, OF False[unfolded not_less]]
    show ?thesis
      using splice_slice[OF wf r(1,2), unfolded r(3,4)] False
      by (auto simp: rb_sub_def pos lua_sub_def Let_def split: if_splits)
  qed
qed

lemma map_nth_upt: "e \<le> length xs \<Longrightarrow> map (\<lambda>i. f (xs ! i)) [a..<e] = map f (take (e - a) (drop a xs))"
  by (intro nth_equalityI) auto

lemma wrapped_bounds:
  assumes "rb_wf b" "0 \<le> idx" "idx \<le> int (blen b)"
  shows "0 \<le> wrapped b idx" "wrapped b idx \<le> int (alen b)"
  using rb_wfD[OF assms(1)] assms(2,3) by (auto simp: wrapped_def)

lemma rb_byte_correct:
  fixes i j :: "int option"
  assumes wf: "rb_wf b"
  defines "start \<equiv> case i of None \<Rightarrow> 1 | Some x \<Rightarrow> x"
  defines "e \<equiv> case j of None \<Rightarrow> start | Some x \<Rightarrow> x"
  assumes "lua_integer start" "lua_integer e"
  shows "rb_byte b i j =
    (let s = lua_sub (contents b) start e in
     if length s \<le> LUA_MINSTACK then Inr (map (\<lambda>c. LInt (uint c)) s) else Inl (Undefined ''Lua stack overflow''))"
proof -
  note pos = calc_splice_positions_correct[OF wf assms(4,5)]
  have args: "(case i of None \<Rightarrow> 1 | Some x \<Rightarrow> x) = start"
    "(case j of None \<Rightarrow> start | Some x \<Rightarrow> x) = e" by (simp_all add: start_def e_def)
  show ?thesis
  proof (cases "lua_start (blen b) start > lua_end (blen b) e")
    case True
    then show ?thesis by (simp add: rb_byte_def pos args lua_sub_def Let_def LUA_MINSTACK_def)
  next
    case False
    note r = lua_range_bounds[of "blen b" start e, OF False[unfolded not_less]]
    let ?s = "wrapped b (lua_start (blen b) start - 1)" and ?e = "wrapped b (lua_end (blen b) e)"
    have bounds: "0 \<le> ?s" "?e \<le> int (alen b)" "0 \<le> ?e" "?s \<le> int (alen b)"
      using r rb_wfD[OF wf] by (intro wrapped_bounds[OF wf]; linarith)+
    then have idx: "nat ?e \<le> length (buffer b)" "nat ?e - nat ?s = nat (?e - ?s)"
      using rb_wfD(3)[OF wf] by linarith+
    let ?f = "\<lambda>c. LInt (uint (c :: byte))"
    have m: "map (\<lambda>k. ?f (buffer b ! k)) [nat ?s..<alen b] = map ?f (take (alen b - nat ?s) (drop (nat ?s) (buffer b)))"
      "map (\<lambda>k. ?f (buffer b ! k)) [0..<nat ?e] = map ?f (take (nat ?e) (buffer b))"
      "map (\<lambda>k. ?f (buffer b ! k)) [nat ?s..<nat ?e] = map ?f (take (nat (?e - ?s)) (drop (nat ?s) (buffer b)))"
      using idx rb_wfD(3)[OF wf] map_nth_upt[where f = ?f and xs = "buffer b"] by auto
    let ?is = "if ?e \<le> ?s then [nat ?s..<alen b] @ [0..<nat ?e] else [nat ?s..<nat ?e]"
    have "map (\<lambda>k. ?f (buffer b ! k)) ?is = map ?f (if ?e \<le> ?s
        then take (alen b - nat ?s) (drop (nat ?s) (buffer b)) @ take (nat ?e) (buffer b)
        else take (nat (?e - ?s)) (drop (nat ?s) (buffer b)))"
      by (simp add: m)
    also have "\<dots> = map ?f (lua_sub (contents b) start e)"
      using False by (simp only: splice_slice[OF wf r(1,2), unfolded r(3,4)] lua_sub_def
          length_contents Let_def if_False)
    finally have vals: "map (\<lambda>k. ?f (buffer b ! k)) ?is = map ?f (lua_sub (contents b) start e)" .
    then have "length ?is = length (lua_sub (contents b) start e)" by (rule map_eq_imp_length_eq)
    moreover have "rb_byte b i j = push_bytes (buffer b) ?is" using False by (simp add: rb_byte_def pos args Let_def)
    ultimately show ?thesis using vals by (simp only: push_bytes_def Let_def)
  qed
qed

section \<open>The abstract queue\<close>

text \<open>
  The operations of the Lua object other than the searching ones and \<^verbatim>\<open>__tostring\<close>, and their
  specification: a queue of at most \<open>cap\<close> bytes. A result of \<open>byte\<close> with more values than the Lua
  stack has room for is undefined.
\<close>

datatype rb_op =
    Op_write bytes
  | Op_read int bool
  | Op_discard int
  | Op_sub int "int option"
  | Op_byte "int option" "int option"
  | Op_length
  | Op_size
  | Op_free

definition returns :: "'s \<times> lua_value list \<Rightarrow> 's \<times> lua_value list outcome" where
  "returns = map_prod id Inr"

fun rb_step :: "ringbuffer \<Rightarrow> rb_op \<Rightarrow> ringbuffer \<times> lua_value list outcome" where
  "rb_step b (Op_write s) = returns (rb_write b s)"
| "rb_step b (Op_read n peek) = returns (rb_read b n peek)"
| "rb_step b (Op_discard n) = returns (rb_discard b n)"
| "rb_step b (Op_sub i j) = (b, Inr (rb_sub b i j))"
| "rb_step b (Op_byte i j) = (b, rb_byte b i j)"
| "rb_step b Op_length = (b, Inr (rb_length b))"
| "rb_step b Op_size = (b, Inr (rb_size b))"
| "rb_step b Op_free = (b, Inr (rb_free b))"

fun fifo_step :: "nat \<times> bytes \<Rightarrow> rb_op \<Rightarrow> (nat \<times> bytes) \<times> lua_value list outcome" where
  "fifo_step (cap, q) (Op_write s) =
     (if length q + length s \<le> cap then ((cap, q @ s), Inr [LInt (int (length s))]) else ((cap, q), Inr [LNil]))"
| "fifo_step (cap, q) (Op_read n peek) =
     (if 0 \<le> n \<and> n \<le> int (length q)
      then ((cap, if peek then q else drop (nat n) q), Inr [LStr (take (nat n) q)])
      else ((cap, q), Inr [LNil]))"
| "fifo_step (cap, q) (Op_discard n) =
     (if 0 \<le> n \<and> n \<le> int (length q) then ((cap, drop (nat n) q), Inr [LBool True])
      else ((cap, q), Inr [LBool False]))"
| "fifo_step (cap, q) (Op_sub i j) =
     ((cap, q), Inr [LStr (lua_sub q i (case j of None \<Rightarrow> -1 | Some e \<Rightarrow> e))])"
| "fifo_step (cap, q) (Op_byte i j) =
     (let start = (case i of None \<Rightarrow> 1 | Some x \<Rightarrow> x);
          e = (case j of None \<Rightarrow> start | Some x \<Rightarrow> x);
          s = lua_sub q start e
      in ((cap, q), if length s \<le> LUA_MINSTACK then Inr (map (\<lambda>c. LInt (uint c)) s)
                    else Inl (Undefined ''Lua stack overflow'')))"
| "fifo_step (cap, q) Op_length = ((cap, q), Inr [LInt (int (length q))])"
| "fifo_step (cap, q) Op_size = ((cap, q), Inr [LInt (int cap)])"
| "fifo_step (cap, q) Op_free = ((cap, q), Inr [LInt (int (cap - length q))])"

text \<open>The arguments that Lua can pass: integers of 64 bit, strings that fit in memory.\<close>

fun rb_arg_ok :: "rb_op \<Rightarrow> bool" where
  "rb_arg_ok (Op_write s) = (length s < 2 ^ 63)"
| "rb_arg_ok (Op_read n peek) = lua_integer n"
| "rb_arg_ok (Op_discard n) = lua_integer n"
| "rb_arg_ok (Op_sub i j) = (lua_integer i \<and> (\<forall>x \<in> set_option j. lua_integer x))"
| "rb_arg_ok (Op_byte i j) = ((\<forall>x \<in> set_option i. lua_integer x) \<and> (\<forall>x \<in> set_option j. lua_integer x))"
| "rb_arg_ok _ = True"

definition fifo_of :: "ringbuffer \<Rightarrow> nat \<times> bytes" where
  "fifo_of b = (alen b, contents b)"

lemma lua_integer_const [simp]: "lua_integer 1" "lua_integer (- 1)"
  by (simp_all add: lua_integer_def)

lemma rb_write_step:
  assumes "rb_wf b" "length s < 2 ^ 63"
  shows "rb_wf (fst (rb_write b s)) \<and>
    fifo_step (fifo_of b) (Op_write s) = (fifo_of (fst (rb_write b s)), Inr (snd (rb_write b s)))"
proof (cases "length s + blen b \<le> alen b")
  case True
  from rb_write_fits[OF assms(1) True] True show ?thesis by (auto simp: fifo_of_def)
next
  case False
  with rb_write_full[OF assms] assms(1) show ?thesis by (simp add: fifo_of_def)
qed

lemma rb_read_step:
  assumes "rb_wf b" "lua_integer n"
  shows "rb_wf (fst (rb_read b n peek)) \<and>
    fifo_step (fifo_of b) (Op_read n peek) = (fifo_of (fst (rb_read b n peek)), Inr (snd (rb_read b n peek)))"
proof (cases "0 \<le> n \<and> n \<le> int (blen b)")
  case True
  with rb_read_ok[OF assms(1), of n peek] show ?thesis by (auto simp: fifo_of_def)
next
  case False
  with rb_read_short[OF assms False, of peek] assms(1) show ?thesis by (auto simp: fifo_of_def)
qed

lemma rb_discard_step:
  assumes "rb_wf b" "lua_integer n"
  shows "rb_wf (fst (rb_discard b n)) \<and>
    fifo_step (fifo_of b) (Op_discard n) = (fifo_of (fst (rb_discard b n)), Inr (snd (rb_discard b n)))"
proof (cases "0 \<le> n \<and> n \<le> int (blen b)")
  case True
  with rb_discard_ok[OF assms(1), of n] show ?thesis by (auto simp: fifo_of_def)
next
  case False
  with rb_discard_short[OF assms False] assms(1) show ?thesis by (auto simp: fifo_of_def)
qed

lemma rb_query_step:
  assumes "rb_wf b"
  shows "rb_length b = [LInt (int (blen b))]" "rb_size b = [LInt (int (alen b))]"
    "rb_free b = [LInt (int (alen b - blen b))]"
  using rb_wfD[OF assms] by (simp_all add: rb_length_def rb_size_def rb_free_def c_arith)

interpretation rb: simulation rb_wf rb_arg_ok fifo_of rb_step fifo_step
proof
  fix b p assume wf: "rb_wf b" and ok: "rb_arg_ok p"
  have "rb_wf (fst (rb_step b p)) \<and>
    fifo_step (fifo_of b) p = (fifo_of (fst (rb_step b p)), snd (rb_step b p))"
  proof (cases p)
    case (Op_sub i j)
    with wf ok show ?thesis
      by (cases j) (auto simp: fifo_of_def rb_sub_correct)
  next
    case (Op_byte i j)
    with wf ok show ?thesis
      by (cases i; cases j) (auto simp: fifo_of_def rb_byte_correct Let_def)
  qed (use wf ok rb_write_step rb_read_step rb_discard_step rb_query_step in
      \<open>auto simp: fifo_of_def returns_def map_prod_def case_prod_beta\<close>)
  then show "rb_wf (fst (rb_step b p))"
    and "fifo_step (fifo_of b) p = (fifo_of (fst (rb_step b p)), snd (rb_step b p))" by auto
qed

section \<open>Searching\<close>

text \<open>The position of the first occurrence of a pattern in a string.\<close>

definition first_occurrence :: "bytes \<Rightarrow> bytes \<Rightarrow> nat option" where
  "first_occurrence q s =
     List.find (\<lambda>k. take (length s) (drop k q) = s) [0..<Suc (length q - length s)]"

lemma match_rest_correct:
  assumes "rpos b + i + length s < 2 ^ 64"
  shows "match_rest b s i j \<longleftrightarrow> (\<forall>k. j \<le> k \<longrightarrow> k < length s \<longrightarrow> byte_at b (rpos b + i + k) = s ! k)"
  using assms
proof (induction b s i j rule: match_rest.induct)
  case (1 b s i j)
  show ?case
  proof (cases "j < length s")
    case True
    with "1.prems" have "usize_add (usize_add (rpos b) i) j = rpos b + i + j"
      by (simp add: c_arith)
    moreover have "(\<forall>k. j \<le> k \<longrightarrow> P k) \<longleftrightarrow> P j \<and> (\<forall>k. Suc j \<le> k \<longrightarrow> P k)" for P
      using le_eq_less_or_eq Suc_le_eq by auto
    ultimately show ?thesis
      using True 1 by (simp add: match_rest.simps[of b s i j])
  qed (simp add: match_rest.simps)
qed

lemma match_at:
  assumes wf: "rb_wf b" and s: "s \<noteq> []" "i + length s \<le> blen b"
  shows "byte_at b (usize_add (rpos b) i) = cstr_at s 0 \<and> match_rest b s i 1 \<longleftrightarrow>
    take (length s) (drop i (contents b)) = s"
proof -
  have small: "rpos b + i + length s < 2 ^ 64" using rb_wfD[OF wf] s(2) by auto
  have all: "(\<forall>k < length s. P k) \<longleftrightarrow> P 0 \<and> (\<forall>k. 1 \<le> k \<longrightarrow> k < length s \<longrightarrow> P k)" for P
    using s(1) by (metis One_nat_def Suc_leI gr0I length_greater_0_conv)
  have "take (length s) (drop i (contents b)) = s \<longleftrightarrow>
    (\<forall>k < length s. byte_at b (rpos b + i + k) = s ! k)"
    unfolding slice_contents[OF wf s(2)] by (subst list_eq_iff_nth_eq) simp
  also have "\<dots> \<longleftrightarrow> byte_at b (rpos b + i) = s ! 0 \<and> match_rest b s i 1"
    unfolding match_rest_correct[OF small] by (subst all) simp
  finally show ?thesis using s(1) small by (simp add: c_arith cstr_at_def)
qed

lemma find_loop_correct:
  assumes wf: "rb_wf b" and s: "s \<noteq> []" "length s \<le> blen b" and "alen b < 2 ^ 31"
    and "i \<le> Suc (blen b - length s)"
  shows "find_loop b s i = Some (case List.find (\<lambda>k. take (length s) (drop k (contents b)) = s)
    [i..<Suc (blen b - length s)] of None \<Rightarrow> 0 | Some k \<Rightarrow> int (k + length s))"
  using assms(5)
proof (induction "Suc (blen b - length s) - i" arbitrary: i)
  case 0
  then have "i = Suc (blen b - length s)" by simp
  then show ?case
    using s rb_wfD[OF wf] by (subst find_loop.simps) (simp add: c_arith)
next
  case (Suc n)
  then have i: "i \<le> blen b - length s" "i + length s \<le> blen b" using s by auto
  have sub: "usize_sub (blen b) (length s) = blen b - length s"
    using s rb_wfD[OF wf] by (intro usize_sub_le) auto
  have add: "usize_add i 1 = Suc i" "usize_add i (length s) = i + length s"
    using i rb_wfD[OF wf] by (simp_all add: c_arith)
  have ret: "to_int (int (i + length s)) = int (i + length s)"
    using i rb_wfD[OF wf] assms(4) by (intro to_int_range) auto
  have upt: "[i..<Suc (blen b - length s)] = i # [Suc i..<Suc (blen b - length s)]"
    using i by (simp add: upt_rec)
  show ?case
  proof (cases "take (length s) (drop i (contents b)) = s")
    case True
    then show ?thesis
      using i match_at[OF wf s(1) i(2)] unfolding find_loop.simps[of b s i] sub add upt ret
      by simp
  next
    case False
    have "find_loop b s i = find_loop b s (Suc i)"
      using i False match_at[OF wf s(1) i(2)] unfolding find_loop.simps[of b s i] sub add by auto
    also have "\<dots> = Some (case List.find (\<lambda>k. take (length s) (drop k (contents b)) = s)
      [Suc i..<Suc (blen b - length s)] of None \<Rightarrow> 0 | Some k \<Rightarrow> int (k + length s))"
      using Suc i by (intro Suc.hyps) auto
    finally show ?thesis using False unfolding upt by (simp del: upt_Suc)
  qed
qed

lemma empty_or_full:
  assumes "rb_wf b"
  shows "rpos b = wpos b \<longleftrightarrow> blen b = 0 \<or> blen b = alen b"
  using rb_wfD[OF assms] by (auto simp: mod_add_less split: if_splits)

lemma find_correct:
  assumes "rb_wf b" "s \<noteq> []" "length s \<le> blen b" "blen b < alen b" "alen b < 2 ^ 31"
  shows "find b s =
    Some (case first_occurrence (contents b) s of None \<Rightarrow> 0 | Some k \<Rightarrow> int (k + length s))"
  using assms find_loop_correct[OF assms(1,2,3,5), of 0] empty_or_full[OF assms(1)]
  by (simp add: find_def first_occurrence_def)

lemma first_occurrence_Some:
  assumes "first_occurrence q s = Some k" "length s \<le> length q"
  shows "k + length s \<le> length q" "take (length s) (drop k q) = s"
    "\<And>i. i < k \<Longrightarrow> take (length s) (drop i q) \<noteq> s"
proof -
  from assms obtain i where i: "i < Suc (length q - length s)" "[0..<Suc (length q - length s)] ! i = k"
    "take (length s) (drop k q) = s"
    "\<forall>j<i. take (length s) (drop ([0..<Suc (length q - length s)] ! j) q) \<noteq> s"
    unfolding first_occurrence_def find_Some_iff by auto
  then have "k = i" by (simp del: upt_Suc)
  with i assms(2) show "k + length s \<le> length q" "take (length s) (drop k q) = s"
    "\<And>i. i < k \<Longrightarrow> take (length s) (drop i q) \<noteq> s" by (auto simp del: upt_Suc)
qed

lemma first_occurrence_None:
  assumes "first_occurrence q s = None" "k + length s \<le> length q"
  shows "take (length s) (drop k q) \<noteq> s"
proof -
  have "k \<in> set [0..<Suc (length q - length s)]" using assms(2) by auto
  with assms(1) show ?thesis unfolding first_occurrence_def find_None_iff by blast
qed

text \<open>A pattern one byte longer than the contents makes the loop bound the largest
  \<^verbatim>\<open>size_t\<close>; if its first byte is nowhere in the array, the loop has no exit.\<close>

lemma find_loop_diverges:
  assumes "rb_wf b" "length s = blen b + 1" "\<And>k. k < alen b \<Longrightarrow> buffer b ! k \<noteq> cstr_at s 0"
    and "i < 2 ^ 64"
  shows "find_loop b s i = None"
proof (rule ccontr)
  assume "find_loop b s i \<noteq> None"
  then obtain r where r: "find_loop b s i = Some r" by blast
  have nomatch: "byte_at b k \<noteq> cstr_at s 0" for k
    using assms(3)[of "k mod alen b"] rb_wfD(1)[OF assms(1)] by (simp add: byte_at_def)
  have bound: "usize_sub (blen b) (length s) = 2 ^ 64 - 1"
    using assms(2) rb_wfD[OF assms(1)] by (subst usize_sub_wrap) auto
  have "b = b \<and> s = s \<and> i < 2 ^ 64 \<longrightarrow> False"
  proof (rule find_loop.raw_induct
      [where P = "\<lambda>b' s' i r. b' = b \<and> s' = s \<and> i < 2 ^ 64 \<longrightarrow> False", OF _ r])
    fix f b' s' i r
    assume IH: "\<And>b' s' i r. f b' s' i = Some r \<Longrightarrow> b' = b \<and> s' = s \<and> i < 2 ^ 64 \<longrightarrow> False"
      and step: "(if i \<le> usize_sub (blen b') (length s')
        then if byte_at b' (usize_add (rpos b') i) = cstr_at s' 0 \<and> match_rest b' s' i 1
             then Some (to_int (int (usize_add i (length s'))))
             else f b' s' (usize_add i 1)
        else Some 0) = Some r"
    show "b' = b \<and> s' = s \<and> i < 2 ^ 64 \<longrightarrow> False"
    proof
      assume now: "b' = b \<and> s' = s \<and> i < 2 ^ 64"
      then have "i \<le> usize_sub (blen b) (length s)" unfolding bound by linarith
      with step now nomatch have "f b s (usize_add i 1) = Some r" by simp
      then show False using IH[of b s "usize_add i 1" r] by (simp add: usize_add_def)
    qed
  qed
  then show False using assms(4) by simp
qed

section \<open>Properties\<close>

lemma rb_new_wf:
  assumes "rb_new pagesize mem sz = Inr b" "lua_integer (case sz of None \<Rightarrow> pagesize | Some n \<Rightarrow> n)"
  shows "rb_wf b" "contents b = []" "int (alen b) = (case sz of None \<Rightarrow> pagesize | Some n \<Rightarrow> n)"
  using assms
  by (auto simp: rb_new_def rb_wf_def contents_def lua_integer_def c_arith split: if_splits option.splits)

text \<open>
  C1: A ring buffer made by \<^verbatim>\<open>rb_new\<close> behaves, under every sequence of write, read,
  discard, sub, byte, length, size and free calls, exactly like a bounded byte queue: the
  results of the calls are those of the queue, in order, and the final contents agree. Every
  index stays inside the allocation and no size_t arithmetic wraps, because the invariant
  holds throughout. The one exception is \<^verbatim>\<open>byte\<close> of more than 20 bytes, which overruns the Lua stack.
\<close>

theorem rb_refines_fifo:
  assumes "rb_new pagesize mem sz = Inr b"
    and "lua_integer (case sz of None \<Rightarrow> pagesize | Some n \<Rightarrow> n)"
    and "list_all rb_arg_ok ops"
  shows "rb_wf (fst (run_ops rb_step b ops)) \<and>
    run_ops fifo_step (alen b, []) ops =
      (fifo_of (fst (run_ops rb_step b ops)), snd (run_ops rb_step b ops))"
  using rb.run_inv[of b ops] rb.run_refines[of b ops] rb_new_wf[OF assms(1,2)] assms(3)
  by (simp add: fifo_of_def)

theorem rb_refines_fifo_witness:
  "snd (run_ops rb_step \<lparr>rpos = 0, wpos = 0, alen = 4, blen = 0, buffer = [9, 9, 9, 9]\<rparr>
      [Op_write [1, 2, 3], Op_read 2 False, Op_write [4, 5, 6], Op_write [7], Op_read 4 False, Op_length]) =
    map Inr [[LInt 3], [LStr [1, 2]], [LInt 3], [LNil], [LStr [3, 4, 5, 6]], [LInt 0]]"
proof -
  let ?ops = "[Op_write [1, 2, 3], Op_read 2 False, Op_write [4, 5, 6], Op_write [7], Op_read 4 False, Op_length]"
  have new: "rb_new 4096 (\<lambda>_. 9) (Some 4) =
    Inr \<lparr>rpos = 0, wpos = 0, alen = 4, blen = 0, buffer = [9, 9, 9, 9]\<rparr>"
    by (simp add: rb_new_def c_arith upt_rec)
  have "list_all rb_arg_ok ?ops" "lua_integer 4" by (simp_all add: lua_integer_def)
  from rb_refines_fifo[OF new _ this(1)] this(2) show ?thesis by simp
qed

text \<open>
  C16: \<^verbatim>\<open>b:sub(i, j)\<close> is \<^verbatim>\<open>string.sub\<close> of the buffered string, for all 64-bit
  positions, negative and out-of-range ones included, whether or not the slice wraps.
\<close>

theorem rb_sub_is_string_sub:
  assumes "rb_wf b" "lua_integer i" "lua_integer j"
  shows "rb_sub b i (Some j) = [LStr (lua_sub (contents b) i j)]"
  using rb_sub_correct[OF assms(1,2), of "Some j"] assms(3) by simp

theorem rb_sub_is_string_sub_witness:
  "rb_sub \<lparr>rpos = 3, wpos = 2, alen = 4, blen = 3, buffer = [11, 12, 0, 10]\<rparr> (-3) (Some (-2)) = [LStr [10, 11]]"
proof -
  let ?b = "\<lparr>rpos = 3, wpos = 2, alen = 4, blen = 3, buffer = [11, 12, 0, 10 :: byte]\<rparr>"
  have wf: "rb_wf ?b" by (simp add: rb_wf_def)
  have "lua_integer (-3)" "lua_integer (-2)" by (simp_all add: lua_integer_def)
  from rb_sub_is_string_sub[OF wf this] show ?thesis
    by (simp add: lua_sub_def lua_start_def lua_end_def contents_def byte_at_def upt_rec)
qed

text \<open>
  C15: On a buffer that is not full, \<^verbatim>\<open>b:readuntil(s)\<close> with a non-empty pattern no
  longer than the contents returns: it removes and returns the shortest prefix of the
  contents that ends in the pattern, and leaves the buffer alone and returns nothing when the
  pattern does not occur.
\<close>

theorem rb_readuntil_correct:
  assumes "rb_wf b" "s \<noteq> []" "length s \<le> blen b" "blen b < alen b" "alen b < 2 ^ 31"
  shows "\<exists>b' r. rb_readuntil b s = Some (b', r) \<and> rb_wf b' \<and>
    (case first_occurrence (contents b) s of
       None \<Rightarrow> b' = b \<and> r = []
     | Some k \<Rightarrow> r = [LStr (take k (contents b) @ s)] \<and> contents b' = drop (k + length s) (contents b))"
proof (cases "first_occurrence (contents b) s")
  case None
  then show ?thesis
    using assms find_correct[OF assms] by (simp add: rb_readuntil_def c_arith)
next
  case (Some k)
  note k = first_occurrence_Some[OF Some, simplified length_contents, OF assms(3)]
  have "take (k + length s) (contents b) = take k (contents b) @ s"
    using k(2) by (simp add: take_add)
  moreover have "to_usize (int (k + length s)) = k + length s"
    "to_long (int (k + length s)) = int (k + length s)"
    using k(1) rb_wfD[OF assms(1)] by (auto intro!: to_long_range simp: to_usize_nonneg)
  moreover have "0 < k + length s" using assms(2) by simp
  ultimately show ?thesis
    using find_correct[OF assms] Some rb_read_ok[OF assms(1), of "int (k + length s)" False] k(1)
    by (auto simp: rb_readuntil_def nat_int_add)
qed

theorem rb_readuntil_correct_witness:
  "\<exists>b'. rb_readuntil \<lparr>rpos = 2, wpos = 1, alen = 4, blen = 3, buffer = [10, 0, 65, 13]\<rparr> [13, 10] =
      Some (b', [LStr [65, 13, 10]]) \<and> contents b' = []"
proof -
  let ?b = "\<lparr>rpos = 2, wpos = 1, alen = 4, blen = 3, buffer = [10, 0, 65, 13 :: byte]\<rparr>"
  have wf: "rb_wf ?b" by (simp add: rb_wf_def)
  have c: "contents ?b = [65, 13, 10]" by (simp add: contents_def byte_at_def upt_rec)
  have "first_occurrence [65, 13, 10] [13, 10] = Some 1"
    by (simp add: first_occurrence_def upt_rec)
  then show ?thesis
    using rb_readuntil_correct[OF wf, of "[13, 10]", unfolded c] by auto
qed

text \<open>
  The test for an empty buffer in \<^verbatim>\<open>find\<close> compares the two positions, which are
  also equal when the buffer is full: on a full buffer no pattern is ever found, so
  \<^verbatim>\<open>b:find\<close> and \<^verbatim>\<open>b:readuntil\<close> report nothing whatever the contents are.
\<close>

theorem find_full_buffer:
  assumes "rb_wf b" "blen b = alen b"
  shows "rb_find b s = Some [] \<and> rb_readuntil b s = Some (b, [])"
  using assms empty_or_full[OF assms(1)]
  by (simp add: rb_find_def rb_readuntil_def find_def to_usize_def)

theorem find_full_buffer_witness:
  "contents \<lparr>rpos = 0, wpos = 0, alen = 2, blen = 2, buffer = [13, 10]\<rparr> = [13, 10] \<and>
   rb_find \<lparr>rpos = 0, wpos = 0, alen = 2, blen = 2, buffer = [13, 10]\<rparr> [13, 10] = Some []"
  using find_full_buffer[of "\<lparr>rpos = 0, wpos = 0, alen = 2, blen = 2, buffer = [13, 10]\<rparr>" "[13, 10]"]
  by (simp add: rb_wf_def contents_def byte_at_def upt_rec)

text \<open>
  C39: The loop bound of \<^verbatim>\<open>find\<close> is an unsigned difference. On a buffer that is neither empty nor
  full (where \<^verbatim>\<open>find\<close> returns at once), with a pattern one byte
  longer than the contents it is the largest size_t, and the call never returns when the
  first byte of the pattern does not occur in the allocation.
\<close>

theorem find_long_pattern_diverges:
  assumes "rb_wf b" "0 < blen b" "blen b < alen b" "length s = blen b + 1"
    and "cstr_at s 0 \<notin> set (buffer b)"
  shows "rb_find b s = None \<and> rb_readuntil b s = None"
proof -
  have "buffer b ! k \<noteq> cstr_at s 0" if "k < alen b" for k
    using assms(5) that rb_wfD(3)[OF assms(1)] by (metis nth_mem)
  then have "find_loop b s 0 = None" by (intro find_loop_diverges[OF assms(1,4)]) simp_all
  moreover have "rpos b \<noteq> wpos b" using assms(2,3) empty_or_full[OF assms(1)] by simp
  ultimately show ?thesis by (simp add: rb_find_def rb_readuntil_def find_def)
qed

theorem find_long_pattern_diverges_witness:
  "rb_readuntil \<lparr>rpos = 0, wpos = 1, alen = 4, blen = 1, buffer = [65, 0, 0, 0]\<rparr> [13, 10] = None"
  using find_long_pattern_diverges
    [of "\<lparr>rpos = 0, wpos = 1, alen = 4, blen = 1, buffer = [65, 0, 0, 0]\<rparr>" "[13, 10]"]
  by (simp add: rb_wf_def)

end
