(* ===== verification/Base64.thy ===== *)
theory Base64
  imports Prelude
begin

text \<open>
  The base64 part of \<^verbatim>\<open>util-src/encodings.c\<close>: the encoder, which works on groups of three
  bytes, and the decoder, a loop over the characters that collects groups of four.
  \<^verbatim>\<open>unsigned long\<close> is a 64-bit word.
\<close>

section \<open>Encoder\<close>

definition b64_code :: bytes where
  "b64_code = ascii ''ABCDEFGHIJKLMNOPQRSTUVWXYZabcdefghijklmnopqrstuvwxyz0123456789+/''"

text \<open>
  The loop that fills \<^verbatim>\<open>s[3]\<close> down to \<^verbatim>\<open>s[0]\<close> with the digits of the tuple, lowest
  first: filling from the right is consing.
\<close>

primrec digits_loop :: "nat \<Rightarrow> 64 word \<Rightarrow> bytes \<Rightarrow> bytes" where
  "digits_loop 0 tuple s = s"
| "digits_loop (Suc k) tuple s =
     digits_loop k (tuple div 64) (b64_code ! unat (tuple mod 64) # s)"

definition base64_encode :: "byte \<Rightarrow> byte \<Rightarrow> byte \<Rightarrow> nat \<Rightarrow> bytes" where
  "base64_encode c1 c2 c3 n =
     (let tuple = ucast c3 + 256 * (ucast c2 + 256 * ucast c1);
          s = digits_loop 4 tuple []
      in take (n + 1) s @ replicate (3 - n) (of_char CHR ''=''))"

text \<open>The loop over the full groups; the second component is the buffer.\<close>

primrec encode_groups :: "nat \<Rightarrow> bytes \<Rightarrow> bytes \<Rightarrow> bytes \<times> bytes" where
  "encode_groups 0 s b = (s, b)"
| "encode_groups (Suc n) s b =
     encode_groups n (drop 3 s) (b @ base64_encode (cstr_at s 0) (cstr_at s 1) (cstr_at s 2) 3)"

text \<open>The number of groups is an \<^verbatim>\<open>int\<close>: beyond \<open>2 ^ 31\<close> groups it is not representable.\<close>

definition Lbase64_encode :: "bytes \<Rightarrow> lua_value list outcome" where
  "Lbase64_encode s =
     (let l = length s in
      if l div 3 \<ge> 2 ^ 31 then Inl (Undefined ''group count out of range'')
      else (case encode_groups (l div 3) s [] of
              (s', b) \<Rightarrow>
                (if l mod 3 = 1 then Inr [LStr (b @ base64_encode (cstr_at s' 0) 0 0 1)]
                 else if l mod 3 = 2 then Inr [LStr (b @ base64_encode (cstr_at s' 0) (cstr_at s' 1) 0 2)]
                 else Inr [LStr b])))"

section \<open>Decoder\<close>

definition base64_decode :: "nat \<Rightarrow> nat \<Rightarrow> nat \<Rightarrow> nat \<Rightarrow> nat \<Rightarrow> bytes" where
  "base64_decode c1 c2 c3 c4 n =
     (let tuple = of_nat c4 + 64 * (of_nat c3 + 64 * (of_nat c2 + 64 * of_nat c1)) :: 64 word in
      take (n - 1) [ucast (drop_bit 16 tuple), ucast (drop_bit 8 tuple), ucast tuple])"

definition b64_skip :: "byte \<Rightarrow> bool" where
  "b64_skip c \<longleftrightarrow> c = 10 \<or> c = 13 \<or> c = 9 \<or> c = 32 \<or> c = 12 \<or> c = 8"

text \<open>What an equals sign does with the \<open>n\<close> characters collected in \<open>t\<close> so far.\<close>

fun decode_padding :: "nat list \<Rightarrow> bytes" where
  "decode_padding [t0] = base64_decode t0 0 0 0 1"
| "decode_padding [t0, t1] = base64_decode t0 t1 0 0 2"
| "decode_padding [t0, t1, t2] = base64_decode t0 t1 t2 0 3"
| "decode_padding _ = []"

text \<open>
  The main loop: \<open>t\<close> are the first \<open>n\<close> entries of \<^verbatim>\<open>t\<close>, \<open>b\<close> the buffer. A zero byte,
  at the latest the one after the string, ends it; \<open>None\<close> is the early \<^verbatim>\<open>return 0\<close>.
\<close>

fun decode_loop :: "bytes \<Rightarrow> nat list \<Rightarrow> bytes \<Rightarrow> bytes option" where
  "decode_loop [] t b = Some b"
| "decode_loop (c # s) t b =
     (if c = of_char CHR ''='' then decode_loop s [] (b @ decode_padding t)
      else if c = 0 then Some b
      else if b64_skip c then decode_loop s t b
      else (case strchr b64_code c of
              None \<Rightarrow> None
            | Some v \<Rightarrow>
                (let t' = t @ [v] in
                 if length t' = 4
                 then decode_loop s [] (b @ base64_decode (t' ! 0) (t' ! 1) (t' ! 2) (t' ! 3) 4)
                 else decode_loop s t' b)))"

definition Lbase64_decode :: "bytes \<Rightarrow> lua_value list" where
  "Lbase64_decode s = (case decode_loop s [] [] of None \<Rightarrow> [] | Some b \<Rightarrow> [LStr b])"

section \<open>The alphabet\<close>

lemma b64_code_list:
  "b64_code = map of_nat ([65..<91] @ [97..<123] @ [48..<58] @ [43, 47])"
  by (simp add: b64_code_def ascii_def upt_rec)

lemma b64_code_length [simp]: "length b64_code = 64"
  by (simp add: b64_code_list)

lemma b64_code_distinct [simp]: "distinct b64_code"
  by (simp add: b64_code_def ascii_def)

lemma b64_code_plain:
  "c \<in> set b64_code \<Longrightarrow> c \<noteq> 0 \<and> c \<noteq> of_char CHR ''='' \<and> \<not> b64_skip c"
  unfolding b64_skip_def b64_code_def ascii_def by auto

lemma strchr_b64_code [simp]: "k < 64 \<Longrightarrow> strchr b64_code (b64_code ! k) = Some k"
  by (simp add: strchr_nth)

section \<open>One group\<close>

text \<open>The number that a group of three bytes stands for, and its four digits.\<close>

definition group_value :: "byte \<Rightarrow> byte \<Rightarrow> byte \<Rightarrow> nat" where
  "group_value c1 c2 c3 = unat c3 + 256 * (unat c2 + 256 * unat c1)"

lemma group_value_less: "group_value c1 c2 c3 < 2 ^ 24"
  using unat_byte[of c1] unat_byte[of c2] unat_byte[of c3]
  unfolding group_value_def by simp

lemma group_tuple:
  "(ucast c3 + 256 * (ucast c2 + 256 * ucast c1) :: 64 word) = of_nat (group_value c1 c2 c3)"
  by (simp add: group_value_def)

lemma unat_group_tuple [simp]:
  "unat (of_nat (group_value c1 c2 c3) :: 64 word) = group_value c1 c2 c3"
  using group_value_less[of c1 c2 c3] by (simp add: unat_of_nat)

lemma digits_loop_4:
  "digits_loop 4 w [] =
    [b64_code ! (unat w div 64 div 64 div 64 mod 64), b64_code ! (unat w div 64 div 64 mod 64),
     b64_code ! (unat w div 64 mod 64), b64_code ! (unat w mod 64)]"
proof -
  have four: "(4 :: nat) = Suc (Suc (Suc (Suc 0)))" by simp
  show ?thesis unfolding four by (simp add: unat_div_distrib unat_mod_distrib)
qed

lemma recompose:
  "x < 2 ^ 24 \<Longrightarrow> x mod 64 + 64 * (x div 64 mod 64 + 64 * (x div 64 div 64 mod 64 +
    64 * (x div 64 div 64 div 64 mod 64))) = x" for x :: nat
proof -
  assume "x < 2 ^ 24"
  then have "x div 64 div 64 div 64 mod 64 = x div 64 div 64 div 64" by simp
  then show ?thesis by (simp only: mod_mult_div_eq)
qed

lemma decoded_bytes:
  fixes x :: nat
  defines "w \<equiv> of_nat x :: 64 word"
  assumes "x < 2 ^ 24"
  shows "ucast (drop_bit 16 w) = (of_nat (x div 2 ^ 16) :: byte)"
    "ucast (drop_bit 8 w) = (of_nat (x div 2 ^ 8) :: byte)" "ucast w = (of_nat x :: byte)"
proof -
  have x: "unat w = x" using assms by (simp add: unat_of_nat)
  have shift: "unat (drop_bit 16 w) = x div 2 ^ 16" "unat (drop_bit 8 w) = x div 2 ^ 8"
    using x by (simp_all only: unat_drop_bit_eq) (simp_all add: drop_bit_eq_div)
  have eq: "ucast v = (of_nat (unat v) :: byte)" for v :: "64 word"
    by simp
  show "ucast (drop_bit 16 w) = (of_nat (x div 2 ^ 16) :: byte)"
    "ucast (drop_bit 8 w) = (of_nat (x div 2 ^ 8) :: byte)" "ucast w = (of_nat x :: byte)"
    by (simp_all only: eq x shift)
qed

lemma group_bytes:
  "(of_nat (group_value c1 c2 c3 div 2 ^ 16) :: byte) = c1"
  "(of_nat (group_value c1 c2 c3 div 2 ^ 8) :: byte) = c2"
  "(of_nat (group_value c1 c2 c3) :: byte) = c3"
proof -
  have c: "unat c1 < 256" "unat c2 < 256" "unat c3 < 256" by (rule unat_byte)+
  then have "group_value c1 c2 c3 div 2 ^ 16 = unat c1"
    "group_value c1 c2 c3 div 2 ^ 8 = unat c2 + 256 * unat c1"
    unfolding group_value_def using c by (simp; linarith)+
  moreover have "(256 :: byte) = 0" "(65536 :: byte) = 0" by simp_all
  ultimately show "(of_nat (group_value c1 c2 c3 div 2 ^ 16) :: byte) = c1"
    "(of_nat (group_value c1 c2 c3 div 2 ^ 8) :: byte) = c2"
    "(of_nat (group_value c1 c2 c3) :: byte) = c3"
    by (simp_all only: group_value_def of_nat_add of_nat_mult of_nat_unat of_nat_numeral
        ucast_id mult_zero_left add_0_right)
qed

lemma base64_decode_digits:
  fixes c1 c2 c3 :: byte
  defines "x \<equiv> group_value c1 c2 c3"
  shows "base64_decode (x div 64 div 64 div 64 mod 64) (x div 64 div 64 mod 64) (x div 64 mod 64) (x mod 64) n
    = take (n - 1) [c1, c2, c3]"
proof -
  let ?d1 = "x div 64 div 64 div 64 mod 64" and ?d2 = "x div 64 div 64 mod 64" and ?d3 = "x div 64 mod 64"
    and ?d4 = "x mod 64"
  have "(of_nat ?d4 + 64 * (of_nat ?d3 + 64 * (of_nat ?d2 + 64 * of_nat ?d1)) :: 64 word) =
    of_nat (?d4 + 64 * (?d3 + 64 * (?d2 + 64 * ?d1)))"
    by (simp only: of_nat_add of_nat_mult of_nat_numeral)
  also have "\<dots> = of_nat x" using recompose[of x] group_value_less[of c1 c2 c3] by (simp add: x_def)
  finally show ?thesis
    using decoded_bytes[of x] group_bytes[of c1 c2 c3] group_value_less[of c1 c2 c3]
    unfolding base64_decode_def Let_def by (simp add: x_def)
qed

section \<open>Round trip\<close>

lemma decode_char:
  assumes "k < 64"
  shows "decode_loop (b64_code ! k # s) t b =
    (if length t = 3 then decode_loop s []
        (b @ base64_decode ((t @ [k]) ! 0) ((t @ [k]) ! 1) ((t @ [k]) ! 2) ((t @ [k]) ! 3) 4)
     else decode_loop s (t @ [k]) b)"
proof -
  have "b64_code ! k \<in> set b64_code" using assms by simp
  from b64_code_plain[OF this] assms show ?thesis by (simp add: Let_def)
qed

lemma base64_encode_digits:
  fixes c1 c2 c3 :: byte
  defines "x \<equiv> group_value c1 c2 c3"
  shows "base64_encode c1 c2 c3 n =
    take (n + 1) [b64_code ! (x div 64 div 64 div 64 mod 64), b64_code ! (x div 64 div 64 mod 64),
      b64_code ! (x div 64 mod 64), b64_code ! (x mod 64)] @ replicate (3 - n) 61"
  unfolding base64_encode_def Let_def group_tuple digits_loop_4 unat_group_tuple x_def by simp

lemma decode_pad: "decode_loop (61 # s) t b = decode_loop s [] (b @ decode_padding t)"
  by simp

lemma decode_group:
  "decode_loop (base64_encode c1 c2 c3 3 @ s) [] b = decode_loop s [] (b @ [c1, c2, c3])"
  using base64_decode_digits[of c1 c2 c3 4]
  by (simp add: base64_encode_digits decode_char del: decode_loop.simps)

lemma decode_group_2:
  "decode_loop (base64_encode c1 c2 0 2) [] b = Some (b @ [c1, c2])"
proof -
  have "group_value c1 c2 0 mod 64 = 0" by (simp add: group_value_def)
  then show ?thesis
    using base64_decode_digits[of c1 c2 0 3]
    by (simp add: base64_encode_digits decode_char decode_pad
        del: decode_loop.simps(2))
qed

lemma decode_group_1:
  "decode_loop (base64_encode c1 0 0 1) [] b = Some (b @ [c1])"
proof -
  have "group_value c1 0 0 mod 64 = 0" "group_value c1 0 0 div 64 mod 64 = 0"
    by (simp_all add: group_value_def)
  then show ?thesis
    using base64_decode_digits[of c1 0 0 2]
    by (simp add: base64_encode_digits decode_char decode_pad
        numeral_2_eq_2 del: decode_loop.simps(2))
qed

text \<open>The encoder without its buffer and its count.\<close>

fun b64_encoding :: "bytes \<Rightarrow> bytes" where
  "b64_encoding (a # b # c # s) = base64_encode a b c 3 @ b64_encoding s"
| "b64_encoding [a, b] = base64_encode a b 0 2"
| "b64_encoding [a] = base64_encode a 0 0 1"
| "b64_encoding [] = []"

lemma encode_groups_encoding:
  "encode_groups (length s div 3) s b = (s', b') \<Longrightarrow>
    length s' = length s mod 3 \<and> b' @ b64_encoding s' = b @ b64_encoding s"
proof (induction s arbitrary: b rule: b64_encoding.induct)
  case (1 x y z s)
  have "length (x # y # z # s) div 3 = Suc (length s div 3)"
    "length (x # y # z # s) mod 3 = length s mod 3"
    by simp_all
  with 1 show ?case by simp
qed auto

lemma Lbase64_encode_encoding:
  assumes "length s div 3 < 2 ^ 31"
  shows "Lbase64_encode s = Inr [LStr (b64_encoding s)]"
proof -
  obtain s' b where g: "encode_groups (length s div 3) s [] = (s', b)" by fastforce
  from encode_groups_encoding[OF g]
  have len: "length s' = length s mod 3" and enc: "b @ b64_encoding s' = b64_encoding s" by auto
  have "length s' < 3" unfolding len by simp
  then consider "s' = []" | x where "s' = [x]" | x y where "s' = [x, y]"
    by (auto simp: less_Suc_eq numeral_3_eq_3 length_Suc_conv)
  then show ?thesis
    using assms g len enc[symmetric] by cases (simp_all add: Lbase64_encode_def)
qed

lemma decode_encoding: "decode_loop (b64_encoding s) [] b = Some (b @ s)"
proof (induction s arbitrary: b rule: b64_encoding.induct)
  case (1 x y z s)
  then show ?case by (simp add: decode_group del: decode_loop.simps)
qed (simp_all add: decode_group_1[simplified] decode_group_2)

section \<open>Shape of the output, rejected input\<close>

lemma b64_code_nth_mem: "k < 64 \<Longrightarrow> b64_code ! k \<in> set b64_code"
  by simp

lemma base64_encode_shape:
  assumes "n \<le> 3"
  shows "length (base64_encode c1 c2 c3 n) = 4" "set (base64_encode c1 c2 c3 n) \<subseteq> insert 61 (set b64_code)"
proof -
  show "length (base64_encode c1 c2 c3 n) = 4"
    using assms by (simp add: base64_encode_digits)
  show "set (base64_encode c1 c2 c3 n) \<subseteq> insert 61 (set b64_code)"
    unfolding base64_encode_digits set_append
    by (intro Un_least order.trans[OF set_take_subset]) (auto intro!: b64_code_nth_mem)
qed

lemma b64_encoding_shape:
  "length (b64_encoding s) = 4 * ((length s + 2) div 3) \<and> set (b64_encoding s) \<subseteq> insert 61 (set b64_code)"
proof (induction s rule: b64_encoding.induct)
  case (1 x y z s)
  have "(length (x # y # z # s) + 2) div 3 = Suc ((length s + 2) div 3)" by simp
  with 1 show ?case using base64_encode_shape[of 3 x y z] by auto
qed (use base64_encode_shape in simp_all)

definition b64_bad :: "byte \<Rightarrow> bool" where
  "b64_bad c \<longleftrightarrow> c \<notin> set b64_code \<and> c \<noteq> 61 \<and> \<not> b64_skip c"

lemma decode_loop_None: "decode_loop s t b = None \<longleftrightarrow> (\<exists>c \<in> set (c_str s). b64_bad c)"
proof (induction s t b rule: decode_loop.induct)
  case (2 c s t b)
  have "c \<in> set b64_code \<Longrightarrow> \<not> b64_bad c" "b64_skip c \<Longrightarrow> \<not> b64_bad c" "\<not> b64_bad 61"
    by (simp_all add: b64_bad_def)
  moreover have "\<not> b64_skip 0" "(61 :: byte) \<noteq> 0" by (simp_all add: b64_skip_def)
  ultimately show ?case
    using 2 strchr_eq_None[of b64_code c]
    by (auto simp: c_str_def b64_bad_def Let_def split: option.splits)
qed (simp add: c_str_def)

section \<open>Properties\<close>

text \<open>The encoder and the decoder as a codec: what the decoder makes of the result of the encoder.\<close>

definition decode_result :: "lua_value list outcome \<Rightarrow> bytes option" where
  "decode_result r =
     (case r of
        Inr [LStr e] \<Rightarrow> (case Lbase64_decode e of [LStr s] \<Rightarrow> Some s | _ \<Rightarrow> None)
      | _ \<Rightarrow> None)"

interpretation b64: codec "\<lambda>s. length s div 3 < 2 ^ 31" Lbase64_encode decode_result
proof unfold_locales
  fix s :: bytes assume "length s div 3 < 2 ^ 31"
  then show "decode_result (Lbase64_encode s) = Some s"
    using Lbase64_encode_encoding[of s] decode_encoding[of s "[]"]
    by (simp add: decode_result_def Lbase64_decode_def)
qed

text \<open>
  C2: Decoding what the encoder produced gives back the string, for every string of
  fewer than \<open>3 * 2 ^ 31\<close> bytes: the encoder returns, its output is decoded without an
  error, and no byte is lost or added at the padding. No two such strings have the same
  encoding.
\<close>

theorem base64_roundtrip:
  assumes "length s div 3 < 2 ^ 31"
  shows "(\<exists>e. Lbase64_encode s = Inr [LStr e] \<and> Lbase64_decode e = [LStr s]) \<and>
    (\<forall>t. length t div 3 < 2 ^ 31 \<longrightarrow> Lbase64_encode t = Lbase64_encode s \<longrightarrow> t = s)"
  using Lbase64_encode_encoding[OF assms] decode_encoding[of s "[]"] b64.encode_eq_iff[OF _ assms]
  by (simp add: Lbase64_decode_def)

theorem base64_roundtrip_witness:
  "(\<exists>e. Lbase64_encode [0, 255, 128, 61] = Inr [LStr e] \<and> Lbase64_decode e = [LStr [0, 255, 128, 61]]) \<and>
   Lbase64_encode [0, 255, 128] \<noteq> Lbase64_encode [0, 255, 128, 61]"
proof -
  have "length [0, 255, 128, 61 :: byte] div 3 < 2 ^ 31" "length [0, 255, 128 :: byte] div 3 < 2 ^ 31" by simp_all
  with base64_roundtrip[of "[0, 255, 128, 61]"]
  have "\<exists>e. Lbase64_encode [0, 255, 128, 61] = Inr [LStr e] \<and> Lbase64_decode e = [LStr [0, 255, 128, 61]]"
    and "Lbase64_encode [0, 255, 128] = Lbase64_encode [0, 255, 128, 61] \<longrightarrow> [0, 255, 128] = [0, 255, 128, 61 :: byte]"
    by blast+
  then show ?thesis by simp
qed

text \<open>
  The encoding of \<open>l\<close> bytes has \<open>4 * ((l + 2) div 3)\<close> characters, all from the
  base64 alphabet or the padding character.
\<close>

theorem base64_encode_shape_and_alphabet:
  assumes "length s div 3 < 2 ^ 31" and "Lbase64_encode s = Inr [LStr e]"
  shows "length e = 4 * ((length s + 2) div 3) \<and> set e \<subseteq> set b64_code \<union> {of_char CHR ''=''}"
  using Lbase64_encode_encoding[OF assms(1)] assms(2) b64_encoding_shape[of s] by auto

theorem base64_encode_shape_and_alphabet_witness:
  "Lbase64_encode (ascii ''coucou'') = Inr [LStr (ascii ''Y291Y291'')] \<and>
   set (ascii ''Y291Y291'') \<subseteq> set b64_code \<union> {of_char CHR ''=''}"
proof -
  have "Lbase64_encode (ascii ''coucou'') = Inr [LStr (ascii ''Y291Y291'')]"
    by (simp add: ascii_def Lbase64_encode_encoding base64_encode_digits group_value_def b64_code_def)
  with base64_encode_shape_and_alphabet[of "ascii ''coucou''" "ascii ''Y291Y291''"] show ?thesis
    by (simp add: ascii_def)
qed

text \<open>
  C37: The decoder reports an error (returns nothing) exactly when a byte before the
  first zero byte is neither in the alphabet nor the padding character nor one of the skipped
  control and space characters.
\<close>

theorem base64_decode_rejects:
  "Lbase64_decode s = [] \<longleftrightarrow>
    (\<exists>c \<in> set (c_str s). c \<notin> set b64_code \<and> c \<noteq> of_char CHR ''='' \<and> \<not> b64_skip c)"
  using decode_loop_None[of s "[]" "[]"]
  by (auto simp: Lbase64_decode_def b64_bad_def split: option.splits)

text \<open>
  A final group that is not padded to four characters is dropped without an error:
  two or three characters of the alphabet alone decode to the empty string, although they
  carry one or two bytes.
\<close>

theorem base64_decode_drops_unpadded:
  assumes "set s \<subseteq> set b64_code" "length s < 4"
  shows "Lbase64_decode s = [LStr []]"
proof -
  have "decode_loop s t b = Some b" if "set s \<subseteq> set b64_code" "length t + length s < 4" for s t b
    using that
  proof (induction s arbitrary: t)
    case (Cons c s)
    then obtain k where "k < 64" "c = b64_code ! k" by (metis b64_code_length in_set_conv_nth list.set_intros(1) subsetD)
    with Cons show ?case by (simp add: decode_char del: decode_loop.simps)
  qed simp
  from this[of s "[]" "[]"] assms show ?thesis by (simp add: Lbase64_decode_def)
qed

theorem base64_decode_drops_unpadded_witness:
  "Lbase64_decode (ascii ''QUI'') = [LStr []] \<and> Lbase64_decode (ascii ''QUI='') = [LStr [65, 66]]"
proof -
  have "set (ascii ''QUI'') \<subseteq> set b64_code" by (simp add: ascii_def b64_code_def)
  with base64_decode_drops_unpadded[of "ascii ''QUI''"] show ?thesis
    by (simp add: ascii_def Lbase64_decode_def b64_skip_def strchr_def b64_code_def base64_decode_def)
qed

end
