(* ===== verification/Utf8.thy ===== *)
theory Utf8
  imports Prelude
begin

text \<open>
  The UTF-8 part of \<^verbatim>\<open>util-src/encodings.c\<close>: \<^verbatim>\<open>utf8_decode\<close> reads one sequence,
  \<^verbatim>\<open>check_utf8\<close> a whole string including its terminating zero byte. \<^verbatim>\<open>unsigned int\<close> is
  a 32-bit word. A pointer into the string is the rest of the string from there on.
\<close>

section \<open>The decoder\<close>

lemma and_64_iff_bit: "c AND 64 \<noteq> 0 \<longleftrightarrow> bit c 6" for c :: "32 word"
  using and_exp_eq_0_iff_not_bit[of c 6] by simp

text \<open>The number of bits the loop has still to test: the measure for its termination.\<close>

lemma bits_below_7_shift:
  fixes c :: "32 word"
  assumes "bit c 6"
  shows "card {i. i < 7 \<and> bit (push_bit 1 c) i} < card {i. i < 7 \<and> bit c i}"
proof -
  have "{i. i < 7 \<and> bit (push_bit 1 c) i} \<subseteq> Suc ` {i. i < 6 \<and> bit c i}"
  proof
    fix i assume "i \<in> {i. i < 7 \<and> bit (push_bit 1 c) i}"
    then have "1 \<le> i" "i - 1 < 6" "bit c (i - 1)" unfolding mem_Collect_eq bit_push_bit_iff by auto
    then show "i \<in> Suc ` {i. i < 6 \<and> bit c i}" by (intro image_eqI[of _ _ "i - 1"]) auto
  qed
  then have "card {i. i < 7 \<and> bit (push_bit 1 c) i} \<le> card (Suc ` {i. i < 6 \<and> bit c i})"
    by (intro card_mono) simp_all
  also have "\<dots> = card {i. i < 6 \<and> bit c i}" by (simp add: card_image)
  also have "\<dots> < card (insert 6 {i. i < 6 \<and> bit c i})" by simp
  also have "insert 6 {i. i < 6 \<and> bit c i} \<subseteq> {i. i < 7 \<and> bit c i}" using assms by auto
  then have "card (insert 6 {i. i < 6 \<and> bit c i}) \<le> card {i. i < 7 \<and> bit c i}"
    by (intro card_mono) auto
  finally show ?thesis .
qed

function utf8_cont :: "bytes \<Rightarrow> 32 word \<Rightarrow> nat \<Rightarrow> 32 word \<Rightarrow> (32 word \<times> nat \<times> 32 word) option" where
  "utf8_cont s c count res =
     (if c AND 0x40 \<noteq> 0
      then let cc = cstr_at s (Suc count) in
           if cc AND 0xC0 \<noteq> 0x80 then None
           else utf8_cont s (push_bit 1 c) (Suc count) (push_bit 6 res OR (ucast cc AND 0x3F))
      else Some (c, count, res))"
  by pat_completeness auto
termination
  by (relation "measure (\<lambda>(s, c, count, res). card {i. i < 7 \<and> bit c i})")
    (auto simp: and_64_iff_bit intro: bits_below_7_shift[simplified])

declare utf8_cont.simps [simp del]

definition utf8_limits :: "32 word list" where
  "utf8_limits = [0xFF, 0x7F, 0x7FF, 0xFFFF]"

text \<open>
  The code point and the number of bytes read; \<open>Inr None\<close> is the null pointer for an
  invalid sequence. A shift by 32 bits or more is undefined; it happens for seven
  continuation bytes.
\<close>

definition utf8_decode :: "bytes \<Rightarrow> (32 word \<times> nat) option outcome" where
  "utf8_decode s =
     (let c = ucast (cstr_at s 0) :: 32 word in
      if c < 0x80 then Inr (Some (c, 1))
      else (case utf8_cont s c 0 0 of
              None \<Rightarrow> Inr None
            | Some (c', count, res0) \<Rightarrow>
                (if count * 5 \<ge> 32 then Inl (Undefined ''shift exceeds the width'')
                 else let res = res0 OR push_bit (count * 5) (c' AND 0x7F) in
                   if count > 3 \<or> res > 0x10FFFF \<or> res \<le> utf8_limits ! count
                      \<or> (0xD800 \<le> res \<and> res \<le> 0xDFFF)
                   then Inr None
                   else Inr (Some (res, count + 1)))))"

lemma utf8_decode_progress: "utf8_decode s = Inr (Some (v, n)) \<Longrightarrow> 0 < n"
  by (auto simp: utf8_decode_def Let_def split: if_splits option.splits)

text \<open>The loop of \<^verbatim>\<open>check_utf8\<close>: \<open>pos\<close> runs up to and including the terminating zero.\<close>

function check_utf8_loop :: "bytes \<Rightarrow> nat \<Rightarrow> bool outcome" where
  "check_utf8_loop s pos =
     (if pos \<le> length s
      then (case utf8_decode (drop pos s) of
              Inl e \<Rightarrow> Inl e
            | Inr None \<Rightarrow> Inr False
            | Inr (Some (v, n)) \<Rightarrow> check_utf8_loop s (pos + n))
      else Inr True)"
  by pat_completeness auto
termination
  by (relation "measure (\<lambda>(s, pos). Suc (length s) - pos)") (auto dest: utf8_decode_progress)

declare check_utf8_loop.simps [simp del]

definition check_utf8 :: "bytes \<Rightarrow> bytes option outcome" where
  "check_utf8 s =
     (case check_utf8_loop s 0 of Inl e \<Rightarrow> Inl e | Inr b \<Rightarrow> Inr (if b then Some s else None))"

definition Lutf8_valid :: "bytes \<Rightarrow> lua_value list outcome" where
  "Lutf8_valid s = (case check_utf8 s of Inl e \<Rightarrow> Inl e | Inr r \<Rightarrow> Inr [LBool (r \<noteq> None)])"

definition Lutf8_length :: "bytes \<Rightarrow> lua_value list outcome" where
  "Lutf8_length s =
     (case check_utf8 s of
        Inl e \<Rightarrow> Inl e
      | Inr None \<Rightarrow> Inr [LNil, LStr (ascii ''invalid utf8'')]
      | Inr (Some t) \<Rightarrow> Inr [LInt (int (length t))])"

section \<open>Words\<close>

lemma nat_and_192: "n AND 192 = 64 * (n div 64 mod 4)" for n :: nat
proof -
  have "n AND push_bit 6 (mask 2) = push_bit 6 (take_bit 2 (drop_bit 6 n))"
    by (rule bit_eqI) (auto simp: bit_simps)
  then show ?thesis by (simp add: push_bit_eq_mult take_bit_eq_mod drop_bit_eq_div mask_eq_exp_minus_1)
qed

lemma is_cont_iff: "cc AND 0xC0 = 0x80 \<longleftrightarrow> 0x80 \<le> unat cc \<and> unat cc < 0xC0" for cc :: byte
proof -
  have "cc AND 0xC0 = 0x80 \<longleftrightarrow> unat (cc AND 0xC0) = unat (0x80 :: byte)"
    by (simp only: word_unat_eq_iff)
  also have "\<dots> \<longleftrightarrow> 64 * (unat cc div 64 mod 4) = 128"
    by (simp add: unsigned_and_eq nat_and_192)
  also have "unat cc div 64 mod 4 = unat cc div 64"
    using unat_byte[of cc] by (intro mod_less) linarith
  also have "64 * (unat cc div 64) = 128 \<longleftrightarrow> 0x80 \<le> unat cc \<and> unat cc < 0xC0" by auto
  finally show ?thesis .
qed

lemma unat_and_63: "unat (w AND 0x3F) = unat w mod 64" for w :: "32 word"
proof -
  have "w AND 0x3F = take_bit 6 w" unfolding take_bit_eq_mask by (simp add: mask_eq_exp_minus_1)
  then show ?thesis by (simp only: unsigned_take_bit_eq) (simp add: take_bit_eq_mod)
qed

lemma unat_and_127: "unat (w AND 0x7F) = unat w mod 128" for w :: "32 word"
proof -
  have "w AND 0x7F = take_bit 7 w" unfolding take_bit_eq_mask by (simp add: mask_eq_exp_minus_1)
  then show ?thesis by (simp only: unsigned_take_bit_eq) (simp add: take_bit_eq_mod)
qed

lemma unat_push_bit:
  "unat w * 2 ^ n < 2 ^ 32 \<Longrightarrow> unat (push_bit n w) = unat w * 2 ^ n" for w :: "32 word"
  by (simp only: unsigned_push_bit_eq) (simp add: take_bit_eq_mod push_bit_eq_mult)

lemma unat_or_add:
  fixes a b :: "'a :: len word"
  assumes "2 ^ k dvd unat a" "unat b < 2 ^ k"
  shows "unat (a OR b) = unat a + unat b"
proof -
  from assms(1) obtain m where m: "unat a = push_bit k m" by (auto simp: push_bit_eq_mult mult.commute elim: dvdE)
  have "unat b = take_bit k (unat b)" using assms(2) by (simp add: take_bit_eq_mod)
  then have nb: "\<not> bit (unat b) n" if "k \<le> n" for n using that by (metis bit_take_bit_iff not_less)
  have "unat a AND unat b = 0"
    unfolding m by (rule bit_eqI) (use nb in \<open>auto simp: bit_and_iff bit_push_bit_iff\<close>)
  then show ?thesis by (simp add: unsigned_or_eq disjunctive_add_eq_or)
qed

lemma bit_lead: "bit (push_bit k (ucast (c :: byte) :: 32 word)) 6 \<longleftrightarrow> k \<le> 6 \<and> odd (unat c div 2 ^ (6 - k))"
proof -
  have "bit (ucast c :: 32 word) n \<longleftrightarrow> odd (unat c div 2 ^ n)" if "n \<le> 6" for n
  proof -
    have "bit (ucast c :: 32 word) n \<longleftrightarrow> bit (unat (ucast c :: 32 word)) n"
      using that by (simp add: bit_unsigned_iff)
    then show ?thesis by (simp add: bit_iff_odd)
  qed
  then show ?thesis by (simp add: bit_push_bit_iff)
qed

text \<open>One step of the loop appends six bits; the bits of the first byte go on top.\<close>

lemma append_six_bits:
  "push_bit 6 (word_of_nat v :: 32 word) OR (ucast (cc :: byte) AND 0x3F) = word_of_nat (v * 64 + unat cc mod 64)"
proof -
  have low: "ucast cc AND 0x3F = (word_of_nat (unat cc mod 64) :: 32 word)"
    by (rule word_unat_eq_iff[THEN iffD2])
      (simp add: unat_and_63 unsigned_of_nat take_bit_eq_mod)
  have "push_bit 6 (word_of_nat v :: 32 word) AND (ucast cc AND mask 6) = 0"
    by (rule bit_eqI) (auto simp: bit_simps)
  then have "push_bit 6 (word_of_nat v :: 32 word) OR (ucast cc AND 0x3F) =
      push_bit 6 (word_of_nat v) + (ucast cc AND 0x3F)"
    by (simp add: disjunctive_add_eq_or mask_eq_exp_minus_1)
  then show ?thesis by (simp add: low push_bit_eq_mult)
qed

lemma unat_lead:
  fixes c0 :: byte and res :: "32 word"
  defines "u \<equiv> unat c0"
  assumes "unat res < 2 ^ (6 * k)" and "k \<le> 3" and "even (u div 2 ^ (6 - k))"
  shows "unat (res OR push_bit (k * 5) (push_bit k (ucast c0) AND 0x7F)) =
    unat res + 2 ^ (6 * k) * (u mod 2 ^ (6 - k))"
proof -
  have k: "k = 0 \<or> k = 1 \<or> k = 2 \<or> k = 3" using assms(3) by auto
  have u: "u < 256" unfolding u_def by (rule unat_byte)
  have lo: "u * 2 ^ k mod 128 = 2 ^ k * (u mod 2 ^ (6 - k))"
  proof -
    have e: "(2 :: nat) ^ k * 2 ^ (7 - k) = 128" using k by auto
    have "u * 2 ^ k mod 128 = 2 ^ k * u mod (2 ^ k * 2 ^ (7 - k))" by (simp only: e mult.commute)
    also have "\<dots> = 2 ^ k * (u mod (2 ^ (6 - k) * 2))"
      using k by (subst mod_mult_mult1) (auto simp: Suc_diff_le simp flip: power_Suc2)
    also have "u mod (2 ^ (6 - k) * 2) = u mod 2 ^ (6 - k)"
      using assms(4) by (simp only: mod_mult2_eq) simp
    finally show ?thesis .
  qed
  have "unat (push_bit k (ucast c0) :: 32 word) = u * 2 ^ k"
    using k u by (subst unat_push_bit) (auto simp: u_def)
  then have "unat (push_bit k (ucast c0) AND 0x7F :: 32 word) = 2 ^ k * (u mod 2 ^ (6 - k))"
    by (simp only: unat_and_127 lo)
  moreover have "2 ^ k * (u mod 2 ^ (6 - k)) < 128" using lo by (metis mod_less_divisor zero_less_numeral)
  ultimately have top: "unat (push_bit (k * 5) (push_bit k (ucast c0) AND 0x7F) :: 32 word) =
    2 ^ (6 * k) * (u mod 2 ^ (6 - k))"
    using k by (subst unat_push_bit) auto
  have "unat (push_bit (k * 5) (push_bit k (ucast c0) AND 0x7F) OR res) =
    unat (push_bit (k * 5) (push_bit k (ucast c0) AND 0x7F) :: 32 word) + unat res"
    using assms(2) by (intro unat_or_add[where k = "6 * k"]) (simp_all only: top, simp_all)
  then show ?thesis by (simp only: top or.commute add.commute)
qed

section \<open>The sequences the loop accepts\<close>

definition cont_byte :: "bytes \<Rightarrow> nat \<Rightarrow> bool" where
  "cont_byte s i \<longleftrightarrow> 0x80 \<le> unat (cstr_at s i) \<and> unat (cstr_at s i) < 0xC0"

fun cont_value :: "bytes \<Rightarrow> nat \<Rightarrow> nat" where
  "cont_value s 0 = 0"
| "cont_value s (Suc k) = cont_value s k * 64 + unat (cstr_at s (Suc k)) mod 64"

lemma cont_value_less: "cont_value s k < 2 ^ (6 * k)"
proof (induction k)
  case (Suc k)
  have "unat (cstr_at s (Suc k)) mod 64 < 64" by simp
  moreover have "cont_value s k * 64 + 64 \<le> 2 ^ (6 * k) * 64" using Suc by simp
  ultimately have "cont_value s (Suc k) < 2 ^ (6 * k) * 64" by simp
  then show ?case by (simp add: power_add mult.commute)
qed simp

lemma utf8_cont_step:
  fixes c0 :: byte and s :: bytes
  defines "st \<equiv> (\<lambda>k. utf8_cont s (push_bit k (ucast c0)) k (word_of_nat (cont_value s k)))"
  shows "st k =
     (if k \<le> 6 \<and> odd (unat c0 div 2 ^ (6 - k))
      then if cont_byte s (Suc k) then st (Suc k) else None
      else Some (push_bit k (ucast c0), k, word_of_nat (cont_value s k)))"
  unfolding st_def cont_byte_def
  by (subst utf8_cont.simps)
    (simp add: and_64_iff_bit bit_lead is_cont_iff append_six_bits push_bit_push_bit Let_def del: of_nat_add of_nat_mult)

text \<open>\<open>n\<close> is the number of one bits of the first byte after the topmost.\<close>

lemma utf8_cont_eq:
  fixes c0 :: byte
  assumes ones: "\<forall>i<n. odd (unat c0 div 2 ^ (6 - i))"
    and stop: "n = 7 \<or> n \<le> 6 \<and> even (unat c0 div 2 ^ (6 - n))"
    and k: "k \<le> n"
  shows "utf8_cont s (push_bit k (ucast c0)) k (word_of_nat (cont_value s k)) =
    (if \<forall>i\<in>{k<..n}. cont_byte s i
     then Some (push_bit n (ucast c0), n, word_of_nat (cont_value s n)) else None)"
  using k
proof (induction k rule: inc_induct)
  case base
  then show ?case using stop by (subst utf8_cont_step) auto
next
  case (step k)
  have "{k<..n} = insert (Suc k) {Suc k<..n}" using step.hyps by auto
  moreover have "k \<le> 6" using step.hyps stop by auto
  moreover have "odd (unat c0 div 2 ^ (6 - k))" using ones step.hyps by simp
  ultimately show ?case using step.IH by (subst utf8_cont_step) auto
qed

section \<open>Decoding by the class of the first byte\<close>

definition scalar :: "nat \<Rightarrow> bool" where
  "scalar cp \<longleftrightarrow> cp \<le> 0x10FFFF \<and> \<not> (0xD800 \<le> cp \<and> cp \<le> 0xDFFF)"

definition seq_value :: "bytes \<Rightarrow> nat \<Rightarrow> nat" where
  "seq_value s n = cont_value s n + 2 ^ (6 * n) * (unat (cstr_at s 0) mod 2 ^ (6 - n))"

definition decode_class :: "bytes \<Rightarrow> nat \<Rightarrow> (32 word \<times> nat) option outcome" where
  "decode_class s n =
     Inr (if (\<forall>i\<in>{0<..n}. cont_byte s i) \<and> scalar (seq_value s n) \<and> unat (utf8_limits ! n) < seq_value s n
          then Some (word_of_nat (seq_value s n), n + 1) else None)"

lemma seq_value_less: "n \<le> 3 \<Longrightarrow> seq_value s n < 2 ^ 24"
proof -
  assume "n \<le> 3"
  then have n: "n = 0 \<or> n = 1 \<or> n = 2 \<or> n = 3" by auto
  have "unat (cstr_at s 0) mod 2 ^ (6 - n) < 2 ^ (6 - n)" by simp
  then show ?thesis
    using n cont_value_less[of s n] unfolding seq_value_def by (elim disjE) simp_all
qed

text \<open>The first byte has \<open>n\<close> ones after the topmost bit.\<close>

definition lead_ones :: "nat \<Rightarrow> nat \<Rightarrow> bool" where
  "lead_ones n u \<longleftrightarrow> (\<forall>i<n. odd (u div 2 ^ (6 - i))) \<and> (n = 7 \<or> n \<le> 6 \<and> even (u div 2 ^ (6 - n)))"

lemma lead_ones_code:
  "lead_ones n u \<longleftrightarrow>
    list_all (\<lambda>i. odd (u div 2 ^ (6 - i))) [0..<n] \<and> (n = 7 \<or> n \<le> 6 \<and> even (u div 2 ^ (6 - n)))"
  by (auto simp: lead_ones_def list_all_iff)

lemma lead_ones_lists:
  "list_all (lead_ones 0) [0x80..<0xC0]" "list_all (lead_ones 1) [0xC0..<0xE0]"
  "list_all (lead_ones 2) [0xE0..<0xF0]" "list_all (lead_ones 3) [0xF0..<0xF8]"
  "list_all (lead_ones 4) [0xF8..<0xFC]" "list_all (lead_ones 5) [0xFC..<0xFE]"
  "lead_ones 6 0xFE" "lead_ones 7 0xFF"
  by (simp_all add: lead_ones_code upt_conv_Cons)

lemmas lead_ones_class = lead_ones_lists[unfolded list_all_iff set_upt]

lemma utf8_decode_short:
  fixes s :: bytes
  defines "u \<equiv> unat (cstr_at s 0)"
  assumes "0x80 \<le> u" and n: "n \<le> 3"
    and lead: "lead_ones n u"
  shows "utf8_decode s = decode_class s n"
proof -
  have ones: "\<forall>i<n. odd (u div 2 ^ (6 - i))" and stop: "even (u div 2 ^ (6 - n))"
    using lead n by (auto simp: lead_ones_def)
  let ?c = "ucast (cstr_at s 0) :: 32 word"
  let ?res = "word_of_nat (cont_value s n) OR push_bit (n * 5) (push_bit n ?c AND 0x7F)"
  have ge: "\<not> ?c < 0x80" using assms(2) by (simp add: word_less_nat_alt u_def)
  have cont: "utf8_cont s ?c 0 0 =
      (if \<forall>i\<in>{0<..n}. cont_byte s i then Some (push_bit n ?c, n, word_of_nat (cont_value s n)) else None)"
    using utf8_cont_eq[of n "cstr_at s 0" 0 s] ones stop n by (simp add: u_def)
  have "cont_value s n < 2 ^ 32"
    using cont_value_less[of s n] n power_increasing[of "6 * n" 32 "2::nat"] by linarith
  then have v: "unat (word_of_nat (cont_value s n) :: 32 word) = cont_value s n"
    by (simp add: unsigned_of_nat take_bit_eq_mod)
  have val: "unat ?res = seq_value s n"
    using unat_lead[of "word_of_nat (cont_value s n)" n "cstr_at s 0"] cont_value_less[of s n] n stop
    by (simp add: v seq_value_def u_def)
  then have res: "?res = word_of_nat (seq_value s n)" by (metis of_nat_unat ucast_id)
  have val': "unat (word_of_nat (seq_value s n) :: 32 word) = seq_value s n" using val res by simp
  have shift: "\<not> 32 \<le> n * 5" using n by simp
  show ?thesis
  proof (cases "\<forall>i\<in>{0<..n}. cont_byte s i")
    case True
    have cont': "utf8_cont s ?c 0 0 = Some (push_bit n ?c, n, word_of_nat (cont_value s n))"
      unfolding cont by (rule if_P) (rule True)
    have "utf8_decode s =
        (if n > 3 \<or> ?res > 0x10FFFF \<or> ?res \<le> utf8_limits ! n \<or> (0xD800 \<le> ?res \<and> ?res \<le> 0xDFFF)
         then Inr None else Inr (Some (?res, n + 1)))"
      unfolding utf8_decode_def Let_def cont'
      using ge shift by (simp only: if_True if_False option.case prod.case simp_thms)
    then show ?thesis
      unfolding res decode_class_def scalar_def
      using n True by (auto simp: word_less_nat_alt word_le_nat_alt val')
  next
    case False
    have cont': "utf8_cont s ?c 0 0 = None" unfolding cont by (rule if_not_P) (rule False)
    show ?thesis using ge False by (auto simp: utf8_decode_def decode_class_def cont')
  qed
qed

lemma utf8_decode_long:
  fixes s :: bytes
  assumes "0xF8 \<le> unat (cstr_at s 0)"
  shows "utf8_decode s =
    (if unat (cstr_at s 0) = 0xFF \<and> (\<forall>i\<in>{0<..7}. cont_byte s i)
     then Inl (Undefined ''shift exceeds the width'') else Inr None)"
proof -
  let ?c = "ucast (cstr_at s 0) :: 32 word" and ?u = "unat (cstr_at s 0)"
  have ge: "\<not> ?c < 0x80" using assms(1) by (simp add: word_less_nat_alt)
  have "?u < 256" by (rule unat_byte)
  then have "?u \<in> {0xF8..<0xFC} \<or> ?u \<in> {0xFC..<0xFE} \<or> ?u = 0xFE \<or> ?u = 0xFF"
    using assms by auto
  then obtain n where n: "4 \<le> n" "n \<le> 7" "n = 7 \<longleftrightarrow> ?u = 0xFF" and lead: "lead_ones n ?u"
    using lead_ones_class that[of 4] that[of 5] that[of 6] that[of 7] by (elim disjE) simp_all
  have ones: "\<forall>i<n. odd (?u div 2 ^ (6 - i))" and stop: "n = 7 \<or> n \<le> 6 \<and> even (?u div 2 ^ (6 - n))"
    using lead by (auto simp: lead_ones_def)
  have cont: "utf8_cont s ?c 0 0 =
      (if \<forall>i\<in>{0<..n}. cont_byte s i then Some (push_bit n ?c, n, word_of_nat (cont_value s n)) else None)"
    using utf8_cont_eq[OF ones stop, of 0 s] by simp
  show ?thesis
    unfolding utf8_decode_def Let_def cont using ge n by auto
qed

lemma utf8_decode_eq:
  "utf8_decode s =
    (let u = unat (cstr_at s 0) in
     if u < 0x80 then Inr (Some (word_of_nat u, 1))
     else if u < 0xC0 then Inr None
     else if u < 0xE0 then decode_class s 1
     else if u < 0xF0 then decode_class s 2
     else if u < 0xF8 then decode_class s 3
     else if u = 0xFF \<and> (\<forall>i\<in>{0<..7}. cont_byte s i)
     then Inl (Undefined ''shift exceeds the width'') else Inr None)"
proof -
  let ?u = "unat (cstr_at s 0)"
  have "?u < 0x80 \<or> ?u \<in> {0x80..<0xC0} \<or> ?u \<in> {0xC0..<0xE0} \<or> ?u \<in> {0xE0..<0xF0}
      \<or> ?u \<in> {0xF0..<0xF8} \<or> 0xF8 \<le> ?u" by auto
  then show ?thesis
  proof (elim disjE)
    assume "?u < 0x80"
    then show ?thesis by (simp add: utf8_decode_def Let_def word_less_nat_alt)
  next
    assume "?u \<in> {0x80..<0xC0}"
    moreover from this have "utf8_decode s = decode_class s 0"
      using lead_ones_class(1) by (intro utf8_decode_short) auto
    moreover have "?u mod 64 < 64" by simp
    then have "?u mod 64 \<le> 255" by linarith
    ultimately show ?thesis by (auto simp: decode_class_def seq_value_def utf8_limits_def)
  qed (use lead_ones_class utf8_decode_short[of s 1] utf8_decode_short[of s 2]
         utf8_decode_short[of s 3] utf8_decode_long[of s] in \<open>auto simp: Let_def\<close>)
qed

section \<open>The reference encoding\<close>

text \<open>The encoding of a scalar value (RFC 3629).\<close>

definition mkbyte :: "nat \<Rightarrow> byte" where
  "mkbyte v = word_of_nat v"

definition utf8_encode :: "nat \<Rightarrow> bytes" where
  "utf8_encode cp =
    (if cp < 0x80 then [mkbyte cp]
     else if cp < 0x800 then [mkbyte (0xC0 + cp div 64), mkbyte (0x80 + cp mod 64)]
     else if cp < 0x10000
     then [mkbyte (0xE0 + cp div 4096), mkbyte (0x80 + cp div 64 mod 64), mkbyte (0x80 + cp mod 64)]
     else [mkbyte (0xF0 + cp div 262144), mkbyte (0x80 + cp div 4096 mod 64),
           mkbyte (0x80 + cp div 64 mod 64), mkbyte (0x80 + cp mod 64)])"

lemma unat_mkbyte: "v < 256 \<Longrightarrow> unat (mkbyte v) = v"
  by (simp add: mkbyte_def unsigned_of_nat take_bit_eq_mod)

lemma mkbyte_unat [simp]: "mkbyte (unat c) = c"
  by (simp add: mkbyte_def)

lemma unat_tail [simp]: "x < 64 \<Longrightarrow> unat (mkbyte (0x80 + x)) = 0x80 + x"
  by (rule unat_mkbyte) simp

lemma cont_byte_Cons [simp]: "cont_byte (c # t) (Suc i) = cont_byte t i"
  by (simp add: cont_byte_def)

lemma cont_byte_headE:
  assumes "cont_byte t 0"
  obtains x r where "x < 64" "t = mkbyte (0x80 + x) # r"
proof -
  obtain c r where t: "t = c # r" using assms by (cases t) (auto simp: cont_byte_def)
  show thesis using assms by (intro that[of "unat c - 0x80" r]) (auto simp: t cont_byte_def)
qed

lemma set_Ioc_0: "{0<..Suc 0} = {1}" "{0<..2::nat} = {1, 2}" "{0<..3::nat} = {1, 2, 3}"
  by auto

lemma payload_bits:
  "x < 64 \<Longrightarrow> (0x80 + x) mod 64 = x" "z < 32 \<Longrightarrow> (0xC0 + z) mod 32 = z"
  "z < 16 \<Longrightarrow> (0xE0 + z) mod 16 = z" "z < 8 \<Longrightarrow> (0xF0 + z) mod 8 = z" for x z :: nat
  using mod_mult_self1[of x 2 64] mod_mult_self1[of z 6 32] mod_mult_self1[of z 14 16] mod_mult_self1[of z 30 8]
  by (simp_all add: add.commute)

lemma digits64: "y < 64 \<Longrightarrow> (a * 64 + y) div 64 = a" "y < 64 \<Longrightarrow> (a * 64 + y) mod 64 = y" for a y :: nat
  by simp_all

lemma div_64_powers: "v div 4096 = v div 64 div 64" "v div 262144 = v div 64 div 64 div 64" for v :: nat
  by (simp_all flip: div_mult2_eq)

lemma cont_value_upto_3:
  "cont_value s 1 = unat (cstr_at s 1) mod 64"
  "cont_value s 2 = cont_value s 1 * 64 + unat (cstr_at s 2) mod 64"
  "cont_value s 3 = cont_value s 2 * 64 + unat (cstr_at s 3) mod 64"
  by (simp_all add: numeral_2_eq_2 numeral_3_eq_3)

lemmas seq_value_simps = seq_value_def payload_bits cont_value_upto_3

lemma decode_two:
  assumes "z < 32" "x < 64" and v: "v = z * 64 + x"
  shows "utf8_decode (mkbyte (0xC0 + z) # mkbyte (0x80 + x) # rest) =
      Inr (if scalar v \<and> 0x7F < v then Some (word_of_nat v, 2) else None)"
    and "0x7F < v \<Longrightarrow> utf8_encode v = [mkbyte (0xC0 + z), mkbyte (0x80 + x)]"
proof -
  let ?s = "mkbyte (0xC0 + z) # mkbyte (0x80 + x) # rest"
  have u: "unat (cstr_at ?s 0) = 0xC0 + z" using assms by (simp add: unat_mkbyte)
  have "seq_value ?s 1 = v" unfolding seq_value_simps u using assms by (simp add: payload_bits)
  then show "utf8_decode ?s = Inr (if scalar v \<and> 0x7F < v then Some (word_of_nat v, 2) else None)"
    unfolding utf8_decode_eq u using assms
    by (simp add: decode_class_def set_Ioc_0 cont_byte_def utf8_limits_def Let_def)
  show "0x7F < v \<Longrightarrow> utf8_encode v = [mkbyte (0xC0 + z), mkbyte (0x80 + x)]"
    using assms by (simp add: utf8_encode_def)
qed

lemma decode_three:
  assumes "z < 16" "x < 64" "y < 64" and v: "v = (z * 64 + x) * 64 + y"
  shows "utf8_decode (mkbyte (0xE0 + z) # mkbyte (0x80 + x) # mkbyte (0x80 + y) # rest) =
      Inr (if scalar v \<and> 0x7FF < v then Some (word_of_nat v, 3) else None)"
    and "0x7FF < v \<Longrightarrow> utf8_encode v = [mkbyte (0xE0 + z), mkbyte (0x80 + x), mkbyte (0x80 + y)]"
proof -
  let ?s = "mkbyte (0xE0 + z) # mkbyte (0x80 + x) # mkbyte (0x80 + y) # rest"
  have u: "unat (cstr_at ?s 0) = 0xE0 + z" using assms by (simp add: unat_mkbyte)
  have "seq_value ?s 2 = v" unfolding seq_value_simps u using assms by (simp add: payload_bits)
  then show "utf8_decode ?s = Inr (if scalar v \<and> 0x7FF < v then Some (word_of_nat v, 3) else None)"
    unfolding utf8_decode_eq u using assms
    by (simp add: decode_class_def set_Ioc_0 cont_byte_def utf8_limits_def Let_def)
  have "v div 4096 = z" "v div 64 mod 64 = x" "v mod 64 = y"
    using assms unfolding div_64_powers v by (simp_all only: digits64)
  then show "0x7FF < v \<Longrightarrow> utf8_encode v = [mkbyte (0xE0 + z), mkbyte (0x80 + x), mkbyte (0x80 + y)]"
    using assms by (simp add: utf8_encode_def)
qed

lemma decode_four:
  assumes "z < 8" "w < 64" "x < 64" "y < 64" and v: "v = ((z * 64 + w) * 64 + x) * 64 + y"
  shows "utf8_decode (mkbyte (0xF0 + z) # mkbyte (0x80 + w) # mkbyte (0x80 + x) # mkbyte (0x80 + y) # rest) =
      Inr (if scalar v \<and> 0xFFFF < v then Some (word_of_nat v, 4) else None)"
    and "0xFFFF < v \<Longrightarrow>
      utf8_encode v = [mkbyte (0xF0 + z), mkbyte (0x80 + w), mkbyte (0x80 + x), mkbyte (0x80 + y)]"
proof -
  let ?s = "mkbyte (0xF0 + z) # mkbyte (0x80 + w) # mkbyte (0x80 + x) # mkbyte (0x80 + y) # rest"
  have u: "unat (cstr_at ?s 0) = 0xF0 + z" using assms by (simp add: unat_mkbyte)
  have "seq_value ?s 3 = v" unfolding seq_value_simps u using assms by (simp add: payload_bits)
  then show "utf8_decode ?s = Inr (if scalar v \<and> 0xFFFF < v then Some (word_of_nat v, 4) else None)"
    unfolding utf8_decode_eq u using assms
    by (simp add: decode_class_def set_Ioc_0 cont_byte_def utf8_limits_def Let_def)
  have "v div 262144 = z" "v div 4096 mod 64 = w" "v div 64 mod 64 = x" "v mod 64 = y"
    using assms unfolding div_64_powers v by (simp_all only: digits64)
  then show "0xFFFF < v \<Longrightarrow>
      utf8_encode v = [mkbyte (0xF0 + z), mkbyte (0x80 + w), mkbyte (0x80 + x), mkbyte (0x80 + y)]"
    using assms by (simp add: utf8_encode_def)
qed

lemma scalar_split:
  assumes "scalar cp"
  obtains "cp < 0x80"
  | z x where "z < 32" "x < 64" "cp = z * 64 + x" "0x7F < cp"
  | z x y where "z < 16" "x < 64" "y < 64" "cp = (z * 64 + x) * 64 + y" "0x7FF < cp"
  | z w x y where "z < 8" "w < 64" "x < 64" "y < 64" "cp = ((z * 64 + w) * 64 + x) * 64 + y" "0xFFFF < cp"
proof -
  have "cp < 0x80 \<or> cp \<in> {0x80..<0x800} \<or> cp \<in> {0x800..<0x10000} \<or> cp \<in> {0x10000..<0x110000}"
    using assms by (auto simp: scalar_def)
  then show ?thesis
  proof (elim disjE)
    assume "cp \<in> {0x80..<0x800}"
    then show ?thesis by (intro that(2)[of "cp div 64" "cp mod 64"]) auto
  next
    assume "cp \<in> {0x800..<0x10000}"
    then show ?thesis
      by (intro that(3)[of "cp div 4096" "cp div 64 mod 64" "cp mod 64"]) (auto simp: div_64_powers)
  next
    assume "cp \<in> {0x10000..<0x110000}"
    then show ?thesis
      by (intro that(4)[of "cp div 262144" "cp div 4096 mod 64" "cp div 64 mod 64" "cp mod 64"]) (auto simp: div_64_powers)
  qed (rule that(1))
qed

lemma utf8_decode_encode:
  assumes "scalar cp"
  shows "utf8_decode (utf8_encode cp @ rest) = Inr (Some (word_of_nat cp, length (utf8_encode cp)))"
proof (cases rule: scalar_split[OF assms])
  case 1
  then show ?thesis by (simp add: utf8_encode_def utf8_decode_eq unat_mkbyte)
next
  case (2 z x)
  then show ?thesis using assms decode_two(1)[of z x cp rest] decode_two(2)[of z x cp] by simp
next
  case (3 z x y)
  then show ?thesis using assms decode_three(1)[of z x y cp rest] decode_three(2)[of z x y cp] by simp
next
  case (4 z w x y)
  then show ?thesis using assms decode_four(1)[of z w x y cp rest] decode_four(2)[of z w x y cp] by simp
qed

interpretation utf8c: codec scalar utf8_encode
  "\<lambda>s. case utf8_decode s of Inr (Some (w, n)) \<Rightarrow> Some (unat w) | _ \<Rightarrow> None"
proof unfold_locales
  fix cp assume cp: "scalar cp"
  then have "cp < 2 ^ 32" by (auto simp: scalar_def)
  then show "(case utf8_decode (utf8_encode cp) of Inr (Some (w, n)) \<Rightarrow> Some (unat w) | _ \<Rightarrow> None) = Some cp"
    using utf8_decode_encode[OF cp, of "[]"] by (simp add: unsigned_of_nat take_bit_eq_mod)
qed

lemma decode_class_SomeD:
  "decode_class s n = Inr (Some (w, m)) \<Longrightarrow> \<forall>i\<in>{0<..n}. cont_byte s i"
  by (auto simp: decode_class_def split: if_splits)

lemma utf8_decode_SomeD:
  assumes dec: "utf8_decode s = Inr (Some (w, n))" and "s \<noteq> []"
  obtains cp rest where "scalar cp" "s = utf8_encode cp @ rest" "n = length (utf8_encode cp)"
proof -
  obtain c t where s: "s = c # t" using \<open>s \<noteq> []\<close> by (cases s) auto
  let ?u = "unat c"
  have "?u < 0x80 \<or> ?u \<in> {0xC0..<0xE0} \<or> ?u \<in> {0xE0..<0xF0} \<or> ?u \<in> {0xF0..<0xF8}"
    using dec by (auto simp: utf8_decode_eq s Let_def split: if_splits)
  then show ?thesis
  proof (elim disjE)
    assume "?u < 0x80"
    then show ?thesis using dec
      by (intro that[of ?u t]) (auto simp: s utf8_decode_eq utf8_encode_def scalar_def)
  next
    assume u: "?u \<in> {0xC0..<0xE0}"
    then have "decode_class s 1 = Inr (Some (w, n))" using dec by (simp add: utf8_decode_eq s)
    from decode_class_SomeD[OF this] have "cont_byte s 1" by simp
    then obtain x r where x: "x < 64" "t = mkbyte (0x80 + x) # r" by (auto simp: s elim: cont_byte_headE)
    define z where "z = ?u - 0xC0"
    have "s = mkbyte (0xC0 + z) # mkbyte (0x80 + x) # r" "z < 32" using u by (auto simp: s x z_def)
    then show ?thesis
      using dec decode_two[of z x "z * 64 + x"] x
      by (intro that[of "z * 64 + x" r]) (auto split: if_splits)
  next
    assume u: "?u \<in> {0xE0..<0xF0}"
    then have "decode_class s 2 = Inr (Some (w, n))" using dec by (simp add: utf8_decode_eq s)
    from decode_class_SomeD[OF this] have "cont_byte t 0" "cont_byte t 1" by (simp_all add: set_Ioc_0 s) (simp add: numeral_2_eq_2)
    then obtain x y r where x: "x < 64" "y < 64" "t = mkbyte (0x80 + x) # mkbyte (0x80 + y) # r"
      by (metis One_nat_def cont_byte_Cons cont_byte_headE)
    define z where "z = ?u - 0xE0"
    have "s = mkbyte (0xE0 + z) # mkbyte (0x80 + x) # mkbyte (0x80 + y) # r" "z < 16"
      using u by (auto simp: s x z_def)
    then show ?thesis
      using dec decode_three[of z x y "(z * 64 + x) * 64 + y"] x
      by (intro that[of "(z * 64 + x) * 64 + y" r]) (auto split: if_splits)
  next
    assume u: "?u \<in> {0xF0..<0xF8}"
    then have "decode_class s 3 = Inr (Some (w, n))" using dec by (simp add: utf8_decode_eq s)
    from decode_class_SomeD[OF this] have "cont_byte t 0" "cont_byte t 1" "cont_byte t 2"
      by (simp_all add: set_Ioc_0 s) (simp_all add: numeral_2_eq_2 numeral_3_eq_3)
    then obtain x y v r where x: "x < 64" "y < 64" "v < 64"
        "t = mkbyte (0x80 + x) # mkbyte (0x80 + y) # mkbyte (0x80 + v) # r"
      by (metis One_nat_def numeral_2_eq_2 cont_byte_Cons cont_byte_headE)
    define z where "z = ?u - 0xF0"
    have "s = mkbyte (0xF0 + z) # mkbyte (0x80 + x) # mkbyte (0x80 + y) # mkbyte (0x80 + v) # r" "z < 8"
      using u by (auto simp: s x z_def)
    then show ?thesis
      using dec decode_four[of z x y v "((z * 64 + x) * 64 + y) * 64 + v"] x
      by (intro that[of "((z * 64 + x) * 64 + y) * 64 + v" r]) (auto split: if_splits)
  qed
qed

section \<open>Whole strings\<close>

definition well_formed_utf8 :: "bytes \<Rightarrow> bool" where
  "well_formed_utf8 s \<longleftrightarrow> (\<exists>cps. list_all scalar cps \<and> s = concat (map utf8_encode cps))"

lemma well_formed_Nil [simp]: "well_formed_utf8 []"
  unfolding well_formed_utf8_def by (rule exI[of _ "[]"]) simp

lemma well_formed_encode: "scalar cp \<Longrightarrow> well_formed_utf8 t \<Longrightarrow> well_formed_utf8 (utf8_encode cp @ t)"
proof -
  assume "scalar cp" "well_formed_utf8 t"
  then obtain cps where "list_all scalar (cp # cps)" "utf8_encode cp @ t = concat (map utf8_encode (cp # cps))"
    by (auto simp: well_formed_utf8_def)
  then show ?thesis unfolding well_formed_utf8_def by blast
qed

lemma well_formed_cases:
  assumes "well_formed_utf8 s"
  obtains "s = []" | cp t where "scalar cp" "s = utf8_encode cp @ t" "well_formed_utf8 t"
proof -
  obtain cps where "list_all scalar cps" "s = concat (map utf8_encode cps)"
    using assms unfolding well_formed_utf8_def by blast
  then show ?thesis using that by (cases cps) (auto simp: well_formed_utf8_def)
qed

lemma check_utf8_loop_iff:
  "pos \<le> length s \<Longrightarrow> check_utf8_loop s pos = Inr True \<longleftrightarrow> well_formed_utf8 (drop pos s)"
proof (induction s pos rule: check_utf8_loop.induct)
  case (1 s pos)
  show ?case
  proof (cases "pos = length s")
    case True
    then show ?thesis
      by (subst check_utf8_loop.simps, subst check_utf8_loop.simps) (simp add: utf8_decode_eq)
  next
    case False
    then have ne: "drop pos s \<noteq> []" using "1.prems" by simp
    have step: "check_utf8_loop s pos = Inr True \<longleftrightarrow> well_formed_utf8 t"
      if "scalar cp" "drop pos s = utf8_encode cp @ t" for cp t
    proof -
      let ?n = "length (utf8_encode cp)"
      have dec: "utf8_decode (drop pos s) = Inr (Some (word_of_nat cp, ?n))"
        using that utf8_decode_encode by simp
      have t: "drop (pos + ?n) s = t" using that(2) by (metis add.commute append_eq_conv_conj drop_drop)
      have "length (drop pos s) = ?n + length t" using that(2) by simp
      then have "pos + ?n \<le> length s" using "1.prems" by simp
      with "1.IH"[OF "1.prems" dec refl refl] have "check_utf8_loop s (pos + ?n) = Inr True \<longleftrightarrow> well_formed_utf8 t"
        by (simp add: t)
      then show ?thesis using "1.prems" by (subst check_utf8_loop.simps) (simp add: dec)
    qed
    show ?thesis
    proof
      assume ok: "check_utf8_loop s pos = Inr True"
      then obtain w n where "utf8_decode (drop pos s) = Inr (Some (w, n))"
        using "1.prems" by (subst (asm) check_utf8_loop.simps) (auto split: sum.splits option.splits)
      from utf8_decode_SomeD[OF this ne] obtain cp t where *: "scalar cp" "drop pos s = utf8_encode cp @ t" by metis
      with step[OF *] ok show "well_formed_utf8 (drop pos s)" by (simp add: well_formed_encode)
    next
      assume "well_formed_utf8 (drop pos s)"
      then show "check_utf8_loop s pos = Inr True"
        using ne step by (cases rule: well_formed_cases) auto
    qed
  qed
qed

lemma utf8_decode_defined: "0xFF \<notin> set s \<Longrightarrow> \<exists>r. utf8_decode s = Inr r"
proof -
  assume "0xFF \<notin> set s"
  then have "unat (cstr_at s 0) \<noteq> 0xFF"
    by (cases s) (auto simp: word_unat_eq_iff)
  then show ?thesis by (auto simp: utf8_decode_eq decode_class_def Let_def)
qed

lemma check_utf8_loop_defined: "0xFF \<notin> set s \<Longrightarrow> \<exists>b. check_utf8_loop s pos = Inr b"
proof (induction s pos rule: check_utf8_loop.induct)
  case (1 s pos)
  have "0xFF \<notin> set (drop pos s)" using "1.prems" by (meson in_set_dropD)
  then obtain r where r: "utf8_decode (drop pos s) = Inr r" using utf8_decode_defined by blast
  show ?case
  proof (cases "pos \<le> length s \<and> r \<noteq> None")
    case True
    then obtain v n where "r = Some (v, n)" by auto
    then show ?thesis
      using "1.IH"[OF _ r _ refl, of v n] "1.prems" True by (subst check_utf8_loop.simps) (simp add: r)
  next
    case False
    then show ?thesis by (subst check_utf8_loop.simps) (auto simp: r split: option.splits)
  qed
qed

text \<open>
  C3: \<^verbatim>\<open>utf8.valid\<close> accepts exactly the well-formed strings: the concatenations of the
  shortest encodings of Unicode scalar values, so overlong forms, surrogates, values above
  0x10FFFF, truncated sequences and stray continuation bytes are all rejected. On strings
  without the byte 0xFF every other string gives \<^verbatim>\<open>false\<close>, and \<^verbatim>\<open>utf8.length\<close>
  returns the length in bytes or the error in the same cases.
\<close>

theorem utf8_valid_iff_well_formed:
  "(Lutf8_valid s = Inr [LBool True] \<longleftrightarrow> well_formed_utf8 s) \<and>
   (0xFF \<notin> set s \<longrightarrow> \<not> well_formed_utf8 s \<longrightarrow>
      Lutf8_valid s = Inr [LBool False] \<and> Lutf8_length s = Inr [LNil, LStr (ascii ''invalid utf8'')]) \<and>
   (well_formed_utf8 s \<longrightarrow> Lutf8_length s = Inr [LInt (int (length s))])"
proof -
  have iff: "check_utf8_loop s 0 = Inr True \<longleftrightarrow> well_formed_utf8 s"
    using check_utf8_loop_iff[of 0 s] by simp
  have no: "check_utf8_loop s 0 = Inr False" if "0xFF \<notin> set s" "\<not> well_formed_utf8 s"
    using check_utf8_loop_defined[OF that(1), of 0] iff that(2) by (metis (full_types))
  show ?thesis
    using iff no by (auto simp: Lutf8_valid_def Lutf8_length_def check_utf8_def split: sum.splits if_splits)
qed

theorem utf8_valid_iff_well_formed_witness:
  "Lutf8_valid (utf8_encode 0x20AC @ utf8_encode 0) = Inr [LBool True] \<and>
   Lutf8_length (utf8_encode 0x20AC @ utf8_encode 0) = Inr [LInt 4] \<and>
   Lutf8_valid [0xC0] = Inr [LBool False]"
proof -
  let ?s = "utf8_encode 0x20AC @ utf8_encode 0"
  have wf: "well_formed_utf8 ?s"
    by (intro well_formed_encode) (simp_all add: scalar_def well_formed_encode[where t = "[]", simplified])
  have bad: "\<not> well_formed_utf8 [0xC0]"
  proof
    assume "well_formed_utf8 [0xC0]"
    then obtain cp t where "scalar cp" "[0xC0] = utf8_encode cp @ t"
      by (cases rule: well_formed_cases) auto
    then have "utf8_decode [0xC0] \<noteq> Inr None" by (simp add: utf8_decode_encode)
    then show False by (simp add: utf8_decode_eq decode_class_def set_Ioc_0 cont_byte_def)
  qed
  show ?thesis
    using utf8_valid_iff_well_formed[of ?s] utf8_valid_iff_well_formed[of "[0xC0]"] wf bad
    by (simp add: utf8_encode_def)
qed

text \<open>
  A lead byte 0xFF followed by seven continuation bytes makes \<^verbatim>\<open>utf8_decode\<close> shift
  a 32-bit value by 35 places before the test of the number of continuation bytes: the
  behaviour of \<^verbatim>\<open>utf8.valid\<close> and \<^verbatim>\<open>utf8.length\<close> is undefined for these strings.
\<close>

theorem utf8_shift_too_wide:
  assumes "length cs = 7" and "\<forall>c \<in> set cs. 0x80 \<le> c \<and> c < 0xC0"
  shows "Lutf8_valid (0xFF # cs @ rest) = Inl (Undefined ''shift exceeds the width'') \<and>
    Lutf8_length (0xFF # cs @ rest) = Inl (Undefined ''shift exceeds the width'')"
proof -
  let ?s = "0xFF # cs @ rest"
  have "cont_byte ?s i" if "i \<in> {0<..7}" for i
  proof -
    have j: "i = Suc (i - 1)" "i - 1 < 7" using that by auto
    then have "cstr_at ?s i = cs ! (i - 1)" using assms(1) by (auto simp: cstr_at_def nth_append nth_Cons split: nat.split)
    moreover have "0x80 \<le> cs ! (i - 1) \<and> cs ! (i - 1) < 0xC0" using assms j by simp
    ultimately show ?thesis by (simp add: cont_byte_def word_less_nat_alt word_le_nat_alt)
  qed
  then have "utf8_decode ?s = Inl (Undefined ''shift exceeds the width'')" by (simp add: utf8_decode_eq)
  then have "check_utf8_loop ?s 0 = Inl (Undefined ''shift exceeds the width'')"
    by (subst check_utf8_loop.simps) simp
  then show ?thesis by (simp add: Lutf8_valid_def Lutf8_length_def check_utf8_def)
qed

theorem utf8_shift_too_wide_witness:
  "Lutf8_valid (0xFF # replicate 7 0x80 @ []) = Inl (Undefined ''shift exceeds the width'')"
  using utf8_shift_too_wide[of "replicate 7 0x80" "[]"] by simp

end
