(* ===== verification/Strbitop.thy ===== *)
theory Strbitop
  imports Prelude
begin

text \<open>
  Bitwise operations on strings, \<^verbatim>\<open>util-src/strbitop.c\<close>. The three combining
  operations repeat their second argument over the first; \<^verbatim>\<open>common_prefix_bits\<close>
  counts the leading bits two strings share. The specification is on the list of bits of a
  string, the most significant bit of each byte first.
\<close>

section \<open>The operations\<close>

text \<open>
  When either string is empty the stack is cut back to the first argument, which is
  returned as it is.
\<close>

definition strop_and :: "bytes \<Rightarrow> bytes \<Rightarrow> lua_value list" where
  "strop_and str_a str_b =
     (let a = length str_a; b = length str_b in
      if a = 0 \<or> b = 0 then [LStr str_a]
      else [LStr (map (\<lambda>i. str_a ! i AND str_b ! (i mod b)) [0..<a])])"

definition strop_or :: "bytes \<Rightarrow> bytes \<Rightarrow> lua_value list" where
  "strop_or str_a str_b =
     (let a = length str_a; b = length str_b in
      if a = 0 \<or> b = 0 then [LStr str_a]
      else [LStr (map (\<lambda>i. str_a ! i OR str_b ! (i mod b)) [0..<a])])"

definition strop_xor :: "bytes \<Rightarrow> bytes \<Rightarrow> lua_value list" where
  "strop_xor str_a str_b =
     (let a = length str_a; b = length str_b in
      if a = 0 \<or> b = 0 then [LStr str_a]
      else [LStr (map (\<lambda>i. str_a ! i XOR str_b ! (i mod b)) [0..<a])])"

text \<open>
  The number of zero bits above the highest one among the lowest \<open>n\<close> bits. With \<open>n\<close> the
  width it is the compiler's \<^verbatim>\<open>__builtin_clz\<close>, which is undefined for zero.
\<close>

fun leading_zeros :: "'a :: len word \<Rightarrow> nat \<Rightarrow> nat" where
  "leading_zeros x 0 = 0"
| "leading_zeros x (Suc n) = (if bit x n then 0 else Suc (leading_zeros x n))"

definition builtin_clz :: "32 word \<Rightarrow> nat outcome" where
  "builtin_clz x = (if x = 0 then Inl (Undefined ''__builtin_clz of 0'') else Inr (leading_zeros x 32))"

text \<open>\<open>gnuc\<close> tells whether the compiler defines \<^verbatim>\<open>__GNUC__\<close>.\<close>

definition clz :: "bool \<Rightarrow> byte \<Rightarrow> nat outcome" where
  "clz gnuc c =
     (if gnuc then bind_outcome (builtin_clz (ucast c)) (\<lambda>n. Inr (n - (4 - 1) * 8))
      else if c AND 0x80 \<noteq> 0 then Inr 0
      else if c AND 0x40 \<noteq> 0 then Inr 1
      else if c AND 0x20 \<noteq> 0 then Inr 2
      else if c AND 0x10 \<noteq> 0 then Inr 3
      else if c AND 0x08 \<noteq> 0 then Inr 4
      else if c AND 0x04 \<noteq> 0 then Inr 5
      else if c AND 0x02 \<noteq> 0 then Inr 6
      else if c AND 0x01 \<noteq> 0 then Inr 7
      else Inr 8)"

text \<open>The loop, from index \<open>i\<close>; the number pushed is a \<^verbatim>\<open>size_t\<close> expression.\<close>

function prefix_loop :: "bool \<Rightarrow> bytes \<Rightarrow> bytes \<Rightarrow> nat \<Rightarrow> nat \<Rightarrow> nat outcome" where
  "prefix_loop gnuc str_a str_b min_len i =
     (if i < min_len
      then if str_a ! i \<noteq> str_b ! i
           then bind_outcome (clz gnuc (str_a ! i XOR str_b ! i)) (\<lambda>n. Inr ((i * 8 + n) mod 2 ^ 64))
           else prefix_loop gnuc str_a str_b min_len (Suc i)
      else Inr (i * 8 mod 2 ^ 64))"
  by pat_completeness auto
termination by (relation "measure (\<lambda>(g, a, b, m, i). m - i)") auto

declare prefix_loop.simps [simp del]

definition strop_common_prefix_bits :: "bool \<Rightarrow> bytes \<Rightarrow> bytes \<Rightarrow> lua_value list outcome" where
  "strop_common_prefix_bits gnuc str_a str_b =
     bind_outcome (prefix_loop gnuc str_a str_b (min (length str_a) (length str_b)) 0)
       (\<lambda>n. Inr [LInt (to_long (int n))])"

section \<open>Strings as lists of bits\<close>

definition byte_bits :: "byte \<Rightarrow> bool list" where
  "byte_bits c = map (bit c) (rev [0..<8])"

definition bits_of :: "bytes \<Rightarrow> bool list" where
  "bits_of s = concat (map byte_bits s)"

fun common_prefix :: "'a list \<Rightarrow> 'a list \<Rightarrow> nat" where
  "common_prefix (x # xs) (y # ys) = (if x = y then Suc (common_prefix xs ys) else 0)"
| "common_prefix _ _ = 0"

lemma length_byte_bits [simp]: "length (byte_bits c) = 8"
  by (simp add: byte_bits_def)

lemma bits_of_simps [simp]: "bits_of [] = []" "bits_of (c # s) = byte_bits c @ bits_of s"
  by (simp_all add: bits_of_def)

lemma length_bits_of [simp]: "length (bits_of s) = 8 * length s"
  by (induction s) auto

lemma nth_byte_bits: "j < 8 \<Longrightarrow> byte_bits c ! j \<longleftrightarrow> bit c (7 - j)"
  by (simp add: byte_bits_def rev_nth del: upt_Suc)

lemma nth_bits_of: "i < 8 * length s \<Longrightarrow> bits_of s ! i \<longleftrightarrow> bit (s ! (i div 8)) (7 - i mod 8)"
proof (induction s arbitrary: i)
  case (Cons c s)
  show ?case
  proof (cases "i < 8")
    case True
    then show ?thesis by (simp add: nth_append nth_byte_bits)
  next
    case False
    moreover from this have "i div 8 = Suc ((i - 8) div 8)" "i mod 8 = (i - 8) mod 8"
      by (simp_all add: le_div_geq le_mod_geq)
    ultimately show ?thesis using Cons by (simp add: nth_append)
  qed
qed simp

lemma byte_bits_inject [simp]: "byte_bits c = byte_bits d \<longleftrightarrow> c = d"
proof
  assume eq: "byte_bits c = byte_bits d"
  have "bit c n \<longleftrightarrow> bit d n" if "n < 8" for n
    using nth_byte_bits[of "7 - n" c] nth_byte_bits[of "7 - n" d] that eq by simp
  then show "c = d" by (intro bit_word_eqI) simp
qed simp

lemma common_prefix_append:
  "length u = length v \<Longrightarrow>
    common_prefix (u @ xs) (v @ ys) = (if u = v then length u + common_prefix xs ys else common_prefix u v)"
  by (induction u v rule: list_induct2) auto

lemma common_prefix_commute: "common_prefix xs ys = common_prefix ys xs"
  by (induction xs ys rule: common_prefix.induct) auto

lemma common_prefix_le:
  "common_prefix xs ys \<le> length xs" "common_prefix xs ys \<le> length ys"
  by (induction xs ys rule: common_prefix.induct) auto

lemma common_prefix_maximal:
  "common_prefix xs ys < length xs \<Longrightarrow> common_prefix xs ys < length ys \<Longrightarrow>
    xs ! common_prefix xs ys \<noteq> ys ! common_prefix xs ys"
  by (induction xs ys rule: common_prefix.induct) auto

lemma common_prefix_take_eq:
  "take (common_prefix xs ys) xs = take (common_prefix xs ys) ys"
  by (induction xs ys rule: common_prefix.induct) auto

section \<open>Leading zeros\<close>

lemma leading_zeros_xor:
  "leading_zeros (c XOR d) n = common_prefix (map (bit c) (rev [0..<n])) (map (bit d) (rev [0..<n]))"
  by (induction n) (simp_all add: bit_xor_iff)

lemma leading_zeros_ucast:
  "n \<le> 8 \<Longrightarrow> leading_zeros (ucast (c :: byte) :: 32 word) n = leading_zeros c n"
  by (induction n) (auto simp: bit_ucast_iff)

lemma leading_zeros_add:
  "(\<And>i. n \<le> i \<Longrightarrow> \<not> bit x i) \<Longrightarrow> leading_zeros x (k + n) = k + leading_zeros x n"
  by (induction k) auto

lemma leading_zeros_ucast_32: "leading_zeros (ucast (c :: byte) :: 32 word) 32 = 24 + leading_zeros c 8"
proof -
  have "\<not> bit (ucast c :: 32 word) i" if "8 \<le> i" for i
    using that by (auto simp: bit_ucast_iff dest: bit_imp_le_length)
  then show ?thesis
    using leading_zeros_add[of 8 "ucast c :: 32 word" 24] by (simp add: leading_zeros_ucast)
qed

lemma and_power_iff_bit: "c AND 2 ^ n \<noteq> 0 \<longleftrightarrow> bit c n" for c :: byte
  using and_exp_eq_0_iff_not_bit[of c n] by simp

lemma clz_portable: "clz False c = Inr (leading_zeros c 8)"
  using and_power_iff_bit[of c 7] and_power_iff_bit[of c 6] and_power_iff_bit[of c 5]
    and_power_iff_bit[of c 4] and_power_iff_bit[of c 3] and_power_iff_bit[of c 2]
    and_power_iff_bit[of c 1] and_power_iff_bit[of c 0]
  by (simp add: clz_def eval_nat_numeral)

text \<open>The two compiled variants agree wherever the first one is defined.\<close>

lemma clz_eq: "c \<noteq> 0 \<Longrightarrow> clz gnuc c = Inr (leading_zeros c 8)"
proof (cases gnuc)
  case True
  assume "c \<noteq> 0"
  then have "(ucast c :: 32 word) \<noteq> 0" by (simp add: word_unat_eq_iff)
  with True show ?thesis by (simp add: clz_def builtin_clz_def leading_zeros_ucast_32)
qed (simp add: clz_portable)

section \<open>Properties\<close>

lemma xor_eq_0_iff_byte: "c XOR d = 0 \<longleftrightarrow> c = d" for c d :: byte
  by (metis xor.assoc xor_self_eq xor.left_neutral xor.right_neutral)

lemma prefix_loop_eq:
  assumes "i \<le> min_len" and "min_len \<le> length a" "min_len \<le> length b" and small: "8 * min_len < 2 ^ 64"
    and stop: "min_len = length a \<or> min_len = length b"
  shows "prefix_loop gnuc a b min_len i =
    Inr (8 * i + common_prefix (bits_of (drop i a)) (bits_of (drop i b)))"
  using assms
proof (induction gnuc a b min_len i rule: prefix_loop.induct)
  case (1 gnuc a b m i)
  show ?case
  proof (cases "i < m")
    case True
    then have d: "drop i a = a ! i # drop (Suc i) a" "drop i b = b ! i # drop (Suc i) b"
      using 1 by (simp_all add: Cons_nth_drop_Suc)
    show ?thesis
    proof (cases "a ! i = b ! i")
      case same: True
      then show ?thesis
        using 1 True by (subst prefix_loop.simps) (simp add: d common_prefix_append)
    next
      case diff: False
      have lz: "leading_zeros (a ! i XOR b ! i) 8 = common_prefix (byte_bits (a ! i)) (byte_bits (b ! i))"
        by (simp only: leading_zeros_xor byte_bits_def)
      have "common_prefix (byte_bits (a ! i)) (byte_bits (b ! i)) \<le> 8"
        using common_prefix_le[of "byte_bits (a ! i)"] by simp
      then show ?thesis
        using 1 True diff
        by (subst prefix_loop.simps) (simp add: d common_prefix_append clz_eq xor_eq_0_iff_byte lz)
    qed
  next
    case False
    then have "drop i a = [] \<or> drop i b = []" using 1 by auto
    then have "common_prefix (bits_of (drop i a)) (bits_of (drop i b)) = 0"
      by (auto simp: common_prefix_commute[of "bits_of (drop i a)"])
    then show ?thesis using 1 False by (subst prefix_loop.simps) simp
  qed
qed

text \<open>
  C34: \<^verbatim>\<open>common_prefix_bits\<close> returns the length of the longest common prefix of the
  two strings as sequences of bits, with either of the two compiled variants of
  \<^verbatim>\<open>clz\<close>: the first bits are equal, and where both strings go on the next bit differs.
\<close>

theorem common_prefix_bits_correct:
  assumes "length a < 2 ^ 60"
  shows "\<exists>n. strop_common_prefix_bits gnuc a b = Inr [LInt (int n)] \<and>
    n \<le> 8 * length a \<and> n \<le> 8 * length b \<and> take n (bits_of a) = take n (bits_of b) \<and>
    (n = 8 * min (length a) (length b) \<or> bits_of a ! n \<noteq> bits_of b ! n)"
proof (intro exI conjI)
  let ?n = "common_prefix (bits_of a) (bits_of b)" and ?m = "min (length a) (length b)"
  have n: "?n \<le> 8 * length a" "?n \<le> 8 * length b"
    using common_prefix_le[of "bits_of a" "bits_of b"] by simp_all
  have "prefix_loop gnuc a b ?m 0 = Inr ?n"
    using assms by (subst prefix_loop_eq) (auto simp: min_def)
  then show "strop_common_prefix_bits gnuc a b = Inr [LInt (int ?n)]"
    using n assms by (simp add: strop_common_prefix_bits_def to_long_range)
  show "?n = 8 * ?m \<or> bits_of a ! ?n \<noteq> bits_of b ! ?n"
    using common_prefix_maximal[of "bits_of a" "bits_of b"] n by (auto simp: min_def)
qed (use common_prefix_le[of "bits_of a" "bits_of b"] common_prefix_take_eq in auto)

theorem common_prefix_bits_correct_witness:
  "\<exists>n. strop_common_prefix_bits True [0x41, 0xF0] [0x41, 0xFF] = Inr [LInt (int n)] \<and>
    n \<le> 8 * length [0x41, 0xF0 :: byte] \<and> n \<le> 8 * length [0x41, 0xFF :: byte] \<and>
    take n (bits_of [0x41, 0xF0]) = take n (bits_of [0x41, 0xFF]) \<and>
    (n = 8 * min (length [0x41, 0xF0 :: byte]) (length [0x41, 0xFF :: byte])
      \<or> bits_of [0x41, 0xF0] ! n \<noteq> bits_of [0x41, 0xFF] ! n)"
  by (rule common_prefix_bits_correct) simp

text \<open>
  C35: For a non-empty second string the three operations work on each bit of the first
  string with the bit of the second at the same position modulo its length, and the result is
  as long as the first string.
\<close>

theorem strop_bitwise:
  assumes "b \<noteq> []"
  shows "\<exists>ra ro rx. strop_and a b = [LStr ra] \<and> strop_or a b = [LStr ro] \<and> strop_xor a b = [LStr rx] \<and>
    length ra = length a \<and> length ro = length a \<and> length rx = length a \<and>
    (\<forall>i < 8 * length a.
       (bits_of ra ! i \<longleftrightarrow> bits_of a ! i \<and> bits_of b ! (i mod (8 * length b))) \<and>
       (bits_of ro ! i \<longleftrightarrow> bits_of a ! i \<or> bits_of b ! (i mod (8 * length b))) \<and>
       (bits_of rx ! i \<longleftrightarrow> bits_of a ! i \<noteq> bits_of b ! (i mod (8 * length b))))"
proof -
  let ?r = "\<lambda>f. map (\<lambda>i. f (a ! i) (b ! (i mod length b))) [0..<length a] :: bytes"
  have bit_b: "bits_of b ! (i mod (8 * length b)) \<longleftrightarrow> bit (b ! (i div 8 mod length b)) (7 - i mod 8)" for i
  proof -
    have "i mod (8 * length b) div 8 = i div 8 mod length b" "i mod (8 * length b) mod 8 = i mod 8"
      by (simp_all add: mod_mult2_eq mod_mod_cancel)
    moreover have "i mod (8 * length b) < 8 * length b" using assms by simp
    ultimately show ?thesis by (simp add: nth_bits_of)
  qed
  have bit_r: "bits_of (?r f) ! i \<longleftrightarrow> bit (f (a ! (i div 8)) (b ! (i div 8 mod length b))) (7 - i mod 8)"
    if "i < 8 * length a" for i f
  proof -
    have "i div 8 < length a" using that by (simp add: less_mult_imp_div_less mult.commute)
    with that show ?thesis by (simp add: nth_bits_of)
  qed
  have "strop_and a b = [LStr (?r (AND))]" "strop_or a b = [LStr (?r (OR))]" "strop_xor a b = [LStr (?r (XOR))]"
    using assms by (auto simp: strop_and_def strop_or_def strop_xor_def Let_def)
  then show ?thesis
    by (rule_tac exI[of _ "?r (AND)"], rule_tac exI[of _ "?r (OR)"], rule_tac exI[of _ "?r (XOR)"])
      (simp only: bit_r bit_b length_map length_upt list.inject lua_value.inject simp_thms,
       simp add: nth_bits_of bit_and_iff bit_or_iff bit_xor_iff)
qed

theorem strop_bitwise_witness:
  "\<exists>ra ro rx. strop_and [0x61] [0x20] = [LStr ra] \<and> strop_or [0x61] [0x20] = [LStr ro] \<and>
    strop_xor [0x61] [0x20] = [LStr rx] \<and> length rx = 1"
  using strop_bitwise[of "[0x20]" "[0x61]"] by auto

text \<open>
  \<^verbatim>\<open>sxor\<close> with the same second argument undoes itself, for all strings, the empty
  ones included.
\<close>

theorem strop_xor_involution:
  "\<exists>r. strop_xor a b = [LStr r] \<and> strop_xor r b = [LStr a]"
proof -
  have "(\<lambda>i. a ! i XOR b ! (i mod length b) XOR b ! (i mod length b)) = (!) a" by (simp add: xor.assoc)
  then show ?thesis
    by (auto simp: strop_xor_def Let_def map_nth intro!: nth_equalityI simp: xor.assoc)
qed

end
