(* ===== verification/Struct_Pack.thy ===== *)
theory Struct_Pack
  imports Prelude
begin

text \<open>
  Binary packing, \<^verbatim>\<open>util-src/struct.c\<close>. A format pointer is the rest of the format
  string; the packed data, the argument list and the result stack are lists. \<^verbatim>\<open>long\<close>,
  \<^verbatim>\<open>size_t\<close> and \<^verbatim>\<open>double\<close> have 8 bytes, so \<^verbatim>\<open>MAXALIGN\<close> is 8.
\<close>

section \<open>Platform and formats\<close>

datatype endianness = BIG | LITTLE

text \<open>
  What the code takes from the machine and from Lua: the byte order, the representation of
  \<^verbatim>\<open>float\<close> and \<^verbatim>\<open>double\<close> in memory, and Lua's conversions of an argument to a
  number or a string (which accept a numeric string for a number and a number for a string), and
  by how many values the Lua stack can grow beyond what every C function may push.
\<close>

record platform =
  native_endian :: endianness
  float_repr :: "rat \<Rightarrow> bytes"
  float_value :: "bytes \<Rightarrow> lua_value"
  double_repr :: "rat \<Rightarrow> bytes"
  double_value :: "bytes \<Rightarrow> lua_value"
  tonumber :: "lua_value \<Rightarrow> rat option"
  tostring :: "lua_value \<Rightarrow> bytes option"
  extra_stack :: nat

text \<open>The number of values for which \<^verbatim>\<open>luaL_checkstack\<close> finds or makes room.\<close>

definition stack_slots :: "platform \<Rightarrow> nat" where
  "stack_slots pf = LUA_MINSTACK + extra_stack pf"

record Header =
  endian :: endianness
  align :: int

definition isdigit :: "byte \<Rightarrow> bool" where
  "isdigit c \<longleftrightarrow> 48 \<le> unat c \<and> unat c \<le> 57"

definition isalnum :: "byte \<Rightarrow> bool" where
  "isalnum c \<longleftrightarrow> isdigit c \<or> (65 \<le> unat c \<and> unat c \<le> 90) \<or> (97 \<le> unat c \<and> unat c \<le> 122)"

definition islower :: "byte \<Rightarrow> bool" where
  "islower c \<longleftrightarrow> 97 \<le> unat c \<and> unat c \<le> 122"

text \<open>The accumulator is an \<^verbatim>\<open>int\<close>; its overflow is undefined.\<close>

fun getnum_loop :: "int \<Rightarrow> bytes \<Rightarrow> (int \<times> bytes) outcome" where
  "getnum_loop a [] = Inr (a, [])"
| "getnum_loop a (c # fmt) =
     (if isdigit c
      then if a * 10 + int (unat c) \<ge> 2 ^ 31 then Inl (Undefined ''int overflow'')
           else getnum_loop (a * 10 + int (unat c) - 48) fmt
      else Inr (a, c # fmt))"

definition getnum :: "bytes \<Rightarrow> int \<Rightarrow> (int \<times> bytes) outcome" where
  "getnum fmt df = (if \<not> isdigit (cstr_at fmt 0) then Inr (df, fmt) else getnum_loop 0 fmt)"

definition defaultoptions :: "platform \<Rightarrow> Header" where
  "defaultoptions pf = \<lparr>endian = native_endian pf, align = 1\<rparr>"

abbreviation MAXINTSIZE :: int where "MAXINTSIZE \<equiv> 32"
abbreviation MAXALIGN :: int where "MAXALIGN \<equiv> 8"

definition opt_in :: "byte \<Rightarrow> string \<Rightarrow> bool" where
  "opt_in opt cs \<longleftrightarrow> opt \<in> set (ascii cs)"

definition optsize :: "byte \<Rightarrow> bytes \<Rightarrow> (nat \<times> bytes) outcome" where
  "optsize opt fmt =
     (if opt_in opt ''Bb'' then Inr (1, fmt)
      else if opt_in opt ''Hh'' then Inr (2, fmt)
      else if opt_in opt ''Ll'' then Inr (8, fmt)
      else if opt_in opt ''T'' then Inr (8, fmt)
      else if opt_in opt ''f'' then Inr (4, fmt)
      else if opt_in opt ''d'' then Inr (8, fmt)
      else if opt_in opt ''x'' then Inr (1, fmt)
      else if opt_in opt ''c'' then bind_outcome (getnum fmt 1) (\<lambda>(n, fmt'). Inr (to_usize n, fmt'))
      else if opt_in opt ''iI'' then
        bind_outcome (getnum fmt 4)
          (\<lambda>(sz, fmt'). if sz > MAXINTSIZE then Inl (LuaError ''integral size is larger than limit'')
                        else Inr (to_usize sz, fmt'))
      else Inr (0, fmt))"

definition gettoalign :: "nat \<Rightarrow> Header \<Rightarrow> byte \<Rightarrow> nat \<Rightarrow> nat" where
  "gettoalign len h opt sz =
     (if sz = 0 \<or> opt_in opt ''c'' then 0
      else let sz = (if sz > to_usize (align h) then to_usize (align h) else sz) in
           (sz - (len AND (sz - 1))) AND (sz - 1))"

definition isp2 :: "int \<Rightarrow> bool" where
  "isp2 x \<longleftrightarrow> x > 0 \<and> x AND (x - 1) = 0"

definition controloptions :: "byte \<Rightarrow> bytes \<Rightarrow> Header \<Rightarrow> (bytes \<times> Header) outcome" where
  "controloptions opt fmt h =
     (if opt_in opt '' '' then Inr (fmt, h)
      else if opt_in opt ''>'' then Inr (fmt, h\<lparr>endian := BIG\<rparr>)
      else if opt_in opt ''<'' then Inr (fmt, h\<lparr>endian := LITTLE\<rparr>)
      else if opt_in opt ''!'' then
        bind_outcome (getnum fmt MAXALIGN)
          (\<lambda>(a, fmt'). if \<not> isp2 a then Inl (LuaError ''alignment is not a power of 2'')
                       else Inr (fmt', h\<lparr>align := a\<rparr>))
      else Inl (ArgError 1 ''invalid format option''))"

section \<open>Packing\<close>

definition int_opts :: string where "int_opts = ''bBhHlLTiI''"

text \<open>
  The conversion of a number to a 64-bit integer truncates and is undefined outside the
  range of the target type.
\<close>

definition value_of_number :: "rat \<Rightarrow> 64 word outcome" where
  "value_of_number n =
     (if n < 0 then
        (if \<lceil>n\<rceil> < - (2 ^ 63) then Inl (Undefined ''conversion out of range'') else Inr (word_of_int \<lceil>n\<rceil>))
      else
        (if \<lfloor>n\<rfloor> \<ge> 2 ^ 64 then Inl (Undefined ''conversion out of range'') else Inr (word_of_int \<lfloor>n\<rfloor>)))"

text \<open>The two loops that fill \<^verbatim>\<open>buff\<close>: upwards, and downwards from the end.\<close>

fun put_little :: "nat \<Rightarrow> 64 word \<Rightarrow> bytes" where
  "put_little 0 value = []"
| "put_little (Suc n) value = ucast (value AND 0xFF) # put_little n (drop_bit 8 value)"

fun put_big :: "nat \<Rightarrow> 64 word \<Rightarrow> bytes \<Rightarrow> bytes" where
  "put_big 0 value buff = buff"
| "put_big (Suc n) value buff = put_big n (drop_bit 8 value) (ucast (value AND 0xFF) # buff)"

definition putinteger :: "rat \<Rightarrow> endianness \<Rightarrow> nat \<Rightarrow> bytes outcome" where
  "putinteger n e sz =
     bind_outcome (value_of_number n)
       (\<lambda>value. Inr (if e = LITTLE then put_little sz value else put_big sz value []))"

function swap_loop :: "bytes \<Rightarrow> nat \<Rightarrow> nat \<Rightarrow> bytes" where
  "swap_loop b i sz =
     (if i < sz - 1 then swap_loop (b[i := b ! (sz - 1), sz - 1 := b ! i]) (Suc i) (sz - 1) else b)"
  by pat_completeness auto
termination by (relation "measure (\<lambda>(b, i, sz). sz)") auto

declare swap_loop.simps [simp del]

definition correctbytes :: "platform \<Rightarrow> bytes \<Rightarrow> nat \<Rightarrow> endianness \<Rightarrow> bytes" where
  "correctbytes pf b sz e = (if e \<noteq> native_endian pf then swap_loop b 0 sz else b)"

text \<open>\<^verbatim>\<open>luaL_checknumber\<close> and \<^verbatim>\<open>luaL_checklstring\<close> on the next argument.\<close>

definition check_number :: "platform \<Rightarrow> nat \<Rightarrow> lua_value list \<Rightarrow> rat outcome" where
  "check_number pf arg args =
     (case args of [] \<Rightarrow> Inl (ArgError arg ''number expected'')
      | v # _ \<Rightarrow> (case tonumber pf v of None \<Rightarrow> Inl (ArgError arg ''number expected'') | Some n \<Rightarrow> Inr n))"

definition check_string :: "platform \<Rightarrow> nat \<Rightarrow> lua_value list \<Rightarrow> bytes outcome" where
  "check_string pf arg args =
     (case args of [] \<Rightarrow> Inl (ArgError arg ''string expected'')
      | v # _ \<Rightarrow> (case tostring pf v of None \<Rightarrow> Inl (ArgError arg ''string expected'') | Some s \<Rightarrow> Inr s))"

text \<open>
  One turn of the loop of \<^verbatim>\<open>b_pack\<close> after the alignment: the bytes added, the rest of
  the format, the header, the number of arguments used, and the final \<open>size\<close>.
\<close>

definition pack_item ::
  "platform \<Rightarrow> byte \<Rightarrow> bytes \<Rightarrow> Header \<Rightarrow> nat \<Rightarrow> nat \<Rightarrow> lua_value list
    \<Rightarrow> (bytes \<times> bytes \<times> Header \<times> nat \<times> nat) outcome" where
  "pack_item pf opt fmt h sz arg args =
     (if opt_in opt int_opts then
        bind_outcome (check_number pf arg args)
          (\<lambda>n. bind_outcome (putinteger n (endian h) sz) (\<lambda>bs. Inr (bs, fmt, h, 1, sz)))
      else if opt_in opt ''x'' then Inr ([0], fmt, h, 0, sz)
      else if opt_in opt ''f'' then
        bind_outcome (check_number pf arg args)
          (\<lambda>n. Inr (take sz (correctbytes pf (float_repr pf n) sz (endian h)), fmt, h, 1, sz))
      else if opt_in opt ''d'' then
        bind_outcome (check_number pf arg args)
          (\<lambda>n. Inr (take sz (correctbytes pf (double_repr pf n) sz (endian h)), fmt, h, 1, sz))
      else if opt_in opt ''cs'' then
        bind_outcome (check_string pf arg args)
          (\<lambda>s. let sz = (if sz = 0 then length s else sz) in
             if \<not> sz \<le> length s then Inl (ArgError (Suc arg) ''string too short'')
             else if opt_in opt ''s'' then Inr (take sz s @ [0], fmt, h, 1, Suc sz)
             else Inr (take sz s, fmt, h, 1, sz))
      else bind_outcome (controloptions opt fmt h) (\<lambda>(fmt', h'). Inr ([], fmt', h', 0, sz)))"

lemma getnum_loop_length: "getnum_loop a fmt = Inr (n, fmt') \<Longrightarrow> length fmt' \<le> length fmt"
proof (induction a fmt rule: getnum_loop.induct)
  case (2 a c fmt)
  then show ?case by (auto split: if_splits dest: le_SucI)
qed simp

lemma getnum_length: "getnum fmt df = Inr (n, fmt') \<Longrightarrow> length fmt' \<le> length fmt"
  by (auto simp: getnum_def split: if_splits dest: getnum_loop_length)

lemma optsize_length: "optsize opt fmt = Inr (sz, fmt') \<Longrightarrow> length fmt' \<le> length fmt"
  by (auto simp: optsize_def bind_outcome_Inr_iff split: if_splits dest: getnum_length)

lemma controloptions_length: "controloptions opt fmt h = Inr (fmt', h') \<Longrightarrow> length fmt' \<le> length fmt"
  by (auto simp: controloptions_def bind_outcome_Inr_iff split: if_splits dest: getnum_length)

lemma pack_item_length:
  "pack_item pf opt fmt h sz arg args = Inr (bs, fmt', h', k, sz') \<Longrightarrow> length fmt' \<le> length fmt"
  by (auto simp: pack_item_def bind_outcome_Inr_iff Let_def split: if_splits dest: controloptions_length)

function pack_loop ::
  "platform \<Rightarrow> bytes \<Rightarrow> Header \<Rightarrow> nat \<Rightarrow> nat \<Rightarrow> lua_value list \<Rightarrow> bytes \<Rightarrow> bytes outcome" where
  "pack_loop pf [] h totalsize arg args b = Inr b"
| "pack_loop pf (opt # fmt) h totalsize arg args b =
     (case optsize opt fmt of
        Inl e \<Rightarrow> Inl e
      | Inr (sz, fmt1) \<Rightarrow>
          (let toalign = gettoalign totalsize h opt sz;
               totalsize = usize_add totalsize toalign in
           case pack_item pf opt fmt1 h sz arg args of
             Inl e \<Rightarrow> Inl e
           | Inr (bs, fmt2, h2, k, size2) \<Rightarrow>
               pack_loop pf fmt2 h2 (usize_add totalsize size2) (arg + k) (drop k args)
                 (b @ replicate toalign 0 @ bs)))"
  by pat_completeness auto
termination
  by (relation "measure (\<lambda>(pf, fmt, h, t, arg, args, b). length fmt)")
    (auto dest!: optsize_length pack_item_length)

definition b_pack :: "platform \<Rightarrow> bytes \<Rightarrow> lua_value list \<Rightarrow> lua_value list outcome" where
  "b_pack pf fmt args =
     bind_outcome (pack_loop pf (c_str fmt) (defaultoptions pf) 0 2 args []) (\<lambda>d. Inr [LStr d])"

section \<open>Unpacking\<close>

text \<open>The conversion of an integer to a \<^verbatim>\<open>double\<close>: 53 significant bits, ties to even.\<close>

fun bit_length :: "nat \<Rightarrow> nat" where
  "bit_length n = (if n = 0 then 0 else Suc (bit_length (n div 2)))"

declare bit_length.simps [simp del]

definition round_53 :: "nat \<Rightarrow> nat" where
  "round_53 n =
     (let e = bit_length n - 53; q = n div 2 ^ e; r = n mod 2 ^ e in
      if 2 * r < 2 ^ e \<or> (2 * r = 2 ^ e \<and> even q) then q * 2 ^ e else (q + 1) * 2 ^ e)"

definition double_of_int :: "int \<Rightarrow> rat" where
  "double_of_int i = (if i < 0 then - of_nat (round_53 (nat (- i))) else of_nat (round_53 (nat i)))"

definition load_bytes :: "64 word \<Rightarrow> bytes \<Rightarrow> 64 word" where
  "load_bytes l bs = foldl (\<lambda>l c. push_bit 8 l OR ucast c) l bs"

text \<open>The shift that builds the mask is undefined for a size of 0 or above 8.\<close>

definition getinteger :: "bytes \<Rightarrow> endianness \<Rightarrow> bool \<Rightarrow> nat \<Rightarrow> rat outcome" where
  "getinteger buff e issigned sz =
     (let l = load_bytes 0 (if e = BIG then take sz buff else rev (take sz buff)) in
      if \<not> issigned then Inr (double_of_int (uint l))
      else if sz = 0 \<or> sz * 8 - 1 \<ge> 64 then Inl (Undefined ''shift exceeds the width'')
      else let mask = push_bit (sz * 8 - 1) (NOT 0) in
           Inr (double_of_int (sint (if l AND mask \<noteq> 0 then l OR mask else l))))"

text \<open>
  The memory at \<open>data + pos\<close>: the string and its terminating zero. An access of \<open>size\<close>
  bytes that leaves it is undefined.
\<close>

definition read_data :: "bytes \<Rightarrow> nat \<Rightarrow> nat \<Rightarrow> bytes outcome" where
  "read_data data pos sz =
     (if pos + sz \<le> length data + 1 then Inr (take sz (drop pos (data @ [0])))
      else Inl (Undefined ''read outside the data string''))"

definition size_of_number :: "rat \<Rightarrow> nat outcome" where
  "size_of_number n =
     (if \<lceil>n\<rceil> < 0 \<or> \<lfloor>n\<rfloor> \<ge> 2 ^ 64 then Inl (Undefined ''conversion out of range'') else Inr (nat \<lfloor>n\<rfloor>))"

text \<open>
  One turn of the loop of \<^verbatim>\<open>b_unpack\<close> after the check of the length: the result
  stack (the last pushed value first), the rest of the format, the header and the final
  \<open>size\<close>.
\<close>

definition unpack_item ::
  "platform \<Rightarrow> byte \<Rightarrow> bytes \<Rightarrow> Header \<Rightarrow> bytes \<Rightarrow> nat \<Rightarrow> nat \<Rightarrow> lua_value list
    \<Rightarrow> (lua_value list \<times> bytes \<times> Header \<times> nat) outcome" where
  "unpack_item pf opt fmt h data pos sz st =
     (if opt_in opt int_opts then
        bind_outcome (read_data data pos sz)
          (\<lambda>bs. bind_outcome (getinteger bs (endian h) (islower opt) sz)
             (\<lambda>res. Inr (LNum res # st, fmt, h, sz)))
      else if opt_in opt ''x'' then Inr (st, fmt, h, sz)
      else if opt_in opt ''f'' then
        bind_outcome (read_data data pos sz)
          (\<lambda>bs. Inr (float_value pf (correctbytes pf bs 4 (endian h)) # st, fmt, h, sz))
      else if opt_in opt ''d'' then
        bind_outcome (read_data data pos sz)
          (\<lambda>bs. Inr (double_value pf (correctbytes pf bs 8 (endian h)) # st, fmt, h, sz))
      else if opt_in opt ''c'' then
        (if sz = 0 then
           (case st of
              [] \<Rightarrow> Inl (LuaError ''format 'c0' needs a previous size'')
            | v # st' \<Rightarrow>
                (case tonumber pf v of
                   None \<Rightarrow> Inl (LuaError ''format 'c0' needs a previous size'')
                 | Some x \<Rightarrow>
                     bind_outcome (size_of_number x)
                       (\<lambda>sz. if \<not> sz \<le> usize_sub (length data) pos then Inl (ArgError 2 ''data string too short'')
                               else bind_outcome (read_data data pos sz)
                                      (\<lambda>bs. Inr (LStr bs # st', fmt, h, sz)))))
         else bind_outcome (read_data data pos sz) (\<lambda>bs. Inr (LStr bs # st, fmt, h, sz)))
      else if opt_in opt ''s'' then
        (if length data < pos then Inl (Undefined ''read outside the data string'')
         else case strchr (drop pos data) 0 of
                None \<Rightarrow> Inl (LuaError ''unfinished string in data'')
              | Some e \<Rightarrow> Inr (LStr (take e (drop pos data)) # st, fmt, h, Suc e))
      else bind_outcome (controloptions opt fmt h) (\<lambda>(fmt', h'). Inr (st, fmt', h', sz)))"

lemma unpack_item_length:
  "unpack_item pf opt fmt h data pos sz st = Inr (st', fmt', h', sz') \<Longrightarrow> length fmt' \<le> length fmt"
  by (auto simp: unpack_item_def bind_outcome_Inr_iff split: if_splits list.splits option.splits
      dest: controloptions_length)

function unpack_loop ::
  "platform \<Rightarrow> bytes \<Rightarrow> Header \<Rightarrow> bytes \<Rightarrow> nat \<Rightarrow> lua_value list \<Rightarrow> (lua_value list \<times> nat) outcome" where
  "unpack_loop pf [] h data pos st = Inr (st, pos)"
| "unpack_loop pf (opt # fmt) h data pos st =
     (case optsize opt fmt of
        Inl e \<Rightarrow> Inl e
      | Inr (sz, fmt1) \<Rightarrow>
          (let pos = usize_add pos (gettoalign pos h opt sz) in
           if \<not> sz \<le> usize_sub (length data) pos then Inl (ArgError 2 ''data string too short'')
           else if \<not> length st + 2 \<le> stack_slots pf then Inl (LuaError ''stack overflow (too many results)'')
           else case unpack_item pf opt fmt1 h data pos sz st of
                  Inl e \<Rightarrow> Inl e
                | Inr (st', fmt2, h2, size2) \<Rightarrow> unpack_loop pf fmt2 h2 data (usize_add pos size2) st'))"
  by pat_completeness auto
termination
  by (relation "measure (\<lambda>(pf, fmt, h, data, pos, st). length fmt)")
    (auto dest!: optsize_length unpack_item_length)

definition b_unpack :: "platform \<Rightarrow> bytes \<Rightarrow> bytes \<Rightarrow> int option \<Rightarrow> lua_value list outcome" where
  "b_unpack pf fmt data init =
     (let pos = usize_sub (to_usize (case init of None \<Rightarrow> 1 | Some i \<Rightarrow> i)) 1 in
      if \<not> pos \<le> length data then Inl (ArgError 3 ''initial position out of string'')
      else bind_outcome (unpack_loop pf (c_str fmt) (defaultoptions pf) data pos [])
             (\<lambda>(st, pos). Inr (rev st @ [LInt (to_long (int (usize_add pos 1)))])))"

section \<open>Sizes\<close>

function size_loop :: "bytes \<Rightarrow> Header \<Rightarrow> nat \<Rightarrow> nat outcome" where
  "size_loop [] h pos = Inr pos"
| "size_loop (opt # fmt) h pos =
     (case optsize opt fmt of
        Inl e \<Rightarrow> Inl e
      | Inr (sz, fmt1) \<Rightarrow>
          (let pos = usize_add pos (gettoalign pos h opt sz) in
           if opt_in opt ''s'' then Inl (ArgError 1 ''option 's' has no fixed size'')
           else if opt_in opt ''c'' \<and> sz = 0 then Inl (ArgError 1 ''option 'c0' has no fixed size'')
           else if \<not> isalnum opt then
             (case controloptions opt fmt1 h of
                Inl e \<Rightarrow> Inl e
              | Inr (fmt2, h2) \<Rightarrow> size_loop fmt2 h2 (usize_add pos sz))
           else size_loop fmt1 h (usize_add pos sz)))"
  by pat_completeness auto
termination
  by (relation "measure (\<lambda>(fmt, h, pos). length fmt)")
    (auto dest!: optsize_length controloptions_length)

definition b_size :: "platform \<Rightarrow> bytes \<Rightarrow> lua_value list outcome" where
  "b_size pf fmt =
     bind_outcome (size_loop (c_str fmt) (defaultoptions pf) 0) (\<lambda>pos. Inr [LInt (to_long (int pos))])"

section \<open>Options as bytes\<close>

lemma opt_codes:
  "opt_in opt ''Bb'' \<longleftrightarrow> opt = 66 \<or> opt = 98" "opt_in opt ''Hh'' \<longleftrightarrow> opt = 72 \<or> opt = 104"
  "opt_in opt ''Ll'' \<longleftrightarrow> opt = 76 \<or> opt = 108" "opt_in opt ''T'' \<longleftrightarrow> opt = 84"
  "opt_in opt ''f'' \<longleftrightarrow> opt = 102" "opt_in opt ''d'' \<longleftrightarrow> opt = 100" "opt_in opt ''x'' \<longleftrightarrow> opt = 120"
  "opt_in opt ''c'' \<longleftrightarrow> opt = 99" "opt_in opt ''iI'' \<longleftrightarrow> opt = 105 \<or> opt = 73"
  "opt_in opt ''s'' \<longleftrightarrow> opt = 115" "opt_in opt ''cs'' \<longleftrightarrow> opt = 99 \<or> opt = 115"
  "opt_in opt '' '' \<longleftrightarrow> opt = 32" "opt_in opt ''>'' \<longleftrightarrow> opt = 62" "opt_in opt ''<'' \<longleftrightarrow> opt = 60"
  "opt_in opt ''!'' \<longleftrightarrow> opt = 33"
  "opt_in opt int_opts \<longleftrightarrow> opt \<in> {98, 66, 104, 72, 108, 76, 84, 105, 73}"
  by (simp_all add: opt_in_def ascii_def int_opts_def)

section \<open>Out-of-bounds reads\<close>

text \<open>
  C19: \<^verbatim>\<open>unpack\<close> adds the alignment to the position before it compares the size with
  \<^verbatim>\<open>ld - pos\<close>, an unsigned difference. When the aligned position is behind the end of
  the data the difference wraps round and the check passes: with the format \<open>!bl\<close>, every
  data string of 1 to 7 bytes makes the function read 8 bytes from offset 8.
\<close>

theorem unpack_reads_out_of_bounds:
  assumes "1 \<le> length data" and "length data < 8"
  shows "b_unpack pf (ascii ''!bl'') data None = Inl (Undefined ''read outside the data string'')"
proof -
  let ?h = "defaultoptions pf" and ?h8 = "\<lparr>endian = native_endian pf, align = 8\<rparr>"
  have fmt: "c_str (ascii ''!bl'') = [33, 98, 108]" by (simp add: ascii_def c_str_def)
  have sub: "usize_sub (length data) 0 = length data" "usize_sub (length data) 8 = 2 ^ 64 - (8 - length data)"
    using assms by (simp_all add: usize_sub_le usize_sub_wrap)
  have add: "usize_add 0 0 = 0" "usize_add 0 (Suc 0) = Suc 0" "usize_add 1 7 = 8" by (simp_all add: usize_add_def)
  have room: "n \<le> 18 \<Longrightarrow> Suc (Suc n) \<le> stack_slots pf" for n by (simp add: stack_slots_def LUA_MINSTACK_def)
  have "controloptions 33 [98, 108] ?h = Inr ([98, 108], ?h8)"
    by (simp add: controloptions_def opt_codes getnum_def isdigit_def isp2_def defaultoptions_def)
  then have 1: "unpack_loop pf [33, 98, 108] ?h data 0 [] = unpack_loop pf [98, 108] ?h8 data 0 []"
    by (simp add: optsize_def unpack_item_def opt_codes gettoalign_def add room)
  obtain v where "getinteger (take 1 (data @ [0])) (native_endian pf) True 1 = Inr v"
    by (auto simp: getinteger_def Let_def)
  then have 2: "unpack_loop pf [98, 108] ?h8 data 0 [] = unpack_loop pf [108] ?h8 data 1 [LNum v]"
    using assms
    by (simp add: optsize_def unpack_item_def opt_codes gettoalign_def to_usize_def add sub read_data_def islower_def room)
  have 3: "unpack_loop pf [108] ?h8 data 1 [LNum v] = Inl (Undefined ''read outside the data string'')"
    using assms
    by (simp add: optsize_def unpack_item_def opt_codes gettoalign_def to_usize_def add[simplified] sub read_data_def room)
  have "unpack_loop pf (c_str (ascii ''!bl'')) ?h data 0 [] = Inl (Undefined ''read outside the data string'')"
    by (simp only: fmt 1 2 3)
  then show ?thesis by (simp add: b_unpack_def usize_sub_def to_usize_def)
qed

theorem unpack_reads_out_of_bounds_witness:
  "\<forall>pf. b_unpack pf (ascii ''!bl'') [1, 2, 3] None = Inl (Undefined ''read outside the data string'')"
  using unpack_reads_out_of_bounds[of "[1, 2, 3]"] by simp

text \<open>With the default alignment of 1 there is never any padding.\<close>

lemma gettoalign_1 [simp]: "align h = 1 \<Longrightarrow> gettoalign len h opt sz = 0"
  by (auto simp: gettoalign_def to_usize_def Let_def)

lemma getnum_loop_set: "getnum_loop a fmt = Inr (n, fmt') \<Longrightarrow> set fmt' \<subseteq> set fmt"
proof (induction a fmt rule: getnum_loop.induct)
  case (2 a c fmt)
  then show ?case by (auto split: if_splits)
qed simp

lemma getnum_set: "getnum fmt df = Inr (n, fmt') \<Longrightarrow> set fmt' \<subseteq> set fmt"
  by (auto simp: getnum_def split: if_splits dest: getnum_loop_set)

lemma optsize_set: "optsize opt fmt = Inr (sz, fmt') \<Longrightarrow> set fmt' \<subseteq> set fmt"
  by (auto simp: optsize_def bind_outcome_Inr_iff split: if_splits dest: getnum_set)

lemma controloptions_align:
  "controloptions opt fmt h = Inr (fmt', h') \<Longrightarrow> opt \<noteq> 33 \<Longrightarrow> fmt' = fmt \<and> align h' = align h"
  by (auto simp: controloptions_def opt_codes split: if_splits)

lemma unpack_item_align:
  "unpack_item pf opt fmt h data pos sz st = Inr (st', fmt', h', sz') \<Longrightarrow> opt \<noteq> 33 \<Longrightarrow>
    fmt' = fmt \<and> align h' = align h"
  by (auto simp: unpack_item_def bind_outcome_Inr_iff split: if_splits list.splits option.splits
      dest: controloptions_align)

lemma read_data_inside: "pos + sz \<le> length data \<Longrightarrow> read_data data pos sz = Inr (take sz (drop pos data))"
  by (simp add: read_data_def)

definition oob :: lua_error where
  "oob = Undefined ''read outside the data string''"

lemma item_other_errors:
  "getinteger bs e sg sz \<noteq> Inl oob" "size_of_number x \<noteq> Inl oob" "controloptions opt fmt h \<noteq> Inl oob"
  "optsize opt fmt \<noteq> Inl oob" "getnum fmt df \<noteq> Inl oob"
proof -
  have loop: "getnum_loop a f \<noteq> Inl oob" for a f by (induction a f rule: getnum_loop.induct) (auto simp: oob_def)
  then have num: "getnum f d \<noteq> Inl oob" for f d by (simp add: getnum_def)
  show "getnum fmt df \<noteq> Inl oob" by (rule num)
  show "getinteger bs e sg sz \<noteq> Inl oob" "size_of_number x \<noteq> Inl oob"
    by (simp_all add: getinteger_def size_of_number_def oob_def Let_def)
  show "controloptions opt fmt h \<noteq> Inl oob" "optsize opt fmt \<noteq> Inl oob"
    using num by (auto simp: controloptions_def optsize_def bind_outcome_def oob_def split: sum.splits prod.splits)
qed

lemma unpack_item_in_bounds:
  assumes "pos \<le> length data" "sz \<le> length data - pos" "length data < 2 ^ 64"
  shows "unpack_item pf opt fmt h data pos sz st \<noteq> Inl oob"
    and "unpack_item pf opt fmt h data pos sz st = Inr (st', fmt', h', sz') \<Longrightarrow> pos + sz' \<le> length data"
proof -
  have rd: "read_data data pos k = Inr (take k (drop pos data))" if "k \<le> length data - pos" for k
    using that assms by (intro read_data_inside) simp
  have sub: "usize_sub (length data) pos = length data - pos" using assms by (simp add: usize_sub_le)
  note defs = unpack_item_def rd[OF assms(2)] sub
  show "unpack_item pf opt fmt h data pos sz st \<noteq> Inl oob"
  proof
    assume "unpack_item pf opt fmt h data pos sz st = Inl oob"
    then show False
      using assms item_other_errors
      by (auto simp: defs bind_outcome_Inl_iff rd split: if_splits list.splits option.splits) (simp_all add: oob_def)
  qed
  show "unpack_item pf opt fmt h data pos sz st = Inr (st', fmt', h', sz') \<Longrightarrow> pos + sz' \<le> length data"
    using assms
    by (auto simp: defs bind_outcome_Inr_iff split: if_splits list.splits option.splits dest!: strchr_SomeD)
qed

lemma unpack_loop_in_bounds:
  assumes "33 \<notin> set fmt" "align h = 1" "pos \<le> length data" "length data < 2 ^ 64"
  shows "unpack_loop pf fmt h data pos st \<noteq> Inl oob"
  using assms
proof (induction pf fmt h data pos st rule: unpack_loop.induct)
  case (2 pf opt fmt h data pos st)
  show ?case
  proof (cases "optsize opt fmt")
    case (Inl e)
    then show ?thesis using item_other_errors(4)[of opt fmt] by simp
  next
    case (Inr r)
    then obtain sz fmt1 where o: "optsize opt fmt = Inr (sz, fmt1)" by (cases r) auto
    have pos: "usize_add pos (gettoalign pos h opt sz) = pos"
      "usize_sub (length data) pos = length data - pos"
      and p0: "usize_add pos 0 = pos"
      using "2.prems" by (simp_all add: usize_add_less usize_sub_le)
    show ?thesis
    proof (cases "sz \<le> length data - pos \<and> length st + 2 \<le> stack_slots pf")
      case True
      note inb = unpack_item_in_bounds[OF "2.prems"(3) conjunct1[OF True] "2.prems"(4)]
      show ?thesis
      proof (cases "unpack_item pf opt fmt1 h data pos sz st")
        case (Inl e)
        then show ?thesis using inb(1)[of pf opt fmt1 h st] True by (simp add: o pos)
      next
        case (Inr q)
        then obtain st' fmt2 h2 sz2 where i: "unpack_item pf opt fmt1 h data pos sz st = Inr (st', fmt2, h2, sz2)"
          by (cases q) auto
        have *: "fmt2 = fmt1" "align h2 = 1" using unpack_item_align[OF i] "2.prems" by auto
        have add: "usize_add pos sz2 = pos + sz2" "pos + sz2 \<le> length data"
          using inb(2)[OF i] "2.prems" by (simp_all add: usize_add_less)
        have "unpack_loop pf fmt2 h2 data (usize_add pos sz2) st' \<noteq> Inl oob"
          using 2 o i * add True optsize_set[OF o] by (intro "2.IH"[OF o]) (auto simp: pos p0)
        then show ?thesis using True by (simp add: o pos i)
      qed
    qed (auto simp: o pos oob_def)
  qed
qed (simp add: oob_def)

text \<open>
  C18: A format without the option \<open>!\<close> keeps the default alignment, and then \<^verbatim>\<open>unpack\<close>
  never reads outside the data string, whatever the format, the data and the start position.
\<close>

theorem unpack_in_bounds_without_alignment:
  assumes "33 \<notin> set fmt" and "length data < 2 ^ 63"
  shows "b_unpack pf fmt data init \<noteq> Inl (Undefined ''read outside the data string'')"
proof -
  have "33 \<notin> set (c_str fmt)" using assms(1) by (auto simp: c_str_def dest: set_takeWhileD)
  then have "unpack_loop pf (c_str fmt) (defaultoptions pf) data pos [] \<noteq> Inl oob" if "pos \<le> length data" for pos
    using that assms(2) by (intro unpack_loop_in_bounds) (auto simp: defaultoptions_def)
  then show ?thesis
    by (auto simp: b_unpack_def Let_def bind_outcome_def oob_def split: sum.splits prod.splits)
qed

theorem unpack_in_bounds_without_alignment_witness:
  "\<forall>pf. b_unpack pf (ascii ''bl'') [1, 2, 3] None \<noteq> Inl (Undefined ''read outside the data string'')"
  using unpack_in_bounds_without_alignment[of "ascii ''bl''" "[1, 2, 3]" _ None] by (simp add: ascii_def)

section \<open>Integers through bytes\<close>

lemma put_big_eq: "put_big n w buff = rev (put_little n w) @ buff"
  by (induction n arbitrary: w buff) auto

lemma length_put_little [simp]: "length (put_little n w) = n"
  by (induction n arbitrary: w) auto

lemma load_bytes_snoc: "load_bytes l (bs @ [c]) = push_bit 8 (load_bytes l bs) OR ucast c"
  by (simp add: load_bytes_def)

lemma load_put_little: "load_bytes 0 (rev (put_little n w)) = take_bit (8 * n) w"
proof (induction n arbitrary: w)
  case 0
  then show ?case by (simp add: load_bytes_def)
next
  case (Suc n)
  have "push_bit 8 (take_bit (8 * n) (drop_bit 8 w)) OR ucast (ucast (w AND mask 8) :: byte) =
      take_bit (8 * Suc n) w"
    by (rule bit_word_eqI) (auto simp: bit_simps)
  then show ?case by (simp add: load_bytes_snoc Suc mask_eq_exp_minus_1)
qed

lemma bit_length_le: "n < 2 ^ k \<Longrightarrow> bit_length n \<le> k"
proof (induction k arbitrary: n)
  case (Suc k)
  then have "bit_length (n div 2) \<le> k" by (intro Suc.IH) auto
  then show ?case by (subst bit_length.simps) simp
qed (simp add: bit_length.simps)

lemma double_of_int_exact: "\<bar>i\<bar> < 2 ^ 53 \<Longrightarrow> double_of_int i = of_int i"
proof -
  assume "\<bar>i\<bar> < 2 ^ 53"
  then have "nat \<bar>i\<bar> < 2 ^ 53" by simp
  from bit_length_le[OF this] have "round_53 (nat \<bar>i\<bar>) = nat \<bar>i\<bar>" by (simp add: round_53_def)
  then show ?thesis by (auto simp: double_of_int_def)
qed

text \<open>The range of a field of \<open>sz\<close> bytes.\<close>

definition int_fits :: "bool \<Rightarrow> nat \<Rightarrow> int \<Rightarrow> bool" where
  "int_fits issigned sz i \<longleftrightarrow> 1 \<le> sz \<and> sz \<le> 8 \<and> \<bar>i\<bar> < 2 ^ 53 \<and>
     (if issigned then - (2 ^ (8 * sz - 1)) \<le> i \<and> i < 2 ^ (8 * sz - 1) else 0 \<le> i \<and> i < 2 ^ (8 * sz))"

lemma int_fits_abs: "int_fits sg sz i \<Longrightarrow> \<bar>i\<bar> < 2 ^ 53"
  unfolding int_fits_def by blast

lemma value_of_number_int: "\<bar>i\<bar> < 2 ^ 53 \<Longrightarrow> value_of_number (of_int i) = Inr (word_of_int i)"
  by (auto simp: value_of_number_def)

lemma getinteger_unsigned:
  assumes "int_fits False sz i" and "length bs = sz"
    and "load_bytes 0 (if e = BIG then bs else rev bs) = take_bit (8 * sz) (word_of_int i)"
  shows "getinteger bs e False sz = Inr (of_int i)"
proof -
  have "i < 2 ^ 64" using assms(1) by (auto simp: int_fits_def)
  then have "uint (take_bit (8 * sz) (word_of_int i :: 64 word)) = i"
    using assms(1) by (simp add: int_fits_def unsigned_take_bit_eq take_bit_int_eq_self unsigned_of_int)
  moreover have "double_of_int i = of_int i" using assms(1) by (intro double_of_int_exact int_fits_abs)
  ultimately show ?thesis using assms(2,3) by (cases e) (simp_all add: getinteger_def)
qed

lemma bit_int_high: "- (2 ^ k) \<le> i \<Longrightarrow> i < 2 ^ k \<Longrightarrow> k \<le> n \<Longrightarrow> bit i n \<longleftrightarrow> i < 0" for i :: int
proof -
  assume i: "- (2 ^ k) \<le> i" "i < 2 ^ k" "k \<le> n"
  then have p: "(2 :: int) ^ k \<le> 2 ^ n" by (simp add: power_increasing)
  show ?thesis
  proof (cases "i < 0")
    case True
    then have "i div 2 ^ n = - 1"
    proof (intro int_div_pos_eq[of i "2 ^ n" "- 1" "i + 2 ^ n"])
      show "0 \<le> i + 2 ^ n" using i p by linarith
    qed (use True in simp_all)
    then show ?thesis using True by (simp add: bit_iff_odd)
  next
    case False
    then have "i div 2 ^ n = 0" using i p by (intro div_pos_pos_trivial) linarith+
    then show ?thesis using False by (simp add: bit_iff_odd)
  qed
qed

lemma getinteger_signed:
  assumes fits: "int_fits True sz i" and "length bs = sz"
    and load: "load_bytes 0 (if e = BIG then bs else rev bs) = take_bit (8 * sz) (word_of_int i)"
  shows "getinteger bs e True sz = Inr (of_int i)"
proof -
  let ?k = "8 * sz - 1" and ?w = "word_of_int i :: 64 word"
  let ?l = "take_bit (8 * sz) ?w" and ?mask = "push_bit ?k (NOT 0) :: 64 word"
  have sz: "1 \<le> sz" "sz \<le> 8" and k: "?k < 64" "8 * sz = Suc ?k" and r: "- (2 ^ ?k) \<le> i" "i < 2 ^ ?k"
    using fits by (auto simp: int_fits_def)
  have high: "bit ?w n \<longleftrightarrow> i < 0" if "?k \<le> n" "n < 64" for n
    using bit_int_high[OF r that(1)] that(2) by (simp add: bit_word_of_int_iff)
  have mask: "?l AND ?mask \<noteq> 0 \<longleftrightarrow> i < 0"
  proof
    assume "?l AND ?mask \<noteq> 0"
    then obtain n where "bit (?l AND ?mask) n" by (metis bit_0_eq bot_apply bit_eq_iff bot_bool_def)
    then show "i < 0" using high by (auto simp: bit_simps)
  next
    assume "i < 0"
    then have "bit (?l AND ?mask) ?k" using high[of ?k] k by (simp add: bit_simps)
    then show "?l AND ?mask \<noteq> 0" by auto
  qed
  have ext: "(if ?l AND ?mask \<noteq> 0 then ?l OR ?mask else ?l) = ?w"
  proof (rule bit_word_eqI)
    fix n assume "n < LENGTH(64)"
    then show "bit (if ?l AND ?mask \<noteq> 0 then ?l OR ?mask else ?l) n = bit ?w n"
      unfolding mask using high[of n] k by (cases "?k \<le> n") (auto simp: bit_simps)
  qed
  have sw: "sint ?w = i"
  proof -
    have "- (2 ^ 63) \<le> i" "i < 2 ^ 63" using fits by (auto simp: int_fits_def)
    then show ?thesis by (simp add: signed_of_int signed_take_bit_int_eq_self)
  qed
  have "double_of_int i = of_int i" using fits by (intro double_of_int_exact int_fits_abs)
  moreover have ld: "load_bytes 0 (if e = BIG then take sz bs else rev (take sz bs)) = ?l"
    using load assms(2) by (cases e) simp_all
  moreover have mul: "sz * 8 - 1 = ?k" by simp
  ultimately show ?thesis
    unfolding getinteger_def Let_def ld mul ext sw using sz k by simp
qed

lemma getinteger_putinteger:
  assumes "int_fits sg sz i" and "putinteger (of_int i) e sz = Inr bs"
  shows "length bs = sz \<and> getinteger bs e sg sz = Inr (of_int i)"
proof -
  have bs: "bs = (if e = LITTLE then put_little sz (word_of_int i) else rev (put_little sz (word_of_int i)))"
    using assms by (cases e) (simp_all add: putinteger_def value_of_number_int int_fits_def put_big_eq)
  then have "load_bytes 0 (if e = BIG then bs else rev bs) = take_bit (8 * sz) (word_of_int i)"
    by (cases e) (simp_all add: load_put_little)
  moreover have "length bs = sz" using bs by (cases e) auto
  ultimately show ?thesis using assms(1) getinteger_signed getinteger_unsigned by (cases sg) auto
qed

lemma length_swap_loop [simp]: "length (swap_loop b i sz) = length b"
  by (induction b i sz rule: swap_loop.induct) (subst swap_loop.simps, simp)

lemma swap_loop_nth:
  "sz \<le> length b \<Longrightarrow> j < length b \<Longrightarrow>
    swap_loop b i sz ! j = (if i \<le> j \<and> j < sz then b ! (i + sz - 1 - j) else b ! j)"
proof (induction b i sz rule: swap_loop.induct)
  case (1 b i sz)
  show ?case
  proof (cases "i < sz - 1")
    case True
    with 1 have "swap_loop b i sz ! j =
        (let b' = b[i := b ! (sz - 1), sz - 1 := b ! i] in
         if Suc i \<le> j \<and> j < sz - 1 then b' ! (Suc i + (sz - 1) - 1 - j) else b' ! j)"
      by (subst swap_loop.simps) (simp add: Let_def)
    moreover have "Suc i + (sz - 1) - 1 - j = i + sz - 1 - j" using True by simp
    moreover have "j < i \<or> j = i \<or> i < j \<and> j < sz - 1 \<or> j = sz - 1 \<or> sz \<le> j" using True by auto
    ultimately show ?thesis using True "1.prems"(2)
      by (elim disjE) (simp_all add: Let_def, use "1.prems" in auto)
  next
    case False
    then have "i + sz - 1 - j = j" if "i \<le> j" "j < sz" using that by auto
    then show ?thesis using False by (subst swap_loop.simps) auto
  qed
qed

lemma correctbytes_eq:
  "length b = sz \<Longrightarrow> correctbytes pf b sz e = (if e \<noteq> native_endian pf then rev b else b)"
  by (auto simp: correctbytes_def swap_loop_nth rev_nth intro!: nth_equalityI)

section \<open>Packing and unpacking are inverse\<close>

text \<open>
  Lua's conversions leave a number a number and a string a string.
\<close>

definition plain_conversions :: "platform \<Rightarrow> bool" where
  "plain_conversions pf \<longleftrightarrow> (\<forall>n. tonumber pf (LNum n) = Some n) \<and> (\<forall>s. tostring pf (LStr s) = Some s)"

text \<open>
  The arguments that survive the trip: an integer in the range of its field, a float the
  field can represent, a string of exactly the given length, a string without a zero byte.
\<close>

definition item_ok :: "platform \<Rightarrow> byte \<Rightarrow> nat \<Rightarrow> lua_value list \<Rightarrow> bool" where
  "item_ok pf opt sz args \<longleftrightarrow>
     (if opt_in opt int_opts then
        (case args of LNum n # _ \<Rightarrow> n = of_int \<lfloor>n\<rfloor> \<and> int_fits (islower opt) sz \<lfloor>n\<rfloor> | _ \<Rightarrow> False)
      else if opt_in opt ''f'' then
        (case args of LNum n # _ \<Rightarrow> length (float_repr pf n) = 4 \<and> float_value pf (float_repr pf n) = LNum n
                    | _ \<Rightarrow> False)
      else if opt_in opt ''d'' then
        (case args of LNum n # _ \<Rightarrow> length (double_repr pf n) = 8 \<and> double_value pf (double_repr pf n) = LNum n
                    | _ \<Rightarrow> False)
      else if opt_in opt ''c'' then
        (case args of LStr s # _ \<Rightarrow> 0 < sz \<and> length s = sz | _ \<Rightarrow> False)
      else if opt_in opt ''s'' then
        (case args of LStr s # _ \<Rightarrow> 0 \<notin> set s | _ \<Rightarrow> False)
      else True)"

function packable :: "platform \<Rightarrow> bytes \<Rightarrow> Header \<Rightarrow> lua_value list \<Rightarrow> bool" where
  "packable pf [] h args \<longleftrightarrow> args = []"
| "packable pf (opt # fmt) h args \<longleftrightarrow>
     (case optsize opt fmt of
        Inl e \<Rightarrow> False
      | Inr (sz, fmt1) \<Rightarrow>
          item_ok pf opt sz args \<and>
          (case pack_item pf opt fmt1 h sz 0 args of
             Inl e \<Rightarrow> False
           | Inr (bs, fmt2, h2, k, sz2) \<Rightarrow> packable pf fmt2 h2 (drop k args)))"
  by pat_completeness auto
termination
  by (relation "measure (\<lambda>(pf, fmt, h, args). length fmt)")
    (auto dest!: optsize_length pack_item_length)

lemma pack_item_arg:
  "pack_item pf opt fmt h sz arg args = Inr r \<Longrightarrow> pack_item pf opt fmt h sz arg' args = Inr r"
  by (auto simp: pack_item_def check_number_def check_string_def bind_outcome_Inr_iff Let_def
      split: if_splits list.splits option.splits)

lemma optsize_cases:
  assumes "optsize opt fmt0 = Inr (sz, fmt)"
  shows "opt_in opt ''x'' \<Longrightarrow> sz = 1" "opt_in opt ''f'' \<Longrightarrow> sz = 4" "opt_in opt ''d'' \<Longrightarrow> sz = 8"
    "opt_in opt ''s'' \<Longrightarrow> sz = 0"
    "\<not> (opt_in opt int_opts \<or> opt_in opt ''x'' \<or> opt_in opt ''f'' \<or> opt_in opt ''d'' \<or> opt_in opt ''cs'') \<Longrightarrow> sz = 0"
  using assms by (auto simp: optsize_def opt_codes)

lemma strchr_from_append_0: "0 \<notin> set s \<Longrightarrow> strchr_from i (s @ 0 # r) 0 = Some (i + length s)"
  by (induction s arbitrary: i) auto

lemma pack_unpack_item:
  assumes conv: "plain_conversions pf" and osz: "optsize opt fmt0 = Inr (sz, fmt)"
    and ok: "item_ok pf opt sz args"
    and pk: "pack_item pf opt fmt h sz arg args = Inr (bs, fmt', h', k, sz')"
  shows "length bs = sz'" "sz \<le> sz'"
    and "drop pos data = bs @ rest \<Longrightarrow> pos \<le> length data \<Longrightarrow>
      unpack_item pf opt fmt h data pos sz st = Inr (rev (take k args) @ st, fmt', h', sz')"
proof -
  have read: "read_data data pos (length bs) = Inr bs" if "drop pos data = bs @ rest" "pos \<le> length data"
  proof -
    have "length data - pos = length bs + length rest" using arg_cong[OF that(1), of length] by simp
    then have "pos + length bs \<le> length data" using that(2) by linarith
    then show ?thesis using that(1) by (simp add: read_data_inside)
  qed
  have num: "tonumber pf (LNum n) = Some n" and str: "tostring pf (LStr s) = Some s" for n s
    using conv by (auto simp: plain_conversions_def)
  consider (int) "opt_in opt int_opts" | (f) "opt_in opt ''f''" | (d) "opt_in opt ''d''" | (x) "opt_in opt ''x''"
    | (c) "opt_in opt ''c''" | (s) "opt_in opt ''s''"
    | (ctl) "\<not> (opt_in opt int_opts \<or> opt_in opt ''x'' \<or> opt_in opt ''f'' \<or> opt_in opt ''d'' \<or> opt_in opt ''cs'')"
    by (auto simp: opt_codes)
  then have "length bs = sz' \<and> sz \<le> sz' \<and> (drop pos data = bs @ rest \<longrightarrow> pos \<le> length data \<longrightarrow>
      unpack_item pf opt fmt h data pos sz st = Inr (rev (take k args) @ st, fmt', h', sz'))"
  proof cases
    case int
    then obtain n as where a: "args = LNum n # as" "n = of_int \<lfloor>n\<rfloor>" "int_fits (islower opt) sz \<lfloor>n\<rfloor>"
      using ok by (auto simp: item_ok_def split: list.splits lua_value.splits)
    then have p: "putinteger (of_int \<lfloor>n\<rfloor>) (endian h) sz = Inr bs" and *: "fmt' = fmt" "h' = h" "k = 1" "sz' = sz"
      using pk int by (auto simp: pack_item_def check_number_def num bind_outcome_Inr_iff)
    from getinteger_putinteger[OF a(3) p] have "length bs = sz" "getinteger bs (endian h) (islower opt) sz = Inr n"
      using a(2) by simp_all
    then show ?thesis using int read a(1) by (auto simp: * unpack_item_def)
  next
    case f
    then obtain n as where a: "args = LNum n # as" "length (float_repr pf n) = 4" "float_value pf (float_repr pf n) = LNum n"
      using ok by (auto simp: item_ok_def opt_codes split: list.splits lua_value.splits)
    have sz: "sz = 4" using optsize_cases(2)[OF osz f] .
    have *: "fmt' = fmt" "h' = h" "k = 1" "sz' = sz" "bs = correctbytes pf (float_repr pf n) 4 (endian h)"
      using pk f a by (auto simp: pack_item_def opt_codes check_number_def num sz correctbytes_eq)
    then show ?thesis
      using f read a sz by (auto simp: unpack_item_def opt_codes correctbytes_eq)
  next
    case d
    then obtain n as where a: "args = LNum n # as" "length (double_repr pf n) = 8" "double_value pf (double_repr pf n) = LNum n"
      using ok by (auto simp: item_ok_def opt_codes split: list.splits lua_value.splits)
    have sz: "sz = 8" using optsize_cases(3)[OF osz d] .
    have *: "fmt' = fmt" "h' = h" "k = 1" "sz' = sz" "bs = correctbytes pf (double_repr pf n) 8 (endian h)"
      using pk d a by (auto simp: pack_item_def opt_codes check_number_def num sz correctbytes_eq)
    then show ?thesis
      using d read a sz by (auto simp: unpack_item_def opt_codes correctbytes_eq)
  next
    case x
    then show ?thesis using pk optsize_cases(1)[OF osz x] by (auto simp: pack_item_def unpack_item_def opt_codes)
  next
    case c
    then obtain v as where a: "args = LStr v # as" "0 < sz" "length v = sz"
      using ok by (auto simp: item_ok_def opt_codes split: list.splits lua_value.splits)
    then have *: "fmt' = fmt" "h' = h" "k = 1" "sz' = sz" "bs = v"
      using pk c by (auto simp: pack_item_def opt_codes check_string_def str Let_def)
    then show ?thesis using c read a by (auto simp: unpack_item_def opt_codes)
  next
    case s
    then obtain v as where a: "args = LStr v # as" "0 \<notin> set v"
      using ok by (auto simp: item_ok_def opt_codes split: list.splits lua_value.splits)
    have sz: "sz = 0" using optsize_cases(4)[OF osz s] .
    then have *: "fmt' = fmt" "h' = h" "k = 1" "sz' = Suc (length v)" "bs = v @ [0]"
      using pk s a by (auto simp: pack_item_def opt_codes check_string_def str Let_def)
    have "strchr (v @ 0 # rest) 0 = Some (length v)" using a by (simp add: strchr_def strchr_from_append_0)
    then show ?thesis using s sz a by (auto simp: * unpack_item_def opt_codes)
  next
    case ctl
    then show ?thesis
      using pk optsize_cases(5)[OF osz ctl]
      by (auto simp: pack_item_def unpack_item_def opt_codes bind_outcome_Inr_iff)
  qed
  then show "length bs = sz'" "sz \<le> sz'"
    "drop pos data = bs @ rest \<Longrightarrow> pos \<le> length data \<Longrightarrow>
      unpack_item pf opt fmt h data pos sz st = Inr (rev (take k args) @ st, fmt', h', sz')"
    by blast+
qed

lemma packable_ConsE:
  assumes "packable pf (opt # fmt) h args"
  obtains sz fmt1 bs fmt2 h2 k sz2 where "optsize opt fmt = Inr (sz, fmt1)" "item_ok pf opt sz args"
    "pack_item pf opt fmt1 h sz 0 args = Inr (bs, fmt2, h2, k, sz2)" "packable pf fmt2 h2 (drop k args)"
proof -
  obtain sz fmt1 where o: "optsize opt fmt = Inr (sz, fmt1)"
    using assms by (cases "optsize opt fmt") auto
  obtain bs fmt2 h2 k sz2 where "pack_item pf opt fmt1 h sz 0 args = Inr (bs, fmt2, h2, k, sz2)"
    using assms by (cases "pack_item pf opt fmt1 h sz 0 args") (auto simp: o)
  then show thesis using assms o by (intro that) auto
qed

lemma pack_unpack_loop:
  assumes "plain_conversions pf" "packable pf fmt h args"
  shows "\<exists>out. pack_loop pf fmt h (length b mod 2 ^ 64) arg args b = Inr (b @ out) \<and>
    (length (b @ out) < 2 ^ 64 \<and> length st + length args + 2 \<le> stack_slots pf \<longrightarrow>
     unpack_loop pf fmt h (b @ out) (length b) st = Inr (rev args @ st, length (b @ out)))"
  using assms
proof (induction pf fmt h args arbitrary: b arg st rule: packable.induct)
  case (2 pf opt fmt h args)
  from "2.prems"(2) obtain sz fmt1 bs fmt2 h2 k sz2 where o: "optsize opt fmt = Inr (sz, fmt1)"
    and ok: "item_ok pf opt sz args"
    and pk0: "pack_item pf opt fmt1 h sz 0 args = Inr (bs, fmt2, h2, k, sz2)"
    and rest: "packable pf fmt2 h2 (drop k args)"
    by (rule packable_ConsE)
  have pk: "pack_item pf opt fmt1 h sz arg args = Inr (bs, fmt2, h2, k, sz2)" by (rule pack_item_arg[OF pk0])
  note item = pack_unpack_item[OF "2.prems"(1) o ok pk]
  define t where "t = gettoalign (length b mod 2 ^ 64) h opt sz"
  define b' where "b' = b @ replicate t 0 @ bs"
  have total: "usize_add (usize_add (length b mod 2 ^ 64) t) sz2 = length b' mod 2 ^ 64"
    using item(1) by (simp add: b'_def usize_add_def mod_simps add.assoc)
  obtain out where out: "pack_loop pf fmt2 h2 (length b' mod 2 ^ 64) (arg + k) (drop k args) b' = Inr (b' @ out)"
    and un: "length (b' @ out) < 2 ^ 64 \<and> length (rev (take k args) @ st) + length (drop k args) + 2 \<le> stack_slots pf \<longrightarrow>
      unpack_loop pf fmt2 h2 (b' @ out) (length b') (rev (take k args) @ st) =
        Inr (rev (drop k args) @ rev (take k args) @ st, length (b' @ out))"
    using "2.IH"[OF o refl pk0 refl refl refl refl "2.prems"(1) rest] by blast
  have "pack_loop pf (opt # fmt) h (length b mod 2 ^ 64) arg args b = Inr (b @ replicate t 0 @ bs @ out)"
  proof -
    have "pack_loop pf (opt # fmt) h (length b mod 2 ^ 64) arg args b =
        pack_loop pf fmt2 h2 (usize_add (usize_add (length b mod 2 ^ 64) t) sz2) (arg + k) (drop k args) b'"
      by (simp only: pack_loop.simps o sum.case prod.case Let_def pk t_def b'_def)
    then show ?thesis unfolding total out by (simp add: b'_def)
  qed
  moreover have "unpack_loop pf (opt # fmt) h (b' @ out) (length b) st = Inr (rev args @ st, length (b' @ out))"
    if small: "length (b' @ out) < 2 ^ 64" and room: "length st + length args + 2 \<le> stack_slots pf"
  proof -
    have lens: "length b mod 2 ^ 64 = length b" "usize_add (length b) t = length b + t"
      "usize_add (length b + t) sz2 = length b'"
      using small item(1) by (simp_all add: b'_def usize_add_less)
    have gta: "gettoalign (length b) h opt sz = t" by (simp only: t_def lens(1))
    have "sz \<le> usize_sub (length (b' @ out)) (length b + t)"
      using small item(1,2) by (simp add: b'_def usize_sub_le)
    moreover have "unpack_item pf opt fmt1 h (b' @ out) (length b + t) sz st =
        Inr (rev (take k args) @ st, fmt2, h2, sz2)"
      by (rule item(3)[of _ _ out]) (simp_all add: b'_def)
    moreover have "rev (drop k args) @ rev (take k args) = rev args" by (simp flip: rev_append)
    moreover have "length (rev (take k args) @ st) + length (drop k args) + 2 \<le> stack_slots pf" using room by simp
    ultimately show ?thesis
      using un small room by (simp add: o Let_def lens(2,3) gta flip: append_assoc)
  qed
  ultimately show ?case by (auto simp: b'_def intro!: exI[of _ "replicate t 0 @ bs @ out"])
qed simp

text \<open>
  C4: Packing and unpacking with the same format are inverse: when every argument fits its
  field, \<^verbatim>\<open>pack\<close> succeeds, and \<^verbatim>\<open>unpack\<close> of its result returns exactly the
  arguments, followed by the position after the last byte. This holds as long as the Lua stack
  has room for the arguments and the position, which it always has for up to 18 arguments. The format may mix byte orders,
  alignments, padding, integers of 1 to 8 bytes of both signs, floats, doubles, counted and
  zero-terminated strings.
\<close>

theorem pack_unpack_roundtrip:
  assumes "plain_conversions pf" and "packable pf (c_str fmt) (defaultoptions pf) args"
  shows "\<exists>d. b_pack pf fmt args = Inr [LStr d] \<and>
    (length d < 2 ^ 63 - 1 \<and> length args + 2 \<le> stack_slots pf \<longrightarrow>
     b_unpack pf fmt d None = Inr (args @ [LInt (int (length d) + 1)]))"
proof -
  obtain d where d: "pack_loop pf (c_str fmt) (defaultoptions pf) 0 2 args [] = Inr d"
    and un: "length d < 2 ^ 64 \<and> length args + 2 \<le> stack_slots pf \<longrightarrow> unpack_loop pf (c_str fmt) (defaultoptions pf) d 0 [] = Inr (rev args, length d)"
    using pack_unpack_loop[OF assms, of "[]" 2 "[]"] by auto
  have "b_unpack pf fmt d None = Inr (args @ [LInt (int (length d) + 1)])" if "length d < 2 ^ 63 - 1" "length args + 2 \<le> stack_slots pf"
  proof -
    have "usize_sub (to_usize 1) 1 = 0" by (simp add: conversion_defs)
    moreover have "to_long (int (usize_add (length d) 1)) = int (length d) + 1"
      using that by (simp add: usize_add_less to_long_range)
    ultimately show ?thesis using un that by (simp add: b_unpack_def)
  qed
  then show ?thesis using d by (simp add: b_pack_def)
qed

lemmas pack_eval = Let_def optsize_def opt_codes pack_item_def check_number_def check_string_def putinteger_def
  value_of_number_def usize_add_def defaultoptions_def controloptions_def

lemma put_big_2: "put_big 2 w buff = ucast (drop_bit 8 w AND 0xFF) # ucast (w AND 0xFF) # buff"
  by (simp add: numeral_2_eq_2)

theorem pack_unpack_roundtrip_witness:
  "\<exists>pf. b_pack pf (ascii ''>hB s'') [LNum (- 2), LNum 200, LStr [104]] = Inr [LStr [255, 254, 200, 104, 0]] \<and>
    b_unpack pf (ascii ''>hB s'') [255, 254, 200, 104, 0] None = Inr [LNum (- 2), LNum 200, LStr [104], LInt 6]"
proof -
  let ?pf = "\<lparr>native_endian = LITTLE, float_repr = (\<lambda>_. []), float_value = (\<lambda>_. LNil),
    double_repr = (\<lambda>_. []), double_value = (\<lambda>_. LNil),
    tonumber = (\<lambda>v. case v of LNum n \<Rightarrow> Some n | _ \<Rightarrow> None),
    tostring = (\<lambda>v. case v of LStr s \<Rightarrow> Some s | _ \<Rightarrow> None), extra_stack = 0\<rparr>"
  let ?args = "[LNum (- 2), LNum 200, LStr [104]]"
  have conv: "plain_conversions ?pf" by (simp add: plain_conversions_def)
  have fmt: "c_str (ascii ''>hB s'') = [62, 104, 66, 32, 115]" by (simp add: ascii_def c_str_def)
  have "packable ?pf [62, 104, 66, 32, 115] (defaultoptions ?pf) ?args"
    by (simp add: pack_eval item_ok_def int_fits_def islower_def)
  then have ok: "packable ?pf (c_str (ascii ''>hB s'')) (defaultoptions ?pf) ?args" by (simp only: fmt)
  have pk: "b_pack ?pf (ascii ''>hB s'') ?args = Inr [LStr [255, 254, 200, 104, 0]]"
    by (simp add: b_pack_def fmt pack_eval put_big_2)
  have un: "b_unpack ?pf (ascii ''>hB s'') [255, 254, 200, 104, 0] None =
      Inr [LNum (- 2), LNum 200, LStr [104], LInt 6]"
    using pack_unpack_roundtrip[OF conv ok] unfolding pk by (simp add: stack_slots_def LUA_MINSTACK_def del: b_unpack_def)
  show ?thesis by (rule exI[of _ ?pf]) (intro conjI pk un)
qed

section \<open>The size of a format\<close>

definition repr_sizes :: "platform \<Rightarrow> bool" where
  "repr_sizes pf \<longleftrightarrow> (\<forall>n. length (float_repr pf n) = 4) \<and> (\<forall>n. length (double_repr pf n) = 8)"

lemma length_putinteger: "putinteger n e sz = Inr bs \<Longrightarrow> length bs = sz"
  by (auto simp: putinteger_def bind_outcome_Inr_iff put_big_eq)

lemma isalnum_codes: "opt \<in> {98, 66, 104, 72, 108, 76, 84, 105, 73, 120, 102, 100, 99} \<Longrightarrow> isalnum opt"
  by (auto simp: isalnum_def isdigit_def)

lemma controloptions_not_alnum: "controloptions opt fmt h = Inr r \<Longrightarrow> \<not> isalnum opt"
  by (auto simp: controloptions_def opt_codes isalnum_def isdigit_def split: if_splits)

lemma pack_item_size:
  assumes "repr_sizes pf" and osz: "optsize opt fmt0 = Inr (sz, fmt)"
    and fixed: "\<not> opt_in opt ''s''" "\<not> (opt_in opt ''c'' \<and> sz = 0)"
    and pk: "pack_item pf opt fmt h sz arg args = Inr (bs, fmt', h', k, sz')"
  shows "length bs = sz \<and> sz' = sz \<and>
    (if isalnum opt then fmt' = fmt \<and> h' = h else controloptions opt fmt h = Inr (fmt', h'))"
proof -
  consider (int) "opt_in opt int_opts" | (f) "opt_in opt ''f''" | (d) "opt_in opt ''d''" | (x) "opt_in opt ''x''"
    | (c) "opt_in opt ''c''"
    | (ctl) "\<not> (opt_in opt int_opts \<or> opt_in opt ''x'' \<or> opt_in opt ''f'' \<or> opt_in opt ''d'' \<or> opt_in opt ''cs'')"
    using fixed(1) by (auto simp: opt_codes)
  then show ?thesis
  proof cases
    case int
    then have "isalnum opt" by (intro isalnum_codes) (auto simp: opt_codes)
    with int show ?thesis using pk by (auto simp: pack_item_def bind_outcome_Inr_iff length_putinteger)
  next
    case f
    then have "isalnum opt" by (intro isalnum_codes) (auto simp: opt_codes)
    with f show ?thesis
      using pk assms(1) optsize_cases(2)[OF osz f]
      by (auto simp: pack_item_def opt_codes bind_outcome_Inr_iff repr_sizes_def correctbytes_def)
  next
    case d
    then have "isalnum opt" by (intro isalnum_codes) (auto simp: opt_codes)
    with d show ?thesis
      using pk assms(1) optsize_cases(3)[OF osz d]
      by (auto simp: pack_item_def opt_codes bind_outcome_Inr_iff repr_sizes_def correctbytes_def)
  next
    case x
    then have "isalnum opt" by (intro isalnum_codes) (auto simp: opt_codes)
    with x show ?thesis using pk optsize_cases(1)[OF osz x] by (auto simp: pack_item_def opt_codes)
  next
    case c
    then have "isalnum opt" by (intro isalnum_codes) (auto simp: opt_codes)
    with c show ?thesis
      using pk fixed by (auto simp: pack_item_def opt_codes bind_outcome_Inr_iff Let_def split: if_splits)
  next
    case ctl
    then show ?thesis
      using pk optsize_cases(5)[OF osz ctl]
      by (auto simp: pack_item_def opt_codes bind_outcome_Inr_iff dest: controloptions_not_alnum)
  qed
qed

lemma size_loop_pack_loop:
  assumes "repr_sizes pf" "size_loop fmt h (length b mod 2 ^ 64) = Inr n"
    "pack_loop pf fmt h (length b mod 2 ^ 64) arg args b = Inr d"
  shows "n = length d mod 2 ^ 64"
  using assms
proof (induction fmt arbitrary: h b arg args rule: length_induct)
  case (1 fmt)
  show ?case
  proof (cases fmt)
    case Nil
    then show ?thesis using "1.prems" by simp
  next
    case (Cons opt fmt0)
    from "1.prems"(2) obtain sz fmt1 where o: "optsize opt fmt0 = Inr (sz, fmt1)"
      by (cases "optsize opt fmt0") (auto simp: Cons)
    define t where "t = gettoalign (length b mod 2 ^ 64) h opt sz"
    from "1.prems"(3) obtain bs fmt2 h2 k sz2 where pk: "pack_item pf opt fmt1 h sz arg args = Inr (bs, fmt2, h2, k, sz2)"
      by (cases "pack_item pf opt fmt1 h sz arg args") (auto simp: Cons o Let_def)
    have fixed: "\<not> opt_in opt ''s''" "\<not> (opt_in opt ''c'' \<and> sz = 0)"
      using "1.prems"(2) by (auto simp: Cons o Let_def split: if_splits)
    note item = pack_item_size[OF "1.prems"(1) o fixed pk]
    let ?b = "b @ replicate t 0 @ bs"
    have total: "usize_add (usize_add (length b mod 2 ^ 64) t) sz = length ?b mod 2 ^ 64"
      using item by (simp add: usize_add_def mod_simps add.assoc)
    have "size_loop (opt # fmt0) h (length b mod 2 ^ 64) =
        size_loop fmt2 h2 (usize_add (usize_add (length b mod 2 ^ 64) t) sz)"
      unfolding t_def using item fixed by (auto simp: o Let_def split: if_splits)
    moreover have "pack_loop pf (opt # fmt0) h (length b mod 2 ^ 64) arg args b =
        pack_loop pf fmt2 h2 (usize_add (usize_add (length b mod 2 ^ 64) t) sz) (arg + k) (drop k args) ?b"
      unfolding t_def using item by (auto simp: o Let_def pk)
    moreover have "length fmt2 < length fmt"
      using optsize_length[OF o] pack_item_length[OF pk] by (simp add: Cons)
    ultimately show ?thesis using 1 Cons unfolding total by metis
  qed
qed

text \<open>
  C20: \<^verbatim>\<open>size\<close> returns the length of what \<^verbatim>\<open>pack\<close> produces with the same format,
  whatever the arguments, alignment and padding included.
\<close>

theorem size_is_length_of_pack:
  assumes "repr_sizes pf" and "b_size pf fmt = Inr [LInt n]"
    and "b_pack pf fmt args = Inr [LStr d]" and "length d < 2 ^ 63"
  shows "n = int (length d)"
proof -
  obtain m where m: "size_loop (c_str fmt) (defaultoptions pf) 0 = Inr m" "n = to_long (int m)"
    using assms(2) by (auto simp: b_size_def bind_outcome_Inr_iff)
  have "pack_loop pf (c_str fmt) (defaultoptions pf) 0 2 args [] = Inr d"
    using assms(3) by (auto simp: b_pack_def bind_outcome_Inr_iff)
  then have "m = length d"
    using size_loop_pack_loop[OF assms(1), of _ _ "[]" m 2 args d] m(1) assms(4) by simp
  then show ?thesis using m(2) assms(4) by (simp add: to_long_range)
qed

theorem size_is_length_of_pack_witness:
  "\<exists>pf d. b_size pf (ascii ''bxB'') = Inr [LInt 3] \<and>
    b_pack pf (ascii ''bxB'') [LNum 1, LNum 2] = Inr [LStr d] \<and> 3 = int (length d)"
proof -
  let ?pf = "\<lparr>native_endian = LITTLE, float_repr = (\<lambda>_. replicate 4 0), float_value = (\<lambda>_. LNil),
    double_repr = (\<lambda>_. replicate 8 0), double_value = (\<lambda>_. LNil),
    tonumber = (\<lambda>v. case v of LNum n \<Rightarrow> Some n | _ \<Rightarrow> None),
    tostring = (\<lambda>v. case v of LStr s \<Rightarrow> Some s | _ \<Rightarrow> None), extra_stack = 0\<rparr>"
  have fmt: "c_str (ascii ''bxB'') = [98, 120, 66]" by (simp add: ascii_def c_str_def)
  have sz: "b_size ?pf (ascii ''bxB'') = Inr [LInt 3]"
    by (simp add: b_size_def fmt optsize_def opt_codes isalnum_def conversion_defs defaultoptions_def)
  have pk: "b_pack ?pf (ascii ''bxB'') [LNum 1, LNum 2] = Inr [LStr [1, 0, 2]]"
    by (simp add: b_pack_def fmt pack_eval)
  have "repr_sizes ?pf" by (simp add: repr_sizes_def)
  from size_is_length_of_pack[OF this sz pk] have len: "3 = int (length [1, 0, 2 :: byte])" by simp
  show ?thesis
    by (rule exI[of _ ?pf], rule exI[of _ "[1, 0, 2]"]) (intro conjI sz pk len)
qed

end
