(* ===== verification/Lua_Table.thy ===== *)
theory Lua_Table
  imports Prelude
begin

text \<open>
  Table helpers, \<^verbatim>\<open>util-src/table.c\<close>, on an explicit heap of tables: a table value is an
  address, so the source and the destination of \<^verbatim>\<open>move\<close> may be the same table.
\<close>

section \<open>The heap\<close>

text \<open>A table maps integer keys and string keys to values; an absent key has the value nil.\<close>

record ltable =
  int_part :: "int \<Rightarrow> lua_value"
  str_part :: "bytes \<Rightarrow> lua_value"

record lua_heap =
  tables :: "nat \<Rightarrow> ltable"
  next_addr :: nat

definition empty_table :: ltable where
  "empty_table = \<lparr>int_part = (\<lambda>_. LNil), str_part = (\<lambda>_. LNil)\<rparr>"

definition lua_createtable :: "lua_heap \<Rightarrow> lua_heap \<times> nat" where
  "lua_createtable h =
     (h\<lparr>tables := (tables h)(next_addr h := empty_table), next_addr := Suc (next_addr h)\<rparr>, next_addr h)"

definition lua_rawgeti :: "lua_heap \<Rightarrow> nat \<Rightarrow> int \<Rightarrow> lua_value" where
  "lua_rawgeti h a k = int_part (tables h a) k"

definition lua_rawseti :: "lua_heap \<Rightarrow> nat \<Rightarrow> int \<Rightarrow> lua_value \<Rightarrow> lua_heap" where
  "lua_rawseti h a k v =
     h\<lparr>tables := (tables h)(a := (tables h a)\<lparr>int_part := (int_part (tables h a))(k := v)\<rparr>)\<rparr>"

definition lua_setfield :: "lua_heap \<Rightarrow> nat \<Rightarrow> bytes \<Rightarrow> lua_value \<Rightarrow> lua_heap" where
  "lua_setfield h a k v =
     h\<lparr>tables := (tables h)(a := (tables h a)\<lparr>str_part := (str_part (tables h a))(k := v)\<rparr>)\<rparr>"

definition lua_MAXINTEGER :: int where "lua_MAXINTEGER = 2 ^ 63 - 1"

definition is_lua_integer :: "int \<Rightarrow> bool" where
  "is_lua_integer i \<longleftrightarrow> - (2 ^ 63) \<le> i \<and> i \<le> lua_MAXINTEGER"

section \<open>The operations\<close>

text \<open>The two numbers are size hints and have no influence on the table.\<close>

definition Lcreate_table :: "lua_heap \<Rightarrow> int \<Rightarrow> int \<Rightarrow> lua_heap \<times> lua_value list" where
  "Lcreate_table h narr nrec = (case lua_createtable h of (h', a) \<Rightarrow> (h', [LTable a]))"

text \<open>The loop pops the arguments from the top of the stack, the last one first.\<close>

fun pack_stack :: "lua_heap \<Rightarrow> nat \<Rightarrow> lua_value list \<Rightarrow> int \<Rightarrow> lua_heap" where
  "pack_stack h a [] arg = h"
| "pack_stack h a (v # st) arg = pack_stack (lua_rawseti h a arg v) a st (arg - 1)"

definition Lpack :: "lua_heap \<Rightarrow> lua_value list \<Rightarrow> lua_heap \<times> lua_value list" where
  "Lpack h args =
     (let n_args = length args in
      case lua_createtable h of (h1, a) \<Rightarrow>
        (let h2 = pack_stack h1 a (rev args) (int n_args);
             h3 = lua_setfield h2 a (ascii ''n'') (LInt (int n_args)) in
         (h3, [LTable a])))"

text \<open>The two loops of \<^verbatim>\<open>Lmove\<close>; an index that leaves the range of \<^verbatim>\<open>lua_Integer\<close> is undefined.\<close>

function move_up :: "lua_heap \<Rightarrow> nat \<Rightarrow> nat \<Rightarrow> int \<Rightarrow> int \<Rightarrow> int \<Rightarrow> int \<Rightarrow> lua_heap outcome" where
  "move_up h src dst f t n i =
     (if i < n then
        if \<not> is_lua_integer (f + i) \<or> \<not> is_lua_integer (t + i) then Inl (Undefined ''integer overflow'')
        else move_up (lua_rawseti h dst (t + i) (lua_rawgeti h src (f + i))) src dst f t n (i + 1)
      else Inr h)"
  by pat_completeness auto
termination by (relation "measure (\<lambda>(h, src, dst, f, t, n, i). nat (n - i))") auto

function move_down :: "lua_heap \<Rightarrow> nat \<Rightarrow> nat \<Rightarrow> int \<Rightarrow> int \<Rightarrow> int \<Rightarrow> lua_heap outcome" where
  "move_down h src dst f t i =
     (if i \<ge> 0 then
        if \<not> is_lua_integer (f + i) \<or> \<not> is_lua_integer (t + i) then Inl (Undefined ''integer overflow'')
        else move_down (lua_rawseti h dst (t + i) (lua_rawgeti h src (f + i))) src dst f t (i - 1)
      else Inr h)"
  by pat_completeness auto
termination by (relation "measure (\<lambda>(h, src, dst, f, t, i). nat (i + 1))") auto

declare move_up.simps [simp del] move_down.simps [simp del]

text \<open>
  \<open>eq\<close> is \<^verbatim>\<open>lua_compare\<close> for equality, which may call a metamethod. \<open>tbl\<close> and \<open>tgt\<close>
  are the arguments 1 and 5.
\<close>

definition Lmove ::
  "(nat \<Rightarrow> nat \<Rightarrow> bool) \<Rightarrow> lua_heap \<Rightarrow> lua_value \<Rightarrow> int \<Rightarrow> int \<Rightarrow> int \<Rightarrow> lua_value
    \<Rightarrow> (lua_heap \<times> lua_value list) outcome" where
  "Lmove eq h tbl f e t tgt =
     (let tt = (if tgt \<noteq> LNil then 5 else 1 :: nat) in
      case tbl of
        LTable src \<Rightarrow>
          (case (if tt = 5 then tgt else tbl) of
             LTable dst \<Rightarrow>
               (if e \<ge> f then
                  if \<not> (f > 0 \<or> e < lua_MAXINTEGER + f) then Inl (ArgError 3 ''too many elements to move'')
                  else let n = e - f + 1 in
                    if \<not> is_lua_integer n then Inl (Undefined ''integer overflow'')
                    else if \<not> t \<le> lua_MAXINTEGER - n + 1 then Inl (ArgError 4 ''destination wrap around'')
                    else if t > e \<or> t \<le> f \<or> (tt \<noteq> 1 \<and> \<not> eq src dst)
                      then bind_outcome (move_up h src dst f t n 0) (\<lambda>h'. Inr (h', [LTable dst]))
                      else bind_outcome (move_down h src dst f t (n - 1)) (\<lambda>h'. Inr (h', [LTable dst]))
                else Inr (h, [LTable dst]))
           | _ \<Rightarrow> Inl (ArgError tt ''table expected''))
      | _ \<Rightarrow> Inl (ArgError 1 ''table expected''))"

section \<open>What the loops do\<close>

text \<open>The heap in which the elements \<open>j\<close> with \<open>P j\<close> have been copied from the heap \<open>h\<close>.\<close>

definition copied :: "lua_heap \<Rightarrow> nat \<Rightarrow> nat \<Rightarrow> int \<Rightarrow> int \<Rightarrow> (int \<Rightarrow> bool) \<Rightarrow> lua_heap" where
  "copied h src dst f t P =
     h\<lparr>tables := (tables h)(dst := (tables h dst)\<lparr>int_part :=
        (\<lambda>k. if P (k - t) then lua_rawgeti h src (f + (k - t)) else lua_rawgeti h dst k)\<rparr>)\<rparr>"

lemma copied_none: "(\<And>j. \<not> P j) \<Longrightarrow> copied h src dst f t P = h"
  by (simp add: copied_def lua_rawgeti_def)

lemma rawgeti_copied:
  "src \<noteq> dst \<or> \<not> P (f + i - t) \<Longrightarrow> lua_rawgeti (copied h src dst f t P) src (f + i) = lua_rawgeti h src (f + i)"
  by (auto simp: copied_def lua_rawgeti_def)

lemma rawseti_copied:
  "lua_rawseti (copied h src dst f t P) dst (t + i) (lua_rawgeti h src (f + i)) =
    copied h src dst f t (\<lambda>j. j = i \<or> P j)"
  by (auto simp: copied_def lua_rawseti_def lua_rawgeti_def fun_eq_iff)

lemma move_up_copied:
  assumes "0 \<le> i" "i \<le> n" and bounds: "\<And>j. 0 \<le> j \<Longrightarrow> j < n \<Longrightarrow> is_lua_integer (f + j) \<and> is_lua_integer (t + j)"
    and no_overlap: "src \<noteq> dst \<or> t > f + n - 1 \<or> t \<le> f"
  shows "move_up (copied h src dst f t (\<lambda>j. 0 \<le> j \<and> j < i)) src dst f t n i =
    Inr (copied h src dst f t (\<lambda>j. 0 \<le> j \<and> j < n))"
  using assms(1,2)
proof (induction "nat (n - i)" arbitrary: i)
  case 0
  then show ?case by (subst move_up.simps) simp
next
  case (Suc m)
  let ?P = "\<lambda>j. 0 \<le> j \<and> j < i"
  have i: "0 \<le> i" "i < n" using Suc by auto
  have "src \<noteq> dst \<or> \<not> ?P (f + i - t)" using no_overlap i by auto
  then have get: "lua_rawgeti (copied h src dst f t ?P) src (f + i) = lua_rawgeti h src (f + i)"
    by (rule rawgeti_copied)
  have "(\<lambda>j. j = i \<or> ?P j) = (\<lambda>j. 0 \<le> j \<and> j < i + 1)" using i by auto
  then have set: "lua_rawseti (copied h src dst f t ?P) dst (t + i) (lua_rawgeti h src (f + i)) =
      copied h src dst f t (\<lambda>j. 0 \<le> j \<and> j < i + 1)"
    by (simp only: rawseti_copied)
  have "move_up (copied h src dst f t (\<lambda>j. 0 \<le> j \<and> j < i + 1)) src dst f t n (i + 1) =
      Inr (copied h src dst f t (\<lambda>j. 0 \<le> j \<and> j < n))"
    using Suc i by (intro Suc.hyps(1)) auto
  then show ?case using i bounds[OF i] by (subst move_up.simps) (simp add: get set)
qed

lemma move_down_copied:
  assumes "- 1 \<le> i" "i < n" and bounds: "\<And>j. 0 \<le> j \<Longrightarrow> j < n \<Longrightarrow> is_lua_integer (f + j) \<and> is_lua_integer (t + j)"
    and "f \<le> t"
  shows "move_down (copied h src dst f t (\<lambda>j. i < j \<and> j < n)) src dst f t i =
    Inr (copied h src dst f t (\<lambda>j. - 1 < j \<and> j < n))"
  using assms(1,2)
proof (induction "nat (i + 1)" arbitrary: i)
  case 0
  then have "i = - 1" by auto
  then show ?case by (subst move_down.simps) simp
next
  case (Suc m)
  let ?P = "\<lambda>j. i < j \<and> j < n"
  have i: "0 \<le> i" "i < n" using Suc by auto
  have "src \<noteq> dst \<or> \<not> ?P (f + i - t)" using assms(4) by auto
  then have get: "lua_rawgeti (copied h src dst f t ?P) src (f + i) = lua_rawgeti h src (f + i)"
    by (rule rawgeti_copied)
  have "(\<lambda>j. j = i \<or> ?P j) = (\<lambda>j. i - 1 < j \<and> j < n)" using i by auto
  then have set: "lua_rawseti (copied h src dst f t ?P) dst (t + i) (lua_rawgeti h src (f + i)) =
      copied h src dst f t (\<lambda>j. i - 1 < j \<and> j < n)"
    by (simp only: rawseti_copied)
  have "move_down (copied h src dst f t (\<lambda>j. i - 1 < j \<and> j < n)) src dst f t (i - 1) =
      Inr (copied h src dst f t (\<lambda>j. - 1 < j \<and> j < n))"
    using Suc i by (intro Suc.hyps(1)) auto
  then show ?case using i bounds[OF i] by (subst move_down.simps) (simp add: get set)
qed

section \<open>Properties\<close>

text \<open>
  C17: \<^verbatim>\<open>table.move(a, f, e, t, b)\<close> copies the values that \<open>a\<close> held before the call, as
  if all at once: also for overlapping ranges of one table, and whatever a metamethod answers
  when two different tables are compared. No other entry of the heap changes, and no index
  computation overflows; the two argument errors come exactly when the number of elements or
  the last destination index does not fit.
\<close>

theorem Lmove_copies:
  assumes "is_lua_integer f" "is_lua_integer e" "is_lua_integer t" and "\<And>a. eq a a"
    and dst: "tgt = LNil \<and> dst = src \<or> tgt = LTable dst"
  shows "Lmove eq h (LTable src) f e t tgt =
    (if e < f then Inr (h, [LTable dst])
     else if e - f + 1 > lua_MAXINTEGER then Inl (ArgError 3 ''too many elements to move'')
     else if t + (e - f) > lua_MAXINTEGER then Inl (ArgError 4 ''destination wrap around'')
     else Inr (h\<lparr>tables := (tables h)(dst := (tables h dst)\<lparr>int_part :=
                 (\<lambda>k. if t \<le> k \<and> k \<le> t + (e - f) then int_part (tables h src) (f + (k - t))
                      else int_part (tables h dst) k)\<rparr>)\<rparr>, [LTable dst]))"
proof -
  let ?n = "e - f + 1"
  let ?all = "copied h src dst f t (\<lambda>j. 0 \<le> j \<and> j < ?n)"
  have all: "?all = h\<lparr>tables := (tables h)(dst := (tables h dst)\<lparr>int_part :=
      (\<lambda>k. if t \<le> k \<and> k \<le> t + (e - f) then int_part (tables h src) (f + (k - t))
           else int_part (tables h dst) k)\<rparr>)\<rparr>"
    unfolding copied_def lua_rawgeti_def by (rule arg_cong[of _ _ "\<lambda>x. h\<lparr>tables := (tables h)(dst := (tables h dst)\<lparr>int_part := x\<rparr>)\<rparr>"]) auto
  have none: "copied h src dst f t (\<lambda>j. 0 \<le> j \<and> j < 0) = h"
    "copied h src dst f t (\<lambda>j. ?n - 1 < j \<and> j < ?n) = h"
    by (auto intro!: copied_none)
  have ints: "is_lua_integer (f + j) \<and> is_lua_integer (t + j)"
    if "t + (e - f) \<le> lua_MAXINTEGER" "0 \<le> j" "j < ?n" for j
    using that assms(1-3) by (simp add: is_lua_integer_def)
  have up: "move_up h src dst f t ?n 0 = Inr ?all"
    if "f \<le> e" "t + (e - f) \<le> lua_MAXINTEGER" "src \<noteq> dst \<or> t > e \<or> t \<le> f"
    using that ints move_up_copied[of 0 ?n f t src dst h] by (simp add: none(1))
  have "(\<lambda>j. - 1 < j \<and> j < ?n) = (\<lambda>j. 0 \<le> j \<and> j < ?n)" by auto
  then have down: "move_down h src dst f t (?n - 1) = Inr ?all"
    if "f \<le> e" "t + (e - f) \<le> lua_MAXINTEGER" "f < t"
    using that ints move_down_copied[of "?n - 1" ?n f t h src dst] by (simp only: none(2))
  define tt where "tt = (if tgt \<noteq> LNil then 5 else 1 :: nat)"
  have d: "(if tt = 5 then tgt else LTable src) = LTable dst" "tt = 1 \<Longrightarrow> src = dst" "tt = 1 \<or> tt = 5"
    using dst by (auto simp: tt_def)
  have eval: "Lmove eq h (LTable src) f e t tgt =
      (if e \<ge> f then
         if \<not> (f > 0 \<or> e < lua_MAXINTEGER + f) then Inl (ArgError 3 ''too many elements to move'')
         else if \<not> is_lua_integer ?n then Inl (Undefined ''integer overflow'')
         else if \<not> t \<le> lua_MAXINTEGER - ?n + 1 then Inl (ArgError 4 ''destination wrap around'')
         else if t > e \<or> t \<le> f \<or> (tt \<noteq> 1 \<and> \<not> eq src dst)
           then bind_outcome (move_up h src dst f t ?n 0) (\<lambda>h'. Inr (h', [LTable dst]))
           else bind_outcome (move_down h src dst f t (?n - 1)) (\<lambda>h'. Inr (h', [LTable dst]))
       else Inr (h, [LTable dst]))"
    unfolding Lmove_def Let_def tt_def[symmetric] by (simp only: d(1) lua_value.case)
  have branch: "src \<noteq> dst \<or> t > e \<or> t \<le> f" if "t > e \<or> t \<le> f \<or> (tt \<noteq> 1 \<and> \<not> eq src dst)"
    using that assms(4) by auto
  show ?thesis
  proof (cases "f \<le> e \<and> ?n \<le> lua_MAXINTEGER \<and> t + (e - f) \<le> lua_MAXINTEGER")
    case True
    then have "f > 0 \<or> e < lua_MAXINTEGER + f" "is_lua_integer ?n" "t \<le> lua_MAXINTEGER - ?n + 1"
      by (auto simp: is_lua_integer_def)
    then show ?thesis
      unfolding eval all[symmetric] using True up[OF _ _ branch] down by auto
  next
    case False
    then show ?thesis
      using assms(1-3) by (auto simp: eval is_lua_integer_def lua_MAXINTEGER_def)
  qed
qed

theorem Lmove_copies_witness:
  "\<exists>h'. Lmove (=) \<lparr>tables = (\<lambda>_. \<lparr>int_part = LInt, str_part = (\<lambda>_. LNil)\<rparr>), next_addr = 1\<rparr>
      (LTable 0) 1 3 2 LNil = Inr (h', [LTable 0]) \<and>
    int_part (tables h' 0) 1 = LInt 1 \<and> int_part (tables h' 0) 2 = LInt 1 \<and>
    int_part (tables h' 0) 3 = LInt 2 \<and> int_part (tables h' 0) 4 = LInt 3"
  using Lmove_copies[of 1 3 2 "(=)" LNil 0 0
      "\<lparr>tables = (\<lambda>_. \<lparr>int_part = LInt, str_part = (\<lambda>_. LNil)\<rparr>), next_addr = 1\<rparr>"]
  by (simp add: is_lua_integer_def lua_MAXINTEGER_def)

definition with_ints :: "lua_heap \<Rightarrow> nat \<Rightarrow> (int \<Rightarrow> lua_value) \<Rightarrow> lua_heap" where
  "with_ints h a g = h\<lparr>tables := (tables h)(a := (tables h a)\<lparr>int_part := g\<rparr>)\<rparr>"

lemma with_ints_simps [simp]:
  "int_part (tables (with_ints h a g) a) = g" "with_ints (with_ints h a g) a g' = with_ints h a g'"
  "with_ints h a (int_part (tables h a)) = h"
  by (simp_all add: with_ints_def)

lemma rawseti_with_ints: "lua_rawseti h a k v = with_ints h a ((int_part (tables h a))(k := v))"
  by (simp add: with_ints_def lua_rawseti_def)

lemma pack_stack_eq:
  "pack_stack h a st arg = with_ints h a
    (\<lambda>k. if arg - int (length st) < k \<and> k \<le> arg then st ! nat (arg - k) else int_part (tables h a) k)"
proof (induction st arbitrary: h arg)
  case Nil
  have "(\<lambda>k. if arg < k \<and> k \<le> arg then [] ! nat (arg - k) else int_part (tables h a) k) = int_part (tables h a)"
    by (rule ext) auto
  then show ?case by simp
next
  case (Cons v st)
  have "st ! nat (arg - 1 - k) = (v # st) ! nat (arg - k)" if "k \<le> arg - 1" for k
  proof -
    have "nat (arg - k) = Suc (nat (arg - 1 - k))" using that by simp
    then show ?thesis by simp
  qed
  then show ?case
    unfolding pack_stack.simps Cons.IH rawseti_with_ints with_ints_simps
    by (intro arg_cong[of _ _ "with_ints h a"] ext) auto
qed

text \<open>
  \<^verbatim>\<open>table.pack(...)\<close> returns a new table that holds the arguments at the indices
  \<open>1 \<dots> n\<close> in their order, with the field \<open>n\<close> set to their number, nil arguments at the end
  included, and leaves every other table alone.
\<close>

theorem Lpack_correct:
  "\<exists>h' a. Lpack h args = (h', [LTable a]) \<and> a = next_addr h \<and> next_addr h' = Suc a \<and>
    (\<forall>b. b \<noteq> a \<longrightarrow> tables h' b = tables h b) \<and>
    (\<forall>i < length args. lua_rawgeti h' a (int i + 1) = args ! i) \<and>
    (\<forall>k. k < 1 \<or> k > int (length args) \<longrightarrow> lua_rawgeti h' a k = LNil) \<and>
    str_part (tables h' a) = (\<lambda>_. LNil)(ascii ''n'' := LInt (int (length args)))"
proof -
  let ?a = "next_addr h"
  let ?h1 = "fst (lua_createtable h)"
  let ?h' = "lua_setfield (pack_stack ?h1 ?a (rev args) (int (length args))) ?a (ascii ''n'')
    (LInt (int (length args)))"
  have "Lpack h args = (?h', [LTable ?a])"
    by (simp add: Lpack_def lua_createtable_def Let_def)
  moreover have "rev args ! nat (int (length args) - (int i + 1)) = args ! i" if "i < length args" for i
  proof -
    have "nat (int (length args) - (int i + 1)) = length args - Suc i" using that by auto
    then show ?thesis using that by (simp add: rev_nth)
  qed
  moreover have "next_addr ?h' = Suc ?a" "\<And>b. b \<noteq> ?a \<Longrightarrow> tables ?h' b = tables h b"
    "str_part (tables ?h' ?a) = (\<lambda>_. LNil)(ascii ''n'' := LInt (int (length args)))"
    "\<And>k. lua_rawgeti ?h' ?a k =
      (if 0 < k \<and> k \<le> int (length args) then rev args ! nat (int (length args) - k) else LNil)"
    by (simp_all add: pack_stack_eq lua_createtable_def lua_setfield_def lua_rawgeti_def empty_table_def with_ints_def)
  ultimately show ?thesis by auto
qed

theorem Lpack_correct_witness:
  "\<exists>h' a. Lpack \<lparr>tables = (\<lambda>_. empty_table), next_addr = 3\<rparr> [LInt 7, LNil] = (h', [LTable a]) \<and>
    lua_rawgeti h' a 1 = LInt 7 \<and> str_part (tables h' a) (ascii ''n'') = LInt 2"
  using Lpack_correct[of "\<lparr>tables = (\<lambda>_. empty_table), next_addr = 3\<rparr>" "[LInt 7, LNil]"]
  by (auto simp: numeral_2_eq_2)

end
