(* ===== verification/Poll_Common.thy ===== *)
theory Poll_Common
  imports Prelude
begin

text \<open>
  \<^verbatim>\<open>util-src/poll.c\<close> has three back ends, chosen when it is compiled: epoll, poll and
  select. This theory holds what they share: the error numbers, the registration operations
  and the map of watched descriptors they are a refinement of.
\<close>

text \<open>The error numbers of Linux.\<close>

definition EBADF :: errno where "EBADF = 9"
definition EEXIST :: errno where "EEXIST = 17"
definition ENOENT :: errno where "ENOENT = 2"
definition EMFILE :: errno where "EMFILE = 24"
definition EINTR :: errno where "EINTR = 4"

lemma errno_distinct [simp]:
  "EBADF \<noteq> EEXIST" "EBADF \<noteq> ENOENT" "EEXIST \<noteq> ENOENT" "EMFILE \<noteq> ENOENT" "EMFILE \<noteq> EEXIST"
  by (simp_all add: EBADF_def EEXIST_def ENOENT_def EMFILE_def)

text \<open>
  The registration operations, with the descriptor as the \<^verbatim>\<open>lua_Integer\<close> argument. For
  \<^verbatim>\<open>set\<close> an absent or nil flag is \<open>None\<close>.
\<close>

datatype watch_op =
    Add int bool bool
  | Set int "bool option" "bool option"
  | Del int

text \<open>A descriptor is watched with a wish to read and a wish to write.\<close>

type_synonym interest = "int \<rightharpoonup> bool \<times> bool"

definition new_flag :: "bool \<Rightarrow> bool \<Rightarrow> bool option \<Rightarrow> bool" where
  "new_flag keep old b = (case b of None \<Rightarrow> keep \<and> old | Some b \<Rightarrow> b)"

text \<open>
  The specification: a map with a capacity. \<open>keep\<close> tells whether an absent flag of
  \<^verbatim>\<open>set\<close> leaves the wish as it was or clears it.
\<close>

fun interest_step ::
  "(errno \<Rightarrow> bytes) \<Rightarrow> bool \<Rightarrow> nat option \<Rightarrow> interest \<Rightarrow> watch_op \<Rightarrow> interest \<times> lua_value list" where
  "interest_step strerror keep cap m (Add i r w) =
     (let fd = to_int i in
      if fd < 0 then (m, fail_errno strerror EBADF)
      else if m fd \<noteq> None then (m, fail_errno strerror EEXIST)
      else if (case cap of None \<Rightarrow> False | Some c \<Rightarrow> card (dom m) \<ge> c) then (m, fail_errno strerror EMFILE)
      else (m(fd \<mapsto> (r, w)), [LBool True]))"
| "interest_step strerror keep cap m (Set i r w) =
     (let fd = to_int i in
      case m fd of
        None \<Rightarrow> (m, fail_errno strerror ENOENT)
      | Some (r0, w0) \<Rightarrow> (m(fd \<mapsto> (new_flag keep r0 r, new_flag keep w0 w)), [LBool True]))"
| "interest_step strerror keep cap m (Del i) =
     (let fd = to_int i in
      if m fd = None then (m, fail_errno strerror ENOENT) else (m(fd := None), [LBool True]))"

fun op_fd :: "watch_op \<Rightarrow> int" where
  "op_fd (Add i r w) = to_int i"
| "op_fd (Set i r w) = to_int i"
| "op_fd (Del i) = to_int i"

lemma interest_step_frame:
  "op_fd p \<noteq> f \<Longrightarrow> fst (interest_step strerror keep cap m p) f = m f"
  by (cases p) (auto simp: Let_def split: option.splits)

text \<open>
  The contract of a back end with its callers: it simulates the map of watched descriptors,
  up to the way a result is wrapped. What the event loop relies on follows from it: calls for
  other descriptors do not touch a registration, a descriptor cannot be added twice, and one
  that is not watched can be neither changed nor removed.
\<close>

locale watch_backend = simulation inv ok abs cstep astep
  for inv :: "'c \<Rightarrow> bool" and ok :: "watch_op \<Rightarrow> bool" and abs :: "'c \<Rightarrow> interest"
    and cstep :: "'c \<Rightarrow> watch_op \<Rightarrow> 'c \<times> 'r" and astep :: "interest \<Rightarrow> watch_op \<Rightarrow> interest \<times> 'r" +
  fixes strerror :: "errno \<Rightarrow> bytes" and keep :: bool and cap :: "nat option"
    and wrap :: "lua_value list \<Rightarrow> 'r"
  assumes astep_interest: "astep m p = apsnd wrap (interest_step strerror keep cap m p)"
begin

lemma step_interest:
  assumes "inv c" "ok p"
  shows "abs (fst (cstep c p)) = fst (interest_step strerror keep cap (abs c) p)"
    and "snd (cstep c p) = wrap (snd (interest_step strerror keep cap (abs c) p))"
  using step_abs[OF assms] unfolding astep_interest by (cases "interest_step strerror keep cap (abs c) p"; simp)+

lemma run_frame:
  assumes "inv c" "list_all ok ps" "list_all (\<lambda>p. op_fd p \<noteq> f) ps"
  shows "abs (fst (run_ops cstep c ps)) f = abs c f"
  using assms
proof (induction ps arbitrary: c)
  case (Cons p ps)
  then have "abs (fst (cstep c p)) f = abs c f" using step_interest(1)[of c p] by (simp add: interest_step_frame)
  with Cons show ?case using step_inv[of c p] by (simp add: run_ops_Cons del: run_ops.simps)
qed simp

lemma results_later:
  assumes "inv c" "list_all ok ps" "list_all (\<lambda>p. op_fd p \<noteq> to_int i) ps"
  defines "c' \<equiv> fst (run_ops cstep c ps)"
  shows "abs c (to_int i) \<noteq> None \<Longrightarrow> 0 \<le> to_int i \<Longrightarrow> ok (Add i r w) \<Longrightarrow>
      snd (cstep c' (Add i r w)) = wrap (fail_errno strerror EEXIST)"
    and "abs c (to_int i) = None \<Longrightarrow> ok (Del i) \<Longrightarrow> snd (cstep c' (Del i)) = wrap (fail_errno strerror ENOENT)"
    and "abs c (to_int i) = None \<Longrightarrow> ok (Set i r' w') \<Longrightarrow>
      snd (cstep c' (Set i r' w')) = wrap (fail_errno strerror ENOENT)"
proof -
  have "inv c'" "abs c' (to_int i) = abs c (to_int i)"
    using run_inv[OF assms(1,2)] run_frame[OF assms(1-3)] by (simp_all add: c'_def)
  note c' = this
  show "abs c (to_int i) \<noteq> None \<Longrightarrow> 0 \<le> to_int i \<Longrightarrow> ok (Add i r w) \<Longrightarrow>
      snd (cstep c' (Add i r w)) = wrap (fail_errno strerror EEXIST)"
    using c' step_interest(2)[OF c'(1)] by simp
  show "abs c (to_int i) = None \<Longrightarrow> ok (Del i) \<Longrightarrow> snd (cstep c' (Del i)) = wrap (fail_errno strerror ENOENT)"
    using c' step_interest(2)[OF c'(1)] by simp
  show "abs c (to_int i) = None \<Longrightarrow> ok (Set i r' w') \<Longrightarrow>
      snd (cstep c' (Set i r' w')) = wrap (fail_errno strerror ENOENT)"
    using c' step_interest(2)[OF c'(1)] by simp
qed

end

section \<open>Event loops\<close>

text \<open>
  What the event loop does with a context: registrations and waits, in any order. \<open>'w\<close> is what
  a wait depends on besides the context: the timeout and the behaviour of the system call. A
  wait that raises an error leaves the context as it is.
\<close>

datatype 'w loop_op = Call watch_op | Wait 'w

datatype 'r loop_result = Called 'r | Waited "lua_value list outcome"

fun loop_run ::
  "('c \<Rightarrow> watch_op \<Rightarrow> 'c \<times> 'r) \<Rightarrow> ('w \<Rightarrow> 'c \<Rightarrow> ('c \<times> lua_value list) outcome) \<Rightarrow> 'c \<Rightarrow> 'w loop_op list
    \<Rightarrow> 'c \<times> 'r loop_result list" where
  "loop_run cstep wait c [] = (c, [])"
| "loop_run cstep wait c (Call p # ops) =
     (case cstep c p of (c', r) \<Rightarrow> (case loop_run cstep wait c' ops of (d, rs) \<Rightarrow> (d, Called r # rs)))"
| "loop_run cstep wait c (Wait w # ops) =
     (case wait w c of
        Inl e \<Rightarrow> (case loop_run cstep wait c ops of (d, rs) \<Rightarrow> (d, Waited (Inl e) # rs))
      | Inr (c', r) \<Rightarrow> (case loop_run cstep wait c' ops of (d, rs) \<Rightarrow> (d, Waited (Inr r) # rs)))"

text \<open>
  What the map of watched descriptors says about the results: a registration returns what the
  map returns, and an event is for a descriptor that is in the map at that moment.
\<close>

definition event_watched :: "interest \<Rightarrow> lua_value list outcome \<Rightarrow> bool" where
  "event_watched m r = (case r of Inr (LInt f # _) \<Rightarrow> m f \<noteq> None | _ \<Rightarrow> True)"

fun explains :: "(interest \<Rightarrow> watch_op \<Rightarrow> interest \<times> 'r) \<Rightarrow> interest \<Rightarrow> 'w loop_op list \<Rightarrow> 'r loop_result list \<Rightarrow> bool" where
  "explains astep m [] rs \<longleftrightarrow> rs = []"
| "explains astep m (Call p # ops) (Called r # rs) \<longleftrightarrow>
     (case astep m p of (m', r') \<Rightarrow> r = r' \<and> explains astep m' ops rs)"
| "explains astep m (Wait w # ops) (Waited r # rs) \<longleftrightarrow> event_watched m r \<and> explains astep m ops rs"
| "explains astep m (op # ops) rs \<longleftrightarrow> False"

fun loop_op_ok :: "(watch_op \<Rightarrow> bool) \<Rightarrow> ('w \<Rightarrow> bool) \<Rightarrow> 'w loop_op \<Rightarrow> bool" where
  "loop_op_ok ok wait_ok (Call p) \<longleftrightarrow> ok p"
| "loop_op_ok ok wait_ok (Wait w) \<longleftrightarrow> wait_ok w"

lemma loop_op_ok_any [simp]: "loop_op_ok (\<lambda>_. True) (\<lambda>_. True) op"
  by (cases op) simp_all

text \<open>
  The contract of a back end that also waits: a wait keeps the invariant and what is watched, and
  its events are for watched descriptors.
\<close>

locale wait_backend = watch_backend inv ok abs cstep astep strerror keep cap wrap
  for inv :: "'c \<Rightarrow> bool" and ok :: "watch_op \<Rightarrow> bool" and abs :: "'c \<Rightarrow> interest"
    and cstep :: "'c \<Rightarrow> watch_op \<Rightarrow> 'c \<times> 'r" and astep :: "interest \<Rightarrow> watch_op \<Rightarrow> interest \<times> 'r"
    and strerror :: "errno \<Rightarrow> bytes" and keep :: bool and cap :: "nat option" and wrap :: "lua_value list \<Rightarrow> 'r" +
  fixes wait :: "'w \<Rightarrow> 'c \<Rightarrow> ('c \<times> lua_value list) outcome" and wait_ok :: "'w \<Rightarrow> bool"
  assumes wait_contract: "inv c \<Longrightarrow> wait_ok w \<Longrightarrow> wait w c = Inr (c', r) \<Longrightarrow>
    inv c' \<and> abs c' = abs c \<and> event_watched (abs c) (Inr r)"
begin

lemma loop_explained:
  "inv c \<Longrightarrow> list_all (loop_op_ok ok wait_ok) ops \<Longrightarrow>
    inv (fst (loop_run cstep wait c ops)) \<and> explains astep (abs c) ops (snd (loop_run cstep wait c ops))"
proof (induction ops arbitrary: c)
  case (Cons op ops)
  show ?case
  proof (cases op)
    case (Call p)
    with Cons.prems have "inv (fst (cstep c p))" "astep (abs c) p = (abs (fst (cstep c p)), snd (cstep c p))"
      by (simp_all add: step_inv step_abs)
    with Cons Call show ?thesis by (simp add: case_prod_beta)
  next
    case (Wait w)
    show ?thesis
    proof (cases "wait w c")
      case (Inl e)
      with Cons Wait show ?thesis by (simp add: case_prod_beta event_watched_def)
    next
      case (Inr cr)
      obtain c' r where cr: "cr = (c', r)" by fastforce
      with Inr Cons.prems Wait have "inv c' \<and> abs c' = abs c \<and> event_watched (abs c) (Inr r)"
        using wait_contract[of c w c' r] by simp
      with Cons.IH[of c'] Cons.prems Wait Inr cr show ?thesis by (simp add: case_prod_beta)
    qed
  qed
qed simp

end

section \<open>Where the variants of the specification agree\<close>

text \<open>
  On descriptors below \<open>n\<close> with both flags given to \<^verbatim>\<open>set\<close>, neither a capacity of \<open>n\<close> or
  more nor the meaning of an absent flag shows.
\<close>

fun both_flags :: "watch_op \<Rightarrow> bool" where
  "both_flags (Set i r w) \<longleftrightarrow> r \<noteq> None \<and> w \<noteq> None"
| "both_flags _ \<longleftrightarrow> True"

definition plain_op :: "nat \<Rightarrow> watch_op \<Rightarrow> bool" where
  "plain_op n p \<longleftrightarrow> 0 \<le> op_fd p \<and> op_fd p < int n \<and> both_flags p"

definition small_map :: "nat \<Rightarrow> interest \<Rightarrow> bool" where
  "small_map n m \<longleftrightarrow> dom m \<subseteq> {0..<int n}"

lemma small_map_full:
  assumes "small_map n m" "0 \<le> f" "f < int n" "m f = None"
  shows "card (dom m) < n"
proof -
  have "card (insert f (dom m)) \<le> card {0..<int n}"
    using assms by (intro card_mono) (auto simp: small_map_def)
  moreover have "finite (dom m)" using assms(1) finite_subset by (auto simp: small_map_def)
  ultimately show ?thesis using assms(4) by (simp add: domIff)
qed

lemma interest_step_small:
  assumes "small_map n m" "plain_op n p"
  shows "small_map n (fst (interest_step strerror keep cap m p))"
  using assms by (cases p) (auto simp: small_map_def plain_op_def Let_def split: option.splits if_splits)

lemma interest_step_variants:
  assumes "small_map n m" "plain_op n p" and "case cap of None \<Rightarrow> True | Some c \<Rightarrow> n \<le> c"
  shows "interest_step strerror keep' None m p = interest_step strerror keep cap m p"
proof (cases p)
  case (Add i r w)
  then show ?thesis
    using assms small_map_full[of n m "to_int i"]
    by (cases "m (to_int i)") (auto simp: plain_op_def Let_def split: option.splits)
next
  case (Set i r w)
  then show ?thesis
    using assms by (auto simp: plain_op_def Let_def new_flag_def split: option.splits)
qed simp

lemma interest_variants:
  assumes "list_all (plain_op n) ops" and "case cap of None \<Rightarrow> True | Some c \<Rightarrow> n \<le> c"
  shows "run_ops (interest_step strerror keep' None) Map.empty ops = run_ops (interest_step strerror keep cap) Map.empty ops"
proof -
  have "simulation (small_map n) (plain_op n) (\<lambda>m. m) (interest_step strerror keep cap) (interest_step strerror keep' None)"
    using assms(2) by unfold_locales (auto simp: interest_step_small interest_step_variants[where cap = cap and keep = keep])
  from simulation.run_refines[OF this _ assms(1), of Map.empty] show ?thesis by (simp add: small_map_def)
qed

section \<open>Association lists with distinct keys\<close>

lemma map_of_update_nth:
  assumes "distinct (map fst xs)" "i < length xs" "fst (xs ! i) = k"
  shows "map_of (xs[i := (k, v)]) = (map_of xs)(k \<mapsto> v)"
  using assms
proof (induction xs arbitrary: i)
  case (Cons x xs)
  show ?case
  proof (cases i)
    case (Suc j)
    then have "fst x \<noteq> k" using Cons.prems by auto
    then show ?thesis using Cons Suc by (auto simp: fun_upd_twist)
  qed (use Cons in \<open>auto\<close>)
qed simp

text \<open>Removal by moving the last element over the removed one.\<close>

definition swap_remove :: "'a list \<Rightarrow> nat \<Rightarrow> 'a list" where
  "swap_remove xs i = butlast (xs[i := last xs])"

lemma set_swap_remove:
  assumes "distinct xs" "i < length xs"
  shows "set (swap_remove xs i) = set xs - {xs ! i} \<and> distinct (swap_remove xs i)"
proof -
  obtain ys l where xs: "xs = ys @ [l]" using assms by (cases xs rule: rev_cases) auto
  show ?thesis
  proof (cases "i = length ys")
    case True
    then show ?thesis using assms by (auto simp: swap_remove_def xs)
  next
    case False
    then have i: "i < length ys" using assms by (simp add: xs)
    then have eq: "swap_remove xs i = ys[i := l]" by (simp add: swap_remove_def xs list_update_append)
    show ?thesis
      using assms i unfolding eq
      by (auto simp: xs set_update_distinct nth_append distinct_list_update)
  qed
qed

lemma map_of_swap_remove:
  assumes "distinct (map fst xs)" "i < length xs"
  shows "map_of (swap_remove xs i) = (map_of xs)(fst (xs ! i) := None)"
    and "distinct (map fst (swap_remove xs i))"
proof -
  have map: "map fst (swap_remove xs i) = swap_remove (map fst xs) i"
    using assms(2) by (cases xs rule: rev_cases) (auto simp: swap_remove_def map_update map_butlast last_map)
  then show d: "distinct (map fst (swap_remove xs i))"
    using set_swap_remove[OF assms(1)] assms(2) by simp
  have set: "set (swap_remove xs i) = set xs - {xs ! i}"
    using set_swap_remove[of xs i] assms by (simp add: distinct_map)
  have "map_of (swap_remove xs i) k = Some v \<longleftrightarrow> ((map_of xs)(fst (xs ! i) := None)) k = Some v" for k v
  proof -
    have sr: "map_of (swap_remove xs i) k = Some v \<longleftrightarrow> (k, v) \<in> set xs \<and> (k, v) \<noteq> xs ! i"
      using map_of_eq_Some_iff[OF d] set by simp
    show ?thesis
    proof (cases "k = fst (xs ! i)")
      case True
      then have "(k, v) \<in> set xs \<Longrightarrow> (k, v) = xs ! i"
        using assms by (metis map_of_eq_Some_iff nth_mem option.inject prod.collapse)
      then show ?thesis using True sr by auto
    next
      case False
      then have "(k, v) \<noteq> xs ! i" by (metis fst_conv)
      then show ?thesis using False sr assms(1) by simp
    qed
  qed
  then show "map_of (swap_remove xs i) = (map_of xs)(fst (xs ! i) := None)"
    by (intro ext) (metis option.exhaust)
qed

end
