(* ===== verification/Poll_Poll.thy ===== *)
theory Poll_Poll
  imports Poll_Common
begin

text \<open>
  The poll(2) back end of \<^verbatim>\<open>util-src/poll.c\<close>: the watched descriptors are the first
  \<open>count\<close> entries of an array of \<^verbatim>\<open>MAX_WATCHED\<close> entries; a removed entry is
  overwritten with the last one. The system call is a parameter of \<^verbatim>\<open>Lwait\<close>.
\<close>

section \<open>State and operations\<close>

abbreviation POLLIN :: "16 word" where "POLLIN \<equiv> 1"
abbreviation POLLOUT :: "16 word" where "POLLOUT \<equiv> 4"
abbreviation POLLERR :: "16 word" where "POLLERR \<equiv> 8"
abbreviation POLLHUP :: "16 word" where "POLLHUP \<equiv> 16"

definition MAX_WATCHED :: nat where "MAX_WATCHED = 10000"

record pollfd =
  fd :: int
  events :: "16 word"
  revents :: "16 word"

record poll_state =
  processed :: int
  count :: nat
  pollfds :: "pollfd list"

definition want_mask :: "bool \<Rightarrow> bool \<Rightarrow> 16 word" where
  "want_mask wantread wantwrite = (if wantread then POLLIN else 0) OR (if wantwrite then POLLOUT else 0)"

text \<open>The index of the first entry for \<open>f\<close> from \<open>i\<close> on and below \<open>n\<close>.\<close>

function search_fd :: "pollfd list \<Rightarrow> int \<Rightarrow> nat \<Rightarrow> nat \<Rightarrow> nat option" where
  "search_fd es f n i =
     (if i < n then if fd (es ! i) = f then Some i else search_fd es f n (Suc i) else None)"
  by pat_completeness auto
termination by (relation "measure (\<lambda>(es, f, n, i). n - i)") auto

text \<open>The same loop in \<^verbatim>\<open>Lset\<close>, which also stops at an unused entry.\<close>

function search_fd_set :: "pollfd list \<Rightarrow> int \<Rightarrow> nat \<Rightarrow> nat \<Rightarrow> nat option" where
  "search_fd_set es f n i =
     (if i < n then
        if fd (es ! i) = f then Some i
        else if fd (es ! i) = - 1 then None
        else search_fd_set es f n (Suc i)
      else None)"
  by pat_completeness auto
termination by (relation "measure (\<lambda>(es, f, n, i). n - i)") auto

declare search_fd.simps [simp del] search_fd_set.simps [simp del]

definition poll_Ladd ::
  "(errno \<Rightarrow> bytes) \<Rightarrow> poll_state \<Rightarrow> int \<Rightarrow> bool \<Rightarrow> bool \<Rightarrow> poll_state \<times> lua_value list" where
  "poll_Ladd strerror state i wantread wantwrite =
     (let f = to_int i in
      if f < 0 then (state, fail_errno strerror EBADF)
      else if search_fd (pollfds state) f (count state) 0 \<noteq> None then (state, fail_errno strerror EEXIST)
      else if count state \<ge> MAX_WATCHED then (state, fail_errno strerror EMFILE)
      else (state\<lparr>pollfds := (pollfds state)[count state :=
                     \<lparr>fd = f, events = want_mask wantread wantwrite, revents = 0\<rparr>],
                  count := count state + 1\<rparr>, [LBool True]))"

definition poll_Lset ::
  "(errno \<Rightarrow> bytes) \<Rightarrow> poll_state \<Rightarrow> int \<Rightarrow> bool option \<Rightarrow> bool option \<Rightarrow> poll_state \<times> lua_value list" where
  "poll_Lset strerror state i arg3 arg4 =
     (let f = to_int i; wantread = (arg3 = Some True); wantwrite = (arg4 = Some True) in
      case search_fd_set (pollfds state) f (count state) 0 of
        Some k \<Rightarrow>
          (state\<lparr>pollfds := (pollfds state)[k := (pollfds state ! k)\<lparr>events := want_mask wantread wantwrite\<rparr>]\<rparr>,
           [LBool True])
      | None \<Rightarrow> (state, fail_errno strerror ENOENT))"

definition poll_Ldel :: "(errno \<Rightarrow> bytes) \<Rightarrow> poll_state \<Rightarrow> int \<Rightarrow> poll_state \<times> lua_value list" where
  "poll_Ldel strerror state i =
     (let f = to_int i in
      if count state = 0 then (state, fail_errno strerror ENOENT)
      else case search_fd (pollfds state) f (count state) 0 of
             Some k \<Rightarrow>
               (let l = count state - 1;
                    es = (pollfds state)[k := pollfds state ! l];
                    es = es[l := (es ! l)\<lparr>fd := - 1\<rparr>] in
                (state\<lparr>pollfds := es, count := l\<rparr>, [LBool True]))
           | None \<Rightarrow> (state, fail_errno strerror ENOENT))"

text \<open>The search of \<^verbatim>\<open>Lpushevent\<close>, downwards from the entry below \<open>n\<close>.\<close>

fun pending_below :: "pollfd list \<Rightarrow> nat \<Rightarrow> nat option" where
  "pending_below es 0 = None"
| "pending_below es (Suc i) =
     (if fd (es ! i) \<noteq> - 1 \<and> revents (es ! i) \<noteq> 0 then Some i else pending_below es i)"

definition report :: "pollfd \<Rightarrow> lua_value list" where
  "report e = [LInt (fd e), LBool (revents e AND (POLLIN OR POLLHUP OR POLLERR) \<noteq> 0),
               LBool (revents e AND POLLOUT \<noteq> 0)]"

definition poll_Lpushevent :: "poll_state \<Rightarrow> poll_state \<times> lua_value list" where
  "poll_Lpushevent state =
     (case pending_below (pollfds state) (nat (processed state)) of
        Some i \<Rightarrow>
          (state\<lparr>pollfds := (pollfds state)[i := (pollfds state ! i)\<lparr>revents := 0\<rparr>], processed := int i\<rparr>,
           report (pollfds state ! i))
      | None \<Rightarrow> (state, []))"

text \<open>
  \<open>sys_poll\<close> gets the entries and the timeout in milliseconds and gives the return value, the
  error number and the \<^verbatim>\<open>revents\<close> fields. The conversion of the timeout to \<^verbatim>\<open>int\<close> is
  undefined when it does not fit.
\<close>

definition set_revents :: "pollfd list \<Rightarrow> 16 word list \<Rightarrow> pollfd list" where
  "set_revents es rs = map2 (\<lambda>e r. e\<lparr>revents := r\<rparr>) (take (length rs) es) rs @ drop (length rs) es"

definition poll_Lwait ::
  "(errno \<Rightarrow> bytes) \<Rightarrow> (pollfd list \<Rightarrow> int \<Rightarrow> int \<times> errno \<times> 16 word list) \<Rightarrow> poll_state \<Rightarrow> rat
    \<Rightarrow> (poll_state \<times> lua_value list) outcome" where
  "poll_Lwait strerror sys_poll state timeout =
     (case poll_Lpushevent state of
        (state1, r # rs) \<Rightarrow> Inr (state1, r # rs)
      | (state1, []) \<Rightarrow>
          (if \<not> timeout \<ge> 0 then Inl (ArgError 1 ''positive number expected'')
           else if timeout = 0 then Inr (state1, [LNil, LStr (ascii ''timeout'')])
           else if \<lfloor>timeout * 1000\<rfloor> \<ge> 2 ^ 31 then Inl (Undefined ''conversion out of range'')
           else case sys_poll (take (count state1) (pollfds state1)) \<lfloor>timeout * 1000\<rfloor> of (ret, err, revs) \<Rightarrow>
             (let state2 = state1\<lparr>pollfds := set_revents (pollfds state1) (take (count state1) revs)\<rparr> in
              if ret = 0 then Inr (state2, [LNil, LStr (ascii ''timeout'')])
              else if ret < 0 \<and> err = EINTR then Inr (state2, [LNil, LStr (ascii ''signal'')])
              else if ret < 0 then Inr (state2, fail_errno strerror err)
              else Inr (poll_Lpushevent (state2\<lparr>processed := int (count state2)\<rparr>)))))"

definition poll_Lnew :: poll_state where
  "poll_Lnew = \<lparr>processed = - 1, count = 0,
     pollfds = replicate MAX_WATCHED \<lparr>fd = - 1, events = 0, revents = 0\<rparr>\<rparr>"

fun poll_step :: "(errno \<Rightarrow> bytes) \<Rightarrow> poll_state \<Rightarrow> watch_op \<Rightarrow> poll_state \<times> lua_value list" where
  "poll_step strerror s (Add i r w) = poll_Ladd strerror s i r w"
| "poll_step strerror s (Set i r w) = poll_Lset strerror s i r w"
| "poll_step strerror s (Del i) = poll_Ldel strerror s i"

section \<open>Invariant and abstraction\<close>

definition live :: "poll_state \<Rightarrow> pollfd list" where
  "live s = take (count s) (pollfds s)"

definition poll_wf :: "poll_state \<Rightarrow> bool" where
  "poll_wf s \<longleftrightarrow> length (pollfds s) = MAX_WATCHED \<and> count s \<le> MAX_WATCHED \<and>
     processed s \<le> int MAX_WATCHED \<and> distinct (map fd (live s)) \<and>
     (\<forall>f \<in> set (map fd (live s)). 0 \<le> f) \<and> (\<forall>i. count s \<le> i \<longrightarrow> i < MAX_WATCHED \<longrightarrow> fd (pollfds s ! i) = - 1)"

definition entry :: "pollfd \<Rightarrow> int \<times> bool \<times> bool" where
  "entry e = (fd e, events e AND POLLIN \<noteq> 0, events e AND POLLOUT \<noteq> 0)"

definition watched :: "poll_state \<Rightarrow> interest" where
  "watched s = map_of (map entry (live s))"

lemma fst_entry [simp]: "fst (entry e) = fd e" by (simp add: entry_def)

lemma map_fst_entry [simp]: "map fst (map entry es) = map fd es" by simp

lemma want_mask_bits: "want_mask r w AND POLLIN \<noteq> 0 \<longleftrightarrow> r" "want_mask r w AND POLLOUT \<noteq> 0 \<longleftrightarrow> w"
  by (simp_all add: want_mask_def)

lemma watched_None_iff: "watched s f = None \<longleftrightarrow> f \<notin> fd ` set (live s)"
  by (simp add: watched_def map_of_eq_None_iff image_image)

lemma poll_Lnew_wf: "poll_wf poll_Lnew" "watched poll_Lnew = Map.empty"
  by (auto simp: poll_wf_def poll_Lnew_def live_def watched_def)

lemma search_fd_None: "search_fd es f n i = None \<longleftrightarrow> (\<forall>j. i \<le> j \<longrightarrow> j < n \<longrightarrow> fd (es ! j) \<noteq> f)"
proof (induction es f n i rule: search_fd.induct)
  case (1 es f n i)
  have "(\<forall>j. i \<le> j \<longrightarrow> j < n \<longrightarrow> P j) \<longleftrightarrow> P i \<and> (\<forall>j. Suc i \<le> j \<longrightarrow> j < n \<longrightarrow> P j)" if "i < n" for P
    using that by (metis Suc_le_eq le_eq_less_or_eq)
  with 1 show ?case by (subst search_fd.simps) auto
qed

lemma search_fd_Some: "search_fd es f n i = Some k \<Longrightarrow> k < n \<and> fd (es ! k) = f"
proof (induction es f n i rule: search_fd.induct)
  case (1 es f n i)
  then show ?case by (subst (asm) search_fd.simps) (auto split: if_splits)
qed

lemma search_fd_set_eq:
  "(\<forall>j<n. fd (es ! j) \<noteq> - 1) \<Longrightarrow> search_fd_set es f n i = search_fd es f n i"
proof (induction es f n i rule: search_fd_set.induct)
  case (1 es f n i)
  then show ?case by (subst search_fd_set.simps, subst search_fd.simps) auto
qed

lemma length_live: "poll_wf s \<Longrightarrow> length (live s) = count s"
  by (simp add: poll_wf_def live_def)

lemma distinct_entries: "poll_wf s \<Longrightarrow> distinct (map fst (map entry (live s)))"
  by (simp add: poll_wf_def o_def)

lemma search_live:
  assumes "poll_wf s"
  shows "search_fd (pollfds s) f (count s) 0 = None \<longleftrightarrow> watched s f = None"
    and "search_fd (pollfds s) f (count s) 0 = Some k \<Longrightarrow>
      k < count s \<and> fd (live s ! k) = f \<and> live s ! k = pollfds s ! k \<and> watched s f = Some (snd (entry (live s ! k)))"
proof -
  have nth: "live s ! j = pollfds s ! j" if "j < count s" for j using that by (simp add: live_def)
  have "f \<in> fd ` set (live s) \<longleftrightarrow> (\<exists>j<count s. fd (pollfds s ! j) = f)"
    using length_live[OF assms] nth by (force simp: in_set_conv_nth)
  then show "search_fd (pollfds s) f (count s) 0 = None \<longleftrightarrow> watched s f = None"
    by (auto simp: search_fd_None watched_None_iff)
  assume k: "search_fd (pollfds s) f (count s) 0 = Some k"
  then have *: "k < count s" "fd (live s ! k) = f" using search_fd_Some[OF k] nth by auto
  have "entry (live s ! k) \<in> set (map entry (live s))"
    using * length_live[OF assms] by simp
  moreover have "entry (live s ! k) = (f, snd (entry (live s ! k)))" using * by (simp add: entry_def)
  ultimately have "map_of (map entry (live s)) f = Some (snd (entry (live s ! k)))"
    using assms by (intro map_of_is_SomeI) (auto simp: poll_wf_def o_def)
  then show "k < count s \<and> fd (live s ! k) = f \<and> live s ! k = pollfds s ! k \<and>
      watched s f = Some (snd (entry (live s ! k)))"
    using * nth by (simp add: watched_def)
qed

lemma card_watched: "poll_wf s \<Longrightarrow> card (dom (watched s)) = count s"
proof -
  assume wf: "poll_wf s"
  have "dom (watched s) = set (map fd (live s))" by (auto simp: dom_def watched_None_iff)
  moreover have "distinct (map fd (live s))" using wf by (simp add: poll_wf_def)
  ultimately show ?thesis using length_live[OF wf] by (simp only: distinct_card length_map)
qed

lemma set_search_eq: "poll_wf s \<Longrightarrow> search_fd_set (pollfds s) f (count s) 0 = search_fd (pollfds s) f (count s) 0"
proof (rule search_fd_set_eq, intro allI impI)
  fix j assume "poll_wf s" "j < count s"
  then have "pollfds s ! j \<in> set (live s)" by (auto simp: poll_wf_def live_def in_set_conv_nth)
  then show "fd (pollfds s ! j) \<noteq> - 1" using \<open>poll_wf s\<close> by (auto simp: poll_wf_def)
qed

section \<open>The registration operations refine the interest map\<close>

definition refines_step :: "(errno \<Rightarrow> bytes) \<Rightarrow> poll_state \<Rightarrow> watch_op \<Rightarrow> bool" where
  "refines_step strerror s p \<longleftrightarrow> poll_wf (fst (poll_step strerror s p)) \<and>
     interest_step strerror False (Some MAX_WATCHED) (watched s) p =
       (watched (fst (poll_step strerror s p)), snd (poll_step strerror s p))"

lemma refines_add: "poll_wf s \<Longrightarrow> refines_step strerror s (Add i r w)"
proof -
  assume wf: "poll_wf s"
  let ?f = "to_int i" and ?e = "\<lparr>fd = to_int i, events = want_mask r w, revents = 0\<rparr>"
  consider (neg) "?f < 0" | (dup) "0 \<le> ?f" "watched s ?f \<noteq> None" | (full) "0 \<le> ?f" "watched s ?f = None" "count s \<ge> MAX_WATCHED"
    | (ok) "0 \<le> ?f" "watched s ?f = None" "count s < MAX_WATCHED" by linarith
  then show ?thesis
  proof cases
    case ok
    let ?s = "s\<lparr>pollfds := (pollfds s)[count s := ?e], count := count s + 1\<rparr>"
    have step: "poll_step strerror s (Add i r w) = (?s, [LBool True])"
      using ok search_live(1)[OF wf, of ?f] by (simp add: poll_Ladd_def Let_def)
    have live: "live ?s = live s @ [?e]"
      using wf ok by (simp add: live_def poll_wf_def take_Suc_conv_app_nth)
    have "poll_wf ?s"
      using wf ok unfolding poll_wf_def live by (auto simp: watched_None_iff image_iff nth_list_update)
    moreover have "watched ?s = (watched s)(?f \<mapsto> (r, w))"
      using ok(2) unfolding watched_def live by (auto simp: entry_def want_mask_bits map_add_def fun_eq_iff split: option.splits)
    ultimately show ?thesis
      using ok card_watched[OF wf] by (simp only: refines_step_def step) (simp add: Let_def)
  qed (use wf search_live(1)[OF wf, of ?f] card_watched[OF wf] in
      \<open>auto simp: refines_step_def poll_Ladd_def Let_def\<close>)
qed

lemma refines_set: "poll_wf s \<Longrightarrow> refines_step strerror s (Set i r w)"
proof -
  assume wf: "poll_wf s"
  let ?f = "to_int i" and ?r = "r = Some True" and ?w = "w = Some True"
  show ?thesis
  proof (cases "search_fd (pollfds s) ?f (count s) 0")
    case None
    then show ?thesis
      using wf search_live(1)[OF wf, of ?f] set_search_eq[OF wf] by (simp add: refines_step_def poll_Lset_def)
  next
    case (Some k)
    let ?e = "(pollfds s ! k)\<lparr>events := want_mask ?r ?w\<rparr>"
    let ?s = "s\<lparr>pollfds := (pollfds s)[k := ?e]\<rparr>"
    note k = search_live(2)[OF wf Some]
    have step: "poll_step strerror s (Set i r w) = (?s, [LBool True])"
      using Some set_search_eq[OF wf] by (simp add: poll_Lset_def)
    have live: "live ?s = (live s)[k := ?e]" by (simp add: live_def take_update_swap)
    have fds: "map fd (live ?s) = map fd (live s)"
      unfolding live using k by (simp add: map_update) (metis list_update_id nth_map length_live wf)
    have "poll_wf ?s"
      unfolding poll_wf_def fds using wf k by (auto simp: poll_wf_def nth_list_update)
    moreover have "watched ?s = (watched s)(?f \<mapsto> (?r, ?w))"
    proof -
      have "entry ?e = (?f, ?r, ?w)" using k by (auto simp: entry_def want_mask_bits)
      then have "map entry (live ?s) = (map entry (live s))[k := (?f, ?r, ?w)]" by (simp add: live map_update)
      then show ?thesis
        using k wf length_live[OF wf] unfolding watched_def
        by (auto intro!: map_of_update_nth distinct_entries)
    qed
    moreover have "new_flag False r0 b = (b = Some True)" for r0 b by (auto simp: new_flag_def split: option.splits)
    ultimately show ?thesis
      using k by (simp only: refines_step_def step) (simp add: Let_def split: prod.splits)
  qed
qed

lemma live_del:
  assumes "poll_wf s" "k < count s"
  defines "l \<equiv> count s - 1"
  shows "live (s\<lparr>pollfds := (pollfds s)[k := pollfds s ! l, l := e], count := l\<rparr>) = swap_remove (live s) k"
proof -
  have l: "count s = Suc l" "Suc l \<le> length (pollfds s)" using assms by (auto simp: poll_wf_def)
  then have "last (take (Suc l) (pollfds s)) = pollfds s ! l" by (simp add: take_Suc_conv_app_nth)
  then show ?thesis
    using l by (simp add: live_def swap_remove_def butlast_list_update butlast_take take_update_swap list_update_beyond)
qed

lemma refines_del: "poll_wf s \<Longrightarrow> refines_step strerror s (Del i)"
proof -
  assume wf: "poll_wf s"
  let ?f = "to_int i" and ?l = "count s - 1"
  show ?thesis
  proof (cases "search_fd (pollfds s) ?f (count s) 0")
    case None
    then show ?thesis
      using wf search_live(1)[OF wf, of ?f] by (simp add: refines_step_def poll_Ldel_def)
  next
    case (Some k)
    note k = search_live(2)[OF wf Some]
    let ?es = "(pollfds s)[k := pollfds s ! ?l]"
    let ?s = "s\<lparr>pollfds := ?es[?l := (?es ! ?l)\<lparr>fd := - 1\<rparr>], count := ?l\<rparr>"
    have step: "poll_step strerror s (Del i) = (?s, [LBool True])"
      using Some k by (simp add: poll_Ldel_def Let_def)
    have live: "live ?s = swap_remove (live s) k" using live_del[OF wf] k by blast
    have d: "distinct (map fst (map entry (live s)))" and kl: "k < length (map entry (live s))"
      using distinct_entries[OF wf] k length_live[OF wf] by simp_all
    have e: "map entry (swap_remove (live s) k) = swap_remove (map entry (live s)) k"
    proof -
      have "live s \<noteq> []" using k length_live[OF wf] by auto
      then show ?thesis by (simp add: swap_remove_def map_butlast map_update last_map)
    qed
    have "set (live ?s) \<subseteq> set (live s)"
      using set_swap_remove[of "live s" k] wf k length_live[OF wf] unfolding live
      by (auto simp: poll_wf_def distinct_map)
    moreover have "distinct (map fd (live ?s))"
      using map_of_swap_remove(2)[OF d kl] unfolding live e[symmetric] by (simp add: comp_def)
    ultimately have "poll_wf ?s"
      using wf k by (auto simp: poll_wf_def nth_list_update)
    moreover have "watched ?s = (watched s)(?f := None)"
      using map_of_swap_remove(1)[OF d kl] k length_live[OF wf] unfolding watched_def live e by auto
    ultimately show ?thesis
      using k by (simp only: refines_step_def step) (simp add: Let_def)
  qed
qed

lemma refines_all: "poll_wf s \<Longrightarrow> refines_step strerror s p"
  by (cases p) (simp_all add: refines_add refines_set refines_del)

interpretation pollb: watch_backend poll_wf "\<lambda>_. True" watched "poll_step strerror"
  "interest_step strerror False (Some MAX_WATCHED)" strerror False "Some MAX_WATCHED" id for strerror
  by unfold_locales (use refines_all in \<open>auto simp: refines_step_def\<close>)

text \<open>
  C6: Every sequence of \<^verbatim>\<open>add\<close>, \<^verbatim>\<open>set\<close> and \<^verbatim>\<open>del\<close> calls on a new poll(2) context
  returns what a map of at most 10000 watched descriptors returns, the error results
  included, and the array always holds exactly that map, without duplicates.
\<close>

theorem poll_backend_refines_interest:
  "run_ops (interest_step strerror False (Some MAX_WATCHED)) Map.empty ops =
     (watched (fst (run_ops (poll_step strerror) poll_Lnew ops)), snd (run_ops (poll_step strerror) poll_Lnew ops)) \<and>
   poll_wf (fst (run_ops (poll_step strerror) poll_Lnew ops))"
  using pollb.run_refines[OF poll_Lnew_wf(1), of ops strerror] pollb.run_inv[OF poll_Lnew_wf(1), of ops strerror]
  by (simp add: poll_Lnew_wf(2) list.pred_True)

section \<open>Waiting\<close>

text \<open>The events that \<^verbatim>\<open>Lwait\<close> hands out without a system call.\<close>

fun drain :: "nat \<Rightarrow> poll_state \<Rightarrow> lua_value list list" where
  "drain 0 s = []"
| "drain (Suc n) s = (case poll_Lpushevent s of (s', []) \<Rightarrow> [] | (s', r # rs) \<Rightarrow> (r # rs) # drain n s')"

definition pending :: "pollfd \<Rightarrow> bool" where
  "pending e \<longleftrightarrow> fd e \<noteq> - 1 \<and> revents e \<noteq> 0"

lemma pending_below_eq:
  "n \<le> length es \<Longrightarrow>
    (case pending_below es n of
       None \<Rightarrow> \<forall>e \<in> set (take n es). \<not> pending e
     | Some i \<Rightarrow> i < n \<and> pending (es ! i) \<and>
         filter pending (rev (take n es)) = es ! i # filter pending (rev (take i es)))"
proof (induction n)
  case (Suc n)
  then have take: "take (Suc n) es = take n es @ [es ! n]" by (simp add: take_Suc_conv_app_nth)
  show ?case
  proof (cases "pending (es ! n)")
    case True
    then show ?thesis by (simp add: take pending_def)
  next
    case False
    then have eq: "pending_below es (Suc n) = pending_below es n" by (auto simp: pending_def)
    show ?thesis
      unfolding eq using Suc False by (cases "pending_below es n") (simp_all add: take)
  qed
qed simp

lemma drain_eq:
  assumes "nat (processed s) \<le> length (pollfds s)" "nat (processed s) \<le> n"
  shows "drain n s = map report (filter pending (rev (take (nat (processed s)) (pollfds s))))"
  using assms
proof (induction n arbitrary: s)
  case (Suc n)
  let ?p = "nat (processed s)" and ?es = "pollfds s"
  show ?case
  proof (cases "pending_below ?es ?p")
    case None
    then have "filter pending (rev (take ?p ?es)) = []"
      using pending_below_eq[OF Suc.prems(1)] by (simp add: filter_empty_conv)
    then show ?thesis using None by (simp add: poll_Lpushevent_def)
  next
    case (Some i)
    let ?s = "s\<lparr>pollfds := ?es[i := (?es ! i)\<lparr>revents := 0\<rparr>], processed := int i\<rparr>"
    have i: "i < ?p" "filter pending (rev (take ?p ?es)) = ?es ! i # filter pending (rev (take i ?es))"
      using pending_below_eq[OF Suc.prems(1)] Some by simp_all
    have "drain n ?s = map report (filter pending (rev (take i ?es)))"
      using Suc.prems i by (subst Suc.IH) auto
    then show ?thesis using Some i by (simp add: poll_Lpushevent_def report_def)
  qed
qed simp

text \<open>Only the \<^verbatim>\<open>revents\<close> fields and \<^verbatim>\<open>processed\<close> change: invariant and interest stay.\<close>

lemma same_watch:
  assumes "poll_wf s" and "length (pollfds s') = length (pollfds s)" "count s' = count s"
    and "processed s' \<le> int MAX_WATCHED"
    and "\<And>j. j < length (pollfds s) \<Longrightarrow> fd (pollfds s' ! j) = fd (pollfds s ! j) \<and> events (pollfds s' ! j) = events (pollfds s ! j)"
  shows "poll_wf s' \<and> watched s' = watched s"
proof -
  have "map fd (live s') = map fd (live s)" "map entry (live s') = map entry (live s)"
    using assms by (auto simp: live_def entry_def intro!: nth_equalityI)
  then show ?thesis using assms unfolding poll_wf_def watched_def by auto
qed

lemma pushed_index: "poll_wf s \<Longrightarrow> pending_below (pollfds s) (nat (processed s)) = Some i \<Longrightarrow>
    i < nat (processed s) \<and> i < length (pollfds s) \<and> pending (pollfds s ! i)"
proof -
  assume "poll_wf s" and i: "pending_below (pollfds s) (nat (processed s)) = Some i"
  then have le: "nat (processed s) \<le> length (pollfds s)" by (auto simp: poll_wf_def)
  then show ?thesis using pending_below_eq[OF le] i by auto
qed

lemma poll_Lpushevent_same:
  assumes "poll_wf s"
  shows "poll_wf (fst (poll_Lpushevent s)) \<and> watched (fst (poll_Lpushevent s)) = watched s"
proof (rule same_watch[OF assms])
  show "processed (fst (poll_Lpushevent s)) \<le> int MAX_WATCHED"
    using assms pushed_index[OF assms] by (auto simp: poll_Lpushevent_def poll_wf_def split: option.splits)
qed (auto simp: poll_Lpushevent_def nth_list_update_same split: option.splits)

lemma poll_Lpushevent_watched:
  assumes "poll_wf s" "poll_Lpushevent s = (s', LInt f # rs)"
  shows "watched s f \<noteq> None"
proof -
  obtain i where i: "pending_below (pollfds s) (nat (processed s)) = Some i" "f = fd (pollfds s ! i)"
    using assms(2) by (auto simp: poll_Lpushevent_def report_def split: option.splits)
  have "i < length (pollfds s)" "fd (pollfds s ! i) \<noteq> - 1"
    using pushed_index[OF assms(1) i(1)] by (auto simp: pending_def)
  then have "i < count s" using assms(1) unfolding poll_wf_def by (metis not_le)
  then have "pollfds s ! i \<in> set (live s)"
    using \<open>i < length (pollfds s)\<close> by (auto simp: live_def in_set_conv_nth)
  then show ?thesis using i(2) by (auto simp: watched_None_iff)
qed

lemma set_revents_nth:
  assumes "length rs \<le> length es" "j < length es"
  shows "set_revents es rs ! j = (if j < length rs then (es ! j)\<lparr>revents := rs ! j\<rparr> else es ! j)"
  using assms by (auto simp: set_revents_def nth_append)

lemma length_set_revents: "length rs \<le> length es \<Longrightarrow> length (set_revents es rs) = length es"
  by (simp add: set_revents_def)

lemma set_revents_same:
  assumes "poll_wf s" "p \<le> int MAX_WATCHED"
  shows "poll_wf (s\<lparr>pollfds := set_revents (pollfds s) (take (count s) rs), processed := p\<rparr>) \<and>
    watched (s\<lparr>pollfds := set_revents (pollfds s) (take (count s) rs), processed := p\<rparr>) = watched s"
proof -
  have "length (take (count s) rs) \<le> length (pollfds s)" using assms(1) by (auto simp: poll_wf_def)
  then show ?thesis
    using assms by (intro same_watch) (auto simp: length_set_revents set_revents_nth)
qed

lemma poll_Lwait_same:
  assumes "poll_wf s" "poll_Lwait strerror sys_poll s timeout = Inr (s', r)"
  shows "poll_wf s' \<and> watched s' = watched s \<and> (\<forall>f rs. r = LInt f # rs \<longrightarrow> watched s f \<noteq> None)"
proof -
  obtain s1 r1 where push: "poll_Lpushevent s = (s1, r1)" by (cases "poll_Lpushevent s") auto
  have s1: "poll_wf s1" "watched s1 = watched s" using poll_Lpushevent_same[OF assms(1)] push by auto
  show ?thesis
  proof (cases r1)
    case (Cons x xs)
    then have "s' = s1" "r = r1" using assms(2) push by (auto simp: poll_Lwait_def)
    then show ?thesis using s1 push poll_Lpushevent_watched[OF assms(1)] by auto
  next
    case Nil
    obtain ret err revs where sys: "sys_poll (take (count s1) (pollfds s1)) \<lfloor>timeout * 1000\<rfloor> = (ret, err, revs)"
      by (metis prod.exhaust)
    let ?s2 = "s1\<lparr>pollfds := set_revents (pollfds s1) (take (count s1) revs)\<rparr>"
    let ?s3 = "?s2\<lparr>processed := int (count s1)\<rparr>"
    have s2: "poll_wf ?s2 \<and> watched ?s2 = watched s1"
      using set_revents_same[OF s1(1), of "processed s1" revs] s1(1) by (simp add: poll_wf_def)
    have s3: "poll_wf ?s3 \<and> watched ?s3 = watched s1"
      using set_revents_same[OF s1(1), of "int (count s1)" revs] s1(1) by (simp add: poll_wf_def)
    have "(s' = s1 \<or> s' = ?s2) \<and> (\<exists>xs. r = LNil # xs) \<or> (s', r) = poll_Lpushevent ?s3"
      using assms(2) push Nil sys
      by (auto simp: poll_Lwait_def Let_def fail_errno_def split: if_splits)
    then show ?thesis
    proof
      assume "(s', r) = poll_Lpushevent ?s3"
      then show ?thesis
        using poll_Lpushevent_same[of ?s3] poll_Lpushevent_watched[of ?s3 s'] s1(2) s3 by (metis fst_conv)
    qed (use s1 s2 in auto)
  qed
qed

text \<open>A wait is given by the behaviour of the system call and the timeout.\<close>

definition poll_wait_op ::
  "(errno \<Rightarrow> bytes) \<Rightarrow> (pollfd list \<Rightarrow> int \<Rightarrow> int \<times> errno \<times> 16 word list) \<times> rat \<Rightarrow> poll_state
    \<Rightarrow> (poll_state \<times> lua_value list) outcome" where
  "poll_wait_op strerror w s = poll_Lwait strerror (fst w) s (snd w)"

interpretation pollw: wait_backend poll_wf "\<lambda>_. True" watched "poll_step strerror"
  "interest_step strerror False (Some MAX_WATCHED)" strerror False "Some MAX_WATCHED" id
  "poll_wait_op strerror" "\<lambda>_. True" for strerror
proof unfold_locales
  fix c w c' r
  assume "poll_wf c" "poll_wait_op strerror w c = Inr (c', r)"
  from poll_Lwait_same[OF this[unfolded poll_wait_op_def]]
  show "poll_wf c' \<and> watched c' = watched c \<and> event_watched (watched c) (Inr r)"
    by (simp add: event_watched_def split: list.split lua_value.split)
qed

text \<open>The states a context can be in: any interleaving of calls, with any answers of the kernel.\<close>

inductive poll_reachable :: "(errno \<Rightarrow> bytes) \<Rightarrow> poll_state \<Rightarrow> bool" for strerror where
  new: "poll_reachable strerror poll_Lnew"
| op: "poll_reachable strerror s \<Longrightarrow> poll_reachable strerror (fst (poll_step strerror s p))"
| wait: "poll_reachable strerror s \<Longrightarrow> poll_Lwait strerror sys_poll s timeout = Inr (s', r) \<Longrightarrow>
    poll_reachable strerror s'"

lemma poll_reachable_wf: "poll_reachable strerror s \<Longrightarrow> poll_wf s"
  by (induction rule: poll_reachable.induct)
    (auto simp: poll_Lnew_wf dest: poll_Lwait_same refines_all simp: refines_step_def)

text \<open>
  Whatever calls came before and whatever the kernel answered, an event that
  \<^verbatim>\<open>wait\<close> returns is for a descriptor that is being watched at that moment: no event
  survives the removal of its descriptor. Waiting never changes what is watched.
\<close>

theorem poll_events_only_for_watched:
  assumes "poll_reachable strerror s" and "poll_Lwait strerror sys_poll s timeout = Inr (s', r)"
  shows "watched s' = watched s \<and> (\<forall>f rs. r = LInt f # rs \<longrightarrow> watched s f \<noteq> None)"
  using poll_Lwait_same[OF poll_reachable_wf[OF assms(1)] assms(2)] by simp

lemma poll_example:
  fixes s :: poll_state
  defines "s \<equiv> fst (poll_step (\<lambda>_. []) poll_Lnew (Add 5 True False))"
  shows "live s = [\<lparr>fd = 5, events = 1, revents = 0\<rparr>]" "count s = 1" "poll_Lpushevent s = (s, [])"
    "\<exists>s'. poll_Lwait (\<lambda>_. []) (\<lambda>_ _. (1, 0, [1])) s 1 = Inr (s', [LInt 5, LBool True, LBool False])"
proof -
  have s: "s = poll_Lnew\<lparr>pollfds := (pollfds poll_Lnew)[0 := \<lparr>fd = 5, events = 1, revents = 0\<rparr>], count := 1\<rparr>"
    by (simp add: s_def poll_Ladd_def to_int_range search_fd.simps poll_Lnew_def want_mask_def MAX_WATCHED_def
        del: replicate.simps)
  have len: "length (pollfds poll_Lnew) = MAX_WATCHED" by (simp add: poll_Lnew_def)
  then obtain e es where es: "pollfds poll_Lnew = e # es" by (cases "pollfds poll_Lnew") (simp_all add: MAX_WATCHED_def)
  show "live s = [\<lparr>fd = 5, events = 1, revents = 0\<rparr>]" "count s = 1" "poll_Lpushevent s = (s, [])"
    by (simp_all add: s live_def es poll_Lpushevent_def) (simp add: poll_Lnew_def)
  then show "\<exists>s'. poll_Lwait (\<lambda>_. []) (\<lambda>_ _. (1, 0, [1])) s 1 = Inr (s', [LInt 5, LBool True, LBool False])"
    by (simp add: poll_Lwait_def poll_Lpushevent_def report_def set_revents_def s es)
qed

theorem poll_events_only_for_watched_witness:
  "watched (fst (poll_step (\<lambda>_. []) poll_Lnew (Add 5 True False))) 5 \<noteq> None"
proof -
  let ?s = "fst (poll_step (\<lambda>_. []) poll_Lnew (Add 5 True False))"
  have reach: "poll_reachable (\<lambda>_. []) ?s" by (intro poll_reachable.op poll_reachable.new)
  obtain s' where w: "poll_Lwait (\<lambda>_. []) (\<lambda>_ _. (1, 0, [1])) ?s 1 = Inr (s', [LInt 5, LBool True, LBool False])"
    using poll_example(4) by blast
  show ?thesis using poll_events_only_for_watched[OF reach w] by blast
qed

text \<open>
  C21: After a successful poll(2), \<^verbatim>\<open>wait\<close> hands out the ready descriptors one by one:
  the first result and those that later calls return without asking the kernel again are
  exactly the watched descriptors with a non-zero \<^verbatim>\<open>revents\<close>, each once, from the last
  entry of the array to the first.
\<close>

theorem poll_wait_delivers_each_event_once:
  assumes "poll_wf s" and "poll_Lpushevent s = (s, [])" and "0 < timeout" "\<lfloor>timeout * 1000\<rfloor> < 2 ^ 31"
    and "sys_poll (live s) \<lfloor>timeout * 1000\<rfloor> = (ret, err, revs)" "0 < ret" "length revs = count s"
  shows "\<exists>s' r. poll_Lwait strerror sys_poll s timeout = Inr (s', r) \<and>
    (if r = [] then [] else r # drain MAX_WATCHED s') =
      map report (filter (\<lambda>e. revents e \<noteq> 0) (rev (map2 (\<lambda>e v. e\<lparr>revents := v\<rparr>) (live s) revs)))"
proof -
  let ?s2 = "s\<lparr>pollfds := set_revents (pollfds s) revs\<rparr>"
  let ?s3 = "?s2\<lparr>processed := int (count s)\<rparr>"
  let ?new = "map2 (\<lambda>e v. e\<lparr>revents := v\<rparr>) (live s) revs"
  obtain s' r where push: "poll_Lpushevent ?s3 = (s', r)" by (cases "poll_Lpushevent ?s3") auto
  have "poll_Lwait strerror sys_poll s timeout = Inr (s', r)"
    using assms push by (simp add: poll_Lwait_def live_def Let_def not_le)
  moreover have "(if r = [] then [] else r # drain MAX_WATCHED s') = drain (Suc MAX_WATCHED) ?s3"
    using push by (cases r) auto
  moreover have len: "count s \<le> length (pollfds s)" "length (pollfds s) = MAX_WATCHED"
    using assms(1) by (auto simp: poll_wf_def)
  moreover have "take (count s) (set_revents (pollfds s) revs) = ?new"
    using len assms(7) by (simp add: set_revents_def live_def)
  ultimately have "(if r = [] then [] else r # drain MAX_WATCHED s') = map report (filter pending (rev ?new))"
    using drain_eq[of ?s3 "Suc MAX_WATCHED"] assms(7) by (simp add: length_set_revents)
  moreover have "filter pending (rev ?new) = filter (\<lambda>e. revents e \<noteq> 0) (rev ?new)"
  proof (rule filter_cong)
    fix e assume "e \<in> set (rev ?new)"
    then obtain e0 where "e0 \<in> set (live s)" "fd e = fd e0" by (auto dest: set_zip_leftD)
    then have "fd e \<noteq> - 1" using assms(1) by (auto simp: poll_wf_def)
    then show "pending e \<longleftrightarrow> revents e \<noteq> 0" by (simp add: pending_def)
  qed simp
  ultimately show ?thesis using \<open>poll_Lwait strerror sys_poll s timeout = Inr (s', r)\<close> by auto
qed

theorem poll_wait_delivers_each_event_once_witness:
  "\<exists>s s' r. poll_Lwait (\<lambda>_. []) (\<lambda>_ _. (1, 0, [1])) s 1 = Inr (s', r) \<and>
    (if r = [] then [] else r # drain MAX_WATCHED s') = [[LInt 5, LBool True, LBool False]]"
proof -
  let ?s = "fst (poll_step (\<lambda>_. []) poll_Lnew (Add 5 True False))"
  have wf: "poll_wf ?s" using refines_all[OF poll_Lnew_wf(1)] unfolding refines_step_def by blast
  note live = poll_example(1) and push = poll_example(3)
  have "count ?s = 1" by (rule poll_example(2))
  then obtain s' r where "poll_Lwait (\<lambda>_. []) (\<lambda>_ _. (1, 0, [1])) ?s 1 = Inr (s', r)"
    "(if r = [] then [] else r # drain MAX_WATCHED s') =
      map report (filter (\<lambda>e. revents e \<noteq> 0) (rev (map2 (\<lambda>e v. e\<lparr>revents := v\<rparr>) (live ?s) [1])))"
    using poll_wait_delivers_each_event_once[OF wf push, of 1 "\<lambda>_ _. (1, 0, [1])" 1 0 "[1]" "\<lambda>_. []"] by auto
  then show ?thesis unfolding live by (intro exI[of _ ?s] exI[of _ s'] exI[of _ r]) (simp add: report_def)
qed

end
