(* ===== verification/Poll_Select.thy ===== *)
theory Poll_Select
  imports Poll_Common
begin

text \<open>
  The select(2) back end of \<^verbatim>\<open>util-src/poll.c\<close>: six sets of descriptors. The macros on
  an \<^verbatim>\<open>fd_set\<close> are defined for descriptors from 0 to \<^verbatim>\<open>FD_SETSIZE - 1\<close>; any
  other argument accesses memory outside the set.
\<close>

section \<open>State and operations\<close>

definition FD_SETSIZE :: int where "FD_SETSIZE = 1024"

record select_state =
  processed :: int
  wantread :: "int set"
  wantwrite :: "int set"
  readable :: "int set"
  writable :: "int set"
  all_fds :: "int set"
  err_fds :: "int set"

definition fd_ok :: "int \<Rightarrow> bool" where
  "fd_ok f \<longleftrightarrow> 0 \<le> f \<and> f < FD_SETSIZE"

definition fd_guard :: "int \<Rightarrow> 'a outcome \<Rightarrow> 'a outcome" where
  "fd_guard f r = (if fd_ok f then r else Inl (Undefined ''descriptor outside fd_set''))"

text \<open>\<^verbatim>\<open>FD_SET\<close> or \<^verbatim>\<open>FD_CLR\<close>.\<close>

definition fd_assign :: "bool \<Rightarrow> int \<Rightarrow> int set \<Rightarrow> int set" where
  "fd_assign b f A = (if b then insert f A else A - {f})"

definition select_Ladd ::
  "(errno \<Rightarrow> bytes) \<Rightarrow> select_state \<Rightarrow> int \<Rightarrow> bool \<Rightarrow> bool \<Rightarrow> (select_state \<times> lua_value list) outcome" where
  "select_Ladd strerror state i rd wr =
     (let f = to_int i in
      if f < 0 then Inr (state, fail_errno strerror EBADF)
      else if f > FD_SETSIZE then Inr (state, fail_errno strerror EBADF)
      else fd_guard f
        (if f \<in> all_fds state then Inr (state, fail_errno strerror EEXIST)
         else Inr (state\<lparr>readable := readable state - {f}, writable := writable state - {f},
                         err_fds := err_fds state - {f}, all_fds := insert f (all_fds state),
                         wantread := fd_assign rd f (wantread state),
                         wantwrite := fd_assign wr f (wantwrite state)\<rparr>, [LBool True])))"

definition select_Lset ::
  "(errno \<Rightarrow> bytes) \<Rightarrow> select_state \<Rightarrow> int \<Rightarrow> bool option \<Rightarrow> bool option \<Rightarrow> (select_state \<times> lua_value list) outcome"
where
  "select_Lset strerror state i arg3 arg4 =
     (let f = to_int i in
      fd_guard f
        (if f \<notin> all_fds state then Inr (state, fail_errno strerror ENOENT)
         else Inr (state\<lparr>wantread := (case arg3 of None \<Rightarrow> wantread state | Some b \<Rightarrow> fd_assign b f (wantread state)),
                         wantwrite := (case arg4 of None \<Rightarrow> wantwrite state | Some b \<Rightarrow> fd_assign b f (wantwrite state))\<rparr>,
                   [LBool True])))"

definition select_Ldel ::
  "(errno \<Rightarrow> bytes) \<Rightarrow> select_state \<Rightarrow> int \<Rightarrow> (select_state \<times> lua_value list) outcome" where
  "select_Ldel strerror state i =
     (let f = to_int i in
      fd_guard f
        (if f \<notin> all_fds state then Inr (state, fail_errno strerror ENOENT)
         else Inr (state\<lparr>wantread := wantread state - {f}, wantwrite := wantwrite state - {f},
                         readable := readable state - {f}, writable := writable state - {f},
                         all_fds := all_fds state - {f}, err_fds := err_fds state - {f}\<rparr>, [LBool True])))"

text \<open>The loop of \<^verbatim>\<open>Lpushevent\<close>: the first descriptor from \<open>f\<close> on with an event.\<close>

function next_ready :: "select_state \<Rightarrow> int \<Rightarrow> int option" where
  "next_ready state f =
     (if f < FD_SETSIZE then
        if f \<in> readable state \<or> f \<in> writable state \<or> f \<in> err_fds state then Some f
        else next_ready state (f + 1)
      else None)"
  by pat_completeness auto
termination by (relation "measure (\<lambda>(s, f). nat (FD_SETSIZE - f))") auto

declare next_ready.simps [simp del]

definition select_Lpushevent :: "select_state \<Rightarrow> select_state \<times> lua_value list" where
  "select_Lpushevent state =
     (case next_ready state (processed state + 1) of
        Some f \<Rightarrow>
          (state\<lparr>readable := readable state - {f}, writable := writable state - {f},
                 err_fds := err_fds state - {f}, processed := f\<rparr>,
           [LInt f, LBool (f \<in> readable state \<or> f \<in> err_fds state), LBool (f \<in> writable state)])
      | None \<Rightarrow> (state, []))"

text \<open>
  \<open>sys_select\<close> gets the three sets and the timeout in microseconds and gives the return
  value, the error number and the three sets as it leaves them.
\<close>

type_synonym select_call =
  "int set \<Rightarrow> int set \<Rightarrow> int set \<Rightarrow> int \<Rightarrow> int \<times> errno \<times> int set \<times> int set \<times> int set"

definition select_Lwait ::
  "(errno \<Rightarrow> bytes) \<Rightarrow> select_call \<Rightarrow> select_state \<Rightarrow> rat \<Rightarrow> (select_state \<times> lua_value list) outcome" where
  "select_Lwait strerror sys_select state timeout =
     (case select_Lpushevent state of
        (state1, r # rs) \<Rightarrow> Inr (state1, r # rs)
      | (state1, []) \<Rightarrow>
          (if \<not> timeout \<ge> 0 then Inl (ArgError 1 ''positive number expected'')
           else if timeout = 0 then Inr (state1, [LNil, LStr (ascii ''timeout'')])
           else if \<lfloor>timeout * 1000000\<rfloor> \<ge> 2 ^ 63 then Inl (Undefined ''conversion out of range'')
           else case sys_select (wantread state1) (wantwrite state1) (all_fds state1) \<lfloor>timeout * 1000000\<rfloor> of
             (ret, err, rds, wrs, ers) \<Rightarrow>
             (let state2 = state1\<lparr>readable := rds, writable := wrs, err_fds := ers\<rparr> in
              if ret = 0 then Inr (state2, [LNil, LStr (ascii ''timeout'')])
              else if ret < 0 \<and> err = EINTR then Inr (state2, [LNil, LStr (ascii ''signal'')])
              else if ret < 0 then Inr (state2, fail_errno strerror err)
              else Inr (select_Lpushevent (state2\<lparr>processed := - 1\<rparr>)))))"

definition select_Lnew :: select_state where
  "select_Lnew = \<lparr>processed = FD_SETSIZE, wantread = {}, wantwrite = {}, readable = {}, writable = {},
     all_fds = {}, err_fds = {}\<rparr>"

text \<open>A call that is undefined for its argument leaves the model: the next section excludes it.\<close>

fun select_call_op ::
  "(errno \<Rightarrow> bytes) \<Rightarrow> select_state \<Rightarrow> watch_op \<Rightarrow> (select_state \<times> lua_value list) outcome" where
  "select_call_op strerror s (Add i r w) = select_Ladd strerror s i r w"
| "select_call_op strerror s (Set i r w) = select_Lset strerror s i r w"
| "select_call_op strerror s (Del i) = select_Ldel strerror s i"

definition select_step ::
  "(errno \<Rightarrow> bytes) \<Rightarrow> select_state \<Rightarrow> watch_op \<Rightarrow> select_state \<times> lua_value list outcome" where
  "select_step strerror s p =
     (case select_call_op strerror s p of Inl e \<Rightarrow> (s, Inl e) | Inr (s', r) \<Rightarrow> (s', Inr r))"

section \<open>Refinement of the interest map\<close>

definition select_wf :: "select_state \<Rightarrow> bool" where
  "select_wf s \<longleftrightarrow> (\<forall>f \<in> all_fds s. fd_ok f) \<and> wantread s \<subseteq> all_fds s \<and> wantwrite s \<subseteq> all_fds s
     \<and> readable s \<subseteq> all_fds s \<and> writable s \<subseteq> all_fds s \<and> err_fds s \<subseteq> all_fds s"

definition select_watched :: "select_state \<Rightarrow> interest" where
  "select_watched s = (\<lambda>f. if f \<in> all_fds s then Some (f \<in> wantread s, f \<in> wantwrite s) else None)"

definition fd_arg_ok :: "watch_op \<Rightarrow> bool" where
  "fd_arg_ok p \<longleftrightarrow> fd_ok (op_fd p)"

definition interest_step_total ::
  "(errno \<Rightarrow> bytes) \<Rightarrow> interest \<Rightarrow> watch_op \<Rightarrow> interest \<times> lua_value list outcome" where
  "interest_step_total strerror m p =
     (case interest_step strerror True None m p of (m', r) \<Rightarrow> (m', Inr r))"

lemmas select_defs = select_step_def select_Ladd_def select_Lset_def select_Ldel_def
  interest_step_total_def fd_arg_ok_def fd_guard_def fd_assign_def Let_def

lemma select_Lnew_wf: "select_wf select_Lnew" "select_watched select_Lnew = Map.empty"
  by (simp_all add: select_wf_def select_Lnew_def select_watched_def)

lemma select_step_wf:
  "select_wf s \<Longrightarrow> fd_arg_ok p \<Longrightarrow> select_wf (fst (select_step strerror s p))"
  by (cases p) (auto simp: select_wf_def select_defs split: option.splits)

lemma select_step_watched:
  assumes "select_wf s" "fd_arg_ok p"
  shows "interest_step_total strerror (select_watched s) p =
    (select_watched (fst (select_step strerror s p)), snd (select_step strerror s p))"
proof (cases p)
  case (Add i r w)
  then show ?thesis
    using assms by (auto simp: select_defs select_watched_def fd_ok_def fun_eq_iff)
next
  case (Set i r w)
  then show ?thesis
    using assms by (auto simp: select_defs select_watched_def new_flag_def fun_eq_iff split: option.splits)
next
  case (Del i)
  then show ?thesis
    using assms by (auto simp: select_defs select_watched_def fun_eq_iff)
qed

interpretation selb: watch_backend select_wf fd_arg_ok select_watched "select_step strerror"
  "interest_step_total strerror" strerror True None Inr for strerror
proof unfold_locales
  show "interest_step_total strerror m p = apsnd Inr (interest_step strerror True None m p)" for m p
    by (simp add: interest_step_total_def split: prod.splits)
qed (auto intro: select_step_wf select_step_watched)

text \<open>
  C28: On descriptors from 0 to 1023 every sequence of \<^verbatim>\<open>add\<close>, \<^verbatim>\<open>set\<close> and
  \<^verbatim>\<open>del\<close> calls on a new select(2) context returns what an unbounded map of watched
  descriptors returns; an absent flag of \<^verbatim>\<open>set\<close> keeps the old wish here.
\<close>

theorem select_backend_refines_interest:
  assumes "list_all fd_arg_ok ops"
  shows "run_ops (interest_step_total strerror) Map.empty ops =
    (select_watched (fst (run_ops (select_step strerror) select_Lnew ops)),
     snd (run_ops (select_step strerror) select_Lnew ops))"
  using selb.run_refines[OF select_Lnew_wf(1) assms, of strerror] by (simp add: select_Lnew_wf(2))

theorem select_backend_refines_interest_witness:
  "run_ops (interest_step_total (\<lambda>_. [])) Map.empty [Add 3 True False, Set 3 None (Some True), Del 3] =
    (select_watched (fst (run_ops (select_step (\<lambda>_. [])) select_Lnew [Add 3 True False, Set 3 None (Some True), Del 3])),
     snd (run_ops (select_step (\<lambda>_. [])) select_Lnew [Add 3 True False, Set 3 None (Some True), Del 3]))"
  by (rule select_backend_refines_interest) (simp add: fd_arg_ok_def to_int_range fd_ok_def FD_SETSIZE_def)

section \<open>Waiting\<close>

lemma next_ready_Some:
  "next_ready s f = Some g \<Longrightarrow> f \<le> g \<and> g < FD_SETSIZE \<and> (g \<in> readable s \<or> g \<in> writable s \<or> g \<in> err_fds s)"
proof (induction s f rule: next_ready.induct)
  case (1 s f)
  then show ?case by (subst (asm) next_ready.simps) (auto split: if_splits)
qed

lemma select_Lpushevent_wf:
  assumes "select_wf s" and "select_Lpushevent s = (s', r)"
  shows "select_wf s' \<and> select_watched s' = select_watched s \<and> event_watched (select_watched s) (Inr r)"
proof (cases "next_ready s (processed s + 1)")
  case None
  then show ?thesis using assms by (auto simp: select_Lpushevent_def event_watched_def)
next
  case (Some f)
  then have "f \<in> all_fds s" using next_ready_Some assms(1) unfolding select_wf_def by blast
  then show ?thesis
    using assms Some by (auto simp: select_Lpushevent_def event_watched_def select_wf_def select_watched_def)
qed

text \<open>
  What select(2) documents of the sets: it leaves subsets of those that it is given. A wait is
  given by the behaviour of the call and the timeout.
\<close>

definition select_documented :: "select_call \<times> rat \<Rightarrow> bool" where
  "select_documented w \<longleftrightarrow>
     (\<forall>R W E t. case fst w R W E t of (ret, err, R', W', E') \<Rightarrow> R' \<subseteq> R \<and> W' \<subseteq> W \<and> E' \<subseteq> E)"

definition select_wait_op ::
  "(errno \<Rightarrow> bytes) \<Rightarrow> select_call \<times> rat \<Rightarrow> select_state \<Rightarrow> (select_state \<times> lua_value list) outcome" where
  "select_wait_op strerror w s = select_Lwait strerror (fst w) s (snd w)"

lemma select_wait_wf:
  assumes "select_wf s" "select_documented w" "select_wait_op strerror w s = Inr (s', r)"
  shows "select_wf s' \<and> select_watched s' = select_watched s \<and> event_watched (select_watched s) (Inr r)"
proof -
  obtain s1 r1 where push: "select_Lpushevent s = (s1, r1)" by (cases "select_Lpushevent s") auto
  note wf1 = select_Lpushevent_wf[OF assms(1) push]
  show ?thesis
  proof (cases r1)
    case (Cons x xs)
    then show ?thesis using assms(3) push wf1 by (auto simp: select_wait_op_def select_Lwait_def)
  next
    case Nil
    then have "s1 = s" using push by (auto simp: select_Lpushevent_def split: option.splits)
    obtain ret err R W E where sys:
      "fst w (wantread s) (wantwrite s) (all_fds s) \<lfloor>snd w * 1000000\<rfloor> = (ret, err, R, W, E)"
      by (metis prod.exhaust)
    then have sub: "R \<subseteq> wantread s \<and> W \<subseteq> wantwrite s \<and> E \<subseteq> all_fds s"
      using assms(2)[unfolded select_documented_def, rule_format, of "wantread s" "wantwrite s" "all_fds s"
          "\<lfloor>snd w * 1000000\<rfloor>"] by simp
    let ?s2 = "s\<lparr>readable := R, writable := W, err_fds := E\<rparr>"
    have s2: "select_wf ?s2" "select_watched ?s2 = select_watched s"
      using sub assms(1) by (auto simp: select_wf_def select_watched_def)
    then have s3: "select_wf (?s2\<lparr>processed := - 1\<rparr>)" "select_watched (?s2\<lparr>processed := - 1\<rparr>) = select_watched s"
      by (auto simp: select_wf_def select_watched_def)
    have "(s' = s \<or> s' = ?s2) \<and> (\<exists>xs. r = LNil # xs) \<or> select_Lpushevent (?s2\<lparr>processed := - 1\<rparr>) = (s', r)"
      using assms(3) push Nil sys \<open>s1 = s\<close>
      by (auto simp: select_wait_op_def select_Lwait_def Let_def fail_errno_def split: if_splits)
    then show ?thesis
      using assms(1) s2 s3 select_Lpushevent_wf[OF s3(1)] by (auto simp: event_watched_def)
  qed
qed

interpretation selw: wait_backend select_wf fd_arg_ok select_watched "select_step strerror"
  "interest_step_total strerror" strerror True None Inr "select_wait_op strerror" select_documented for strerror
  by unfold_locales (rule select_wait_wf)

text \<open>The events that \<^verbatim>\<open>Lwait\<close> hands out without a system call.\<close>

fun select_drain :: "nat \<Rightarrow> select_state \<Rightarrow> lua_value list list" where
  "select_drain 0 s = []"
| "select_drain (Suc n) s =
     (case select_Lpushevent s of (s', []) \<Rightarrow> [] | (s', r # rs) \<Rightarrow> (r # rs) # select_drain n s')"

definition select_ready :: "select_state \<Rightarrow> int \<Rightarrow> bool" where
  "select_ready s f \<longleftrightarrow> f \<in> readable s \<or> f \<in> writable s \<or> f \<in> err_fds s"

definition select_report :: "select_state \<Rightarrow> int \<Rightarrow> lua_value list" where
  "select_report s f = [LInt f, LBool (f \<in> readable s \<or> f \<in> err_fds s), LBool (f \<in> writable s)]"

lemma next_ready_filter:
  "f \<le> FD_SETSIZE \<Longrightarrow>
    (case next_ready s f of
       None \<Rightarrow> filter (select_ready s) [f..FD_SETSIZE - 1] = []
     | Some g \<Rightarrow> filter (select_ready s) [f..FD_SETSIZE - 1] = g # filter (select_ready s) [g + 1..FD_SETSIZE - 1])"
proof (induction s f rule: next_ready.induct)
  case (1 s f)
  show ?case
  proof (cases "f < FD_SETSIZE")
    case True
    then have "[f..FD_SETSIZE - 1] = f # [f + 1..FD_SETSIZE - 1]" by (simp add: upto_rec1)
    then show ?thesis
      using 1 True by (subst next_ready.simps) (auto simp: select_ready_def split: option.splits)
  qed (subst next_ready.simps, simp)
qed

lemma select_drain_eq:
  assumes "processed s < FD_SETSIZE" "nat (FD_SETSIZE - processed s) \<le> n"
  shows "select_drain n s = map (select_report s) (filter (select_ready s) [processed s + 1..FD_SETSIZE - 1])"
  using assms
proof (induction n arbitrary: s)
  case (Suc n)
  show ?case
  proof (cases "next_ready s (processed s + 1)")
    case None
    then show ?thesis using next_ready_filter[of "processed s + 1" s] Suc.prems by (simp add: select_Lpushevent_def)
  next
    case (Some f)
    let ?s = "s\<lparr>readable := readable s - {f}, writable := writable s - {f}, err_fds := err_fds s - {f}, processed := f\<rparr>"
    have f: "processed s < f" "f < FD_SETSIZE" using next_ready_Some[OF Some] by simp_all
    have "select_drain n ?s = map (select_report ?s) (filter (select_ready ?s) [f + 1..FD_SETSIZE - 1])"
      using Suc.prems f by (subst Suc.IH) auto
    also have "\<dots> = map (select_report s) (filter (select_ready s) [f + 1..FD_SETSIZE - 1])"
      by (intro map_cong filter_cong) (auto simp: select_report_def select_ready_def)
    finally show ?thesis
      using next_ready_filter[of "processed s + 1" s] Some Suc.prems(1) f
      by (simp add: select_Lpushevent_def select_report_def)
  qed
qed simp

text \<open>
  C32: After select(2) reported ready descriptors, this call of \<^verbatim>\<open>wait\<close> and the following ones
  return them one by one without asking the kernel again: each descriptor of the three sets once, in
  increasing order, with its flags.
\<close>

theorem select_wait_delivers_each_event_once:
  assumes "select_Lpushevent s = (s, [])" and "0 < timeout" "\<lfloor>timeout * 1000000\<rfloor> < 2 ^ 63"
    and "sys_select (wantread s) (wantwrite s) (all_fds s) \<lfloor>timeout * 1000000\<rfloor> = (ret, err, R, W, E)" "0 < ret"
  shows "\<exists>s' r. select_Lwait strerror sys_select s timeout = Inr (s', r) \<and>
    (if r = [] then [] else r # select_drain (nat FD_SETSIZE) s') =
      map (\<lambda>f. [LInt f, LBool (f \<in> R \<or> f \<in> E), LBool (f \<in> W)])
        (filter (\<lambda>f. f \<in> R \<or> f \<in> W \<or> f \<in> E) [0..FD_SETSIZE - 1])"
proof -
  let ?s = "s\<lparr>readable := R, writable := W, err_fds := E, processed := - 1\<rparr>"
  obtain s' r where push: "select_Lpushevent ?s = (s', r)" by (cases "select_Lpushevent ?s") auto
  have "select_Lwait strerror sys_select s timeout = Inr (s', r)"
    using assms push by (simp add: select_Lwait_def Let_def not_le)
  moreover have "(if r = [] then [] else r # select_drain n s') = select_drain (Suc n) ?s" for n
    using push by (cases r) auto
  moreover have "select_drain (Suc (nat FD_SETSIZE)) ?s = map (select_report ?s) (filter (select_ready ?s) [0..FD_SETSIZE - 1])"
    by (subst select_drain_eq) (simp_all add: FD_SETSIZE_def del: upto_rec_numeral)
  ultimately show ?thesis by (simp add: select_report_def[abs_def] select_ready_def[abs_def])
qed

theorem select_wait_delivers_each_event_once_witness:
  "\<exists>s' r. select_Lwait (\<lambda>_. []) (\<lambda>R W E t. (1, 0, {5}, {}, {})) (select_Lnew\<lparr>wantread := {5}, all_fds := {5}\<rparr>) 1 =
      Inr (s', r) \<and> (if r = [] then [] else r # select_drain (nat FD_SETSIZE) s') = [[LInt 5, LBool True, LBool False]]"
proof -
  have "select_Lpushevent (select_Lnew\<lparr>wantread := {5}, all_fds := {5}\<rparr>) =
      (select_Lnew\<lparr>wantread := {5}, all_fds := {5}\<rparr>, [])"
    by (simp add: select_Lpushevent_def select_Lnew_def next_ready.simps)
  note wait = select_wait_delivers_each_event_once[OF this, of 1 "\<lambda>R W E t. (1, 0, {5}, {}, {})" 1 0 "{5}" "{}" "{}" "\<lambda>_. []"]
  have "[0..FD_SETSIZE - 1] = [0..4] @ 5 # [6..FD_SETSIZE - 1]"
    using upto_split3[of 0 5 "FD_SETSIZE - 1"] by (simp add: FD_SETSIZE_def del: upto_rec_numeral)
  then have "filter (\<lambda>f. f = 5) [0..FD_SETSIZE - 1] = [5]" by (simp add: filter_empty_conv)
  then show ?thesis using wait by simp
qed

section \<open>Errors\<close>

text \<open>
  \<^verbatim>\<open>add\<close> rejects descriptors above \<^verbatim>\<open>FD_SETSIZE\<close> but lets \<^verbatim>\<open>FD_SETSIZE\<close>
  itself through, and \<^verbatim>\<open>set\<close> and \<^verbatim>\<open>del\<close> check no bound at all: the calls then
  access memory outside the \<^verbatim>\<open>fd_set\<close>.
\<close>

theorem select_fd_out_of_range:
  "select_Ladd strerror s 1024 rd wr = Inl (Undefined ''descriptor outside fd_set'') \<and>
   (\<not> fd_ok (to_int i) \<longrightarrow>
      select_Lset strerror s i a b = Inl (Undefined ''descriptor outside fd_set'') \<and>
      select_Ldel strerror s i = Inl (Undefined ''descriptor outside fd_set''))"
proof (intro conjI impI)
  show "select_Ladd strerror s 1024 rd wr = Inl (Undefined ''descriptor outside fd_set'')"
    by (simp add: select_Ladd_def fd_guard_def fd_ok_def FD_SETSIZE_def to_int_range)
qed (simp_all add: select_Lset_def select_Ldel_def fd_guard_def Let_def)

theorem select_fd_out_of_range_witness:
  "select_Ldel (\<lambda>_. []) select_Lnew (- 1) = Inl (Undefined ''descriptor outside fd_set'')"
proof -
  have "\<not> fd_ok (to_int (- 1))" by (simp add: fd_ok_def to_int_range)
  then show ?thesis using select_fd_out_of_range[of "\<lambda>_. []" select_Lnew False False "- 1" None None] by simp
qed

text \<open>
  A select(2) that is interrupted leaves the copied sets as they are and
  \<^verbatim>\<open>processed\<close> at the last descriptor reported. The next \<^verbatim>\<open>wait\<close> takes the copies for
  results: it reports the smallest watched descriptor above it as ready, without any call of
  the kernel, although nothing is known about it.
\<close>

theorem select_spurious_event_after_signal:
  assumes "select_Lpushevent s = (s, [])" and "0 < timeout" "\<lfloor>timeout * 1000000\<rfloor> < 2 ^ 63"
    and "sys_select (wantread s) (wantwrite s) (all_fds s) \<lfloor>timeout * 1000000\<rfloor> =
      (- 1, EINTR, wantread s, wantwrite s, all_fds s)"
    and "f \<in> all_fds s" "f < FD_SETSIZE" "processed s + 1 \<le> f"
    and "\<forall>g. processed s < g \<and> g < f \<longrightarrow> g \<notin> all_fds s \<and> g \<notin> wantread s \<and> g \<notin> wantwrite s"
  shows "\<exists>s'. select_Lwait strerror sys_select s timeout = Inr (s', [LNil, LStr (ascii ''signal'')]) \<and>
    (\<exists>s''. select_Lwait strerror sys_select2 s' timeout2 = Inr (s'', [LInt f, LBool True, LBool (f \<in> wantwrite s)]))"
proof -
  let ?s = "s\<lparr>readable := wantread s, writable := wantwrite s, err_fds := all_fds s\<rparr>"
  have next_f: "next_ready ?s g = Some f" if "processed s < g" "g \<le> f" for g
    using that
  proof (induction "nat (f - g)" arbitrary: g)
    case 0
    then show ?case using assms(5,6) by (subst next_ready.simps) auto
  next
    case (Suc n)
    then have "g < f" by simp
    moreover have "next_ready ?s (g + 1) = Some f" using Suc \<open>g < f\<close> by (intro Suc.hyps(1)) auto
    ultimately show ?case using assms(6,8) Suc.prems by (subst next_ready.simps) auto
  qed
  have "select_Lwait strerror sys_select s timeout = Inr (?s, [LNil, LStr (ascii ''signal'')])"
    using assms(1-4) by (simp add: select_Lwait_def EINTR_def not_le)
  moreover have "\<exists>s''. select_Lwait strerror sys_select2 ?s timeout2 =
      Inr (s'', [LInt f, LBool True, LBool (f \<in> wantwrite s)])"
    using next_f[of "processed s + 1"] assms(5,7)
    by (simp add: select_Lwait_def select_Lpushevent_def)
  ultimately show ?thesis by blast
qed

theorem select_spurious_event_after_signal_witness:
  "\<exists>s s' s''. select_Lwait (\<lambda>_. []) (\<lambda>r w e _. (- 1, EINTR, r, w, e)) s 1 =
      Inr (s', [LNil, LStr (ascii ''signal'')]) \<and>
    select_Lwait (\<lambda>_. []) (\<lambda>r w e _. (0, 0, {}, {}, {})) s' 1 = Inr (s'', [LInt 5, LBool True, LBool False])"
proof -
  let ?s = "\<lparr>processed = 4, wantread = {5}, wantwrite = {}, readable = {}, writable = {},
    all_fds = {5}, err_fds = {}\<rparr>"
  have none: "next_ready ?s f = None" for f
    by (induction "?s" f rule: next_ready.induct) (subst next_ready.simps, simp)
  show ?thesis
    using select_spurious_event_after_signal[of ?s 1 "\<lambda>r w e _. (- 1, EINTR, r, w, e)" 5 "\<lambda>_. []"
        "\<lambda>r w e _. (0, 0, {}, {}, {})" 1] none
    by (fastforce simp: select_Lpushevent_def FD_SETSIZE_def)
qed

end
