(* ===== verification/Poll_Epoll.thy ===== *)
theory Poll_Epoll
  imports Poll_Common
begin

text \<open>
  The epoll(7) back end of \<^verbatim>\<open>util-src/poll.c\<close>. The watched descriptors live in the
  kernel, whose state is of an arbitrary type; the system calls are functions on it. The
  context keeps the epoll descriptor and the events of the last \<^verbatim>\<open>epoll_wait\<close>.
\<close>

section \<open>State and operations\<close>

abbreviation EPOLLIN :: "32 word" where "EPOLLIN \<equiv> 0x1"
abbreviation EPOLLOUT :: "32 word" where "EPOLLOUT \<equiv> 0x4"
abbreviation EPOLLERR :: "32 word" where "EPOLLERR \<equiv> 0x8"
abbreviation EPOLLHUP :: "32 word" where "EPOLLHUP \<equiv> 0x10"
abbreviation EPOLLRDHUP :: "32 word" where "EPOLLRDHUP \<equiv> 0x2000"

definition MAX_EVENTS :: nat where "MAX_EVENTS = 256"

datatype ctl_op = EPOLL_CTL_ADD | EPOLL_CTL_MOD | EPOLL_CTL_DEL

record epoll_event =
  data_fd :: int
  ev_mask :: "32 word"

record 'k epoll_calls =
  epoll_create1 :: "'k \<Rightarrow> 'k \<times> int \<times> errno"
  epoll_ctl :: "'k \<Rightarrow> int \<Rightarrow> ctl_op \<Rightarrow> int \<Rightarrow> epoll_event \<Rightarrow> 'k \<times> int \<times> errno"
  epoll_wait :: "'k \<Rightarrow> int \<Rightarrow> nat \<Rightarrow> int \<Rightarrow> 'k \<times> int \<times> errno \<times> epoll_event list"
  close_fd :: "'k \<Rightarrow> int \<Rightarrow> 'k \<times> int \<times> errno"

record epoll_state =
  processed :: int
  epoll_fd :: int
  ep_events :: "epoll_event list"

definition want_events :: "bool \<Rightarrow> bool \<Rightarrow> 32 word" where
  "want_events wantread wantwrite =
     ((if wantread then EPOLLIN else 0) OR (if wantwrite then EPOLLOUT else 0))
       OR (EPOLLERR OR EPOLLHUP OR EPOLLRDHUP)"

definition epoll_Ladd ::
  "(errno \<Rightarrow> bytes) \<Rightarrow> 'k epoll_calls \<Rightarrow> 'k \<Rightarrow> epoll_state \<Rightarrow> int \<Rightarrow> bool \<Rightarrow> bool \<Rightarrow> 'k \<times> lua_value list" where
  "epoll_Ladd strerror sys k state i wantread wantwrite =
     (let f = to_int i in
      if f < 0 then (k, fail_errno strerror EBADF)
      else case epoll_ctl sys k (epoll_fd state) EPOLL_CTL_ADD f
                  \<lparr>data_fd = f, ev_mask = want_events wantread wantwrite\<rparr> of
        (k', ret, err) \<Rightarrow> if ret < 0 then (k', fail_errno strerror err) else (k', [LBool True]))"

definition epoll_Lset ::
  "(errno \<Rightarrow> bytes) \<Rightarrow> 'k epoll_calls \<Rightarrow> 'k \<Rightarrow> epoll_state \<Rightarrow> int \<Rightarrow> bool option \<Rightarrow> bool option
    \<Rightarrow> 'k \<times> lua_value list" where
  "epoll_Lset strerror sys k state i arg3 arg4 =
     (let f = to_int i; wantread = (arg3 = Some True); wantwrite = (arg4 = Some True) in
      case epoll_ctl sys k (epoll_fd state) EPOLL_CTL_MOD f
             \<lparr>data_fd = f, ev_mask = want_events wantread wantwrite\<rparr> of
        (k', ret, err) \<Rightarrow> if ret = 0 then (k', [LBool True]) else (k', fail_errno strerror err))"

text \<open>The event argument of a deletion is ignored by the kernel; its mask is not initialised.\<close>

definition epoll_Ldel ::
  "(errno \<Rightarrow> bytes) \<Rightarrow> 'k epoll_calls \<Rightarrow> 'k \<Rightarrow> epoll_state \<Rightarrow> int \<Rightarrow> 32 word \<Rightarrow> 'k \<times> lua_value list" where
  "epoll_Ldel strerror sys k state i junk =
     (let f = to_int i in
      case epoll_ctl sys k (epoll_fd state) EPOLL_CTL_DEL f \<lparr>data_fd = f, ev_mask = junk\<rparr> of
        (k', ret, err) \<Rightarrow> if ret = 0 then (k', [LBool True]) else (k', fail_errno strerror err))"

definition epoll_report :: "epoll_event \<Rightarrow> lua_value list" where
  "epoll_report e =
     [LInt (data_fd e),
      LBool (ev_mask e AND (EPOLLIN OR EPOLLHUP OR EPOLLRDHUP OR EPOLLERR) \<noteq> 0),
      LBool (ev_mask e AND EPOLLOUT \<noteq> 0)]"

definition epoll_Lpushevent :: "epoll_state \<Rightarrow> epoll_state \<times> lua_value list" where
  "epoll_Lpushevent state =
     (if processed state > 0 then
        let state' = state\<lparr>processed := processed state - 1\<rparr> in
        (state', epoll_report (ep_events state' ! nat (processed state')))
      else (state, []))"

text \<open>The kernel writes the events it returns over the beginning of the array.\<close>

definition overwrite :: "'a list \<Rightarrow> 'a list \<Rightarrow> 'a list" where
  "overwrite xs new = new @ drop (length new) xs"

definition epoll_Lwait ::
  "(errno \<Rightarrow> bytes) \<Rightarrow> 'k epoll_calls \<Rightarrow> 'k \<Rightarrow> epoll_state \<Rightarrow> rat
    \<Rightarrow> ('k \<times> epoll_state \<times> lua_value list) outcome" where
  "epoll_Lwait strerror sys k state timeout =
     (case epoll_Lpushevent state of
        (state1, r # rs) \<Rightarrow> Inr (k, state1, r # rs)
      | (state1, []) \<Rightarrow>
          (if \<not> timeout \<ge> 0 then Inl (ArgError 1 ''positive number expected'')
           else if timeout = 0 then Inr (k, state1, [LNil, LStr (ascii ''timeout'')])
           else if \<lfloor>timeout * 1000\<rfloor> \<ge> 2 ^ 31 then Inl (Undefined ''conversion out of range'')
           else case epoll_wait sys k (epoll_fd state1) MAX_EVENTS \<lfloor>timeout * 1000\<rfloor> of (k', ret, err, evs) \<Rightarrow>
             (let state2 = state1\<lparr>ep_events := overwrite (ep_events state1) evs\<rparr> in
              if ret = 0 then Inr (k', state2, [LNil, LStr (ascii ''timeout'')])
              else if ret < 0 \<and> err = EINTR then Inr (k', state2, [LNil, LStr (ascii ''signal'')])
              else if ret < 0 then Inr (k', state2, fail_errno strerror err)
              else case epoll_Lpushevent (state2\<lparr>processed := ret\<rparr>) of (state3, r) \<Rightarrow> Inr (k', state3, r))))"

definition epoll_Lgetfd :: "epoll_state \<Rightarrow> lua_value list" where
  "epoll_Lgetfd state = [LInt (epoll_fd state)]"

definition epoll_Lgc ::
  "'k epoll_calls \<Rightarrow> 'k \<Rightarrow> epoll_state \<Rightarrow> ('k \<times> epoll_state \<times> lua_value list) outcome" where
  "epoll_Lgc sys k state =
     (if epoll_fd state = - 1 then Inr (k, state, [])
      else case close_fd sys k (epoll_fd state) of (k', ret, err) \<Rightarrow>
        if ret = 0 then Inr (k', state\<lparr>epoll_fd := - 1\<rparr>, []) else Inl (LuaError ''close failed''))"

text \<open>
  The context is a userdata; \<open>None\<close> stands for the error result. The events array is
  allocated and not initialised.
\<close>

definition epoll_Lnew ::
  "(errno \<Rightarrow> bytes) \<Rightarrow> 'k epoll_calls \<Rightarrow> 'k \<Rightarrow> epoll_event list \<Rightarrow> 'k \<times> epoll_state option \<times> lua_value list" where
  "epoll_Lnew strerror sys k garbage =
     (case epoll_create1 sys k of (k', efd, err) \<Rightarrow>
        if efd \<le> 0 then (k', None, fail_errno strerror err)
        else (k', Some \<lparr>processed = 0, epoll_fd = efd, ep_events = garbage\<rparr>, [LUserdata 0]))"

fun epoll_step ::
  "(errno \<Rightarrow> bytes) \<Rightarrow> 'k epoll_calls \<Rightarrow> epoll_state \<Rightarrow> 32 word \<Rightarrow> 'k \<Rightarrow> watch_op \<Rightarrow> 'k \<times> lua_value list" where
  "epoll_step strerror sys state junk k (Add i r w) = epoll_Ladd strerror sys k state i r w"
| "epoll_step strerror sys state junk k (Set i r w) = epoll_Lset strerror sys k state i r w"
| "epoll_step strerror sys state junk k (Del i) = epoll_Ldel strerror sys k state i junk"

section \<open>Registration\<close>

text \<open>
  What epoll_ctl(2) documents, for the descriptors that \<open>usable\<close> describes (open and
  pollable): \<open>EEXIST\<close> for a registered descriptor, \<open>ENOENT\<close> for one that is not, and
  otherwise the registration of the mask.
\<close>

fun ctl_documented :: "('k \<Rightarrow> int \<rightharpoonup> 32 word) \<Rightarrow> 'k \<Rightarrow> ctl_op \<Rightarrow> int \<Rightarrow> 32 word \<Rightarrow> 'k \<times> int \<times> errno \<Rightarrow> bool" where
  "ctl_documented registered k EPOLL_CTL_ADD f m (k', ret, err) \<longleftrightarrow>
     (if registered k f = None then ret = 0 \<and> registered k' = (registered k)(f \<mapsto> m)
      else ret = - 1 \<and> err = EEXIST \<and> registered k' = registered k)"
| "ctl_documented registered k EPOLL_CTL_MOD f m (k', ret, err) \<longleftrightarrow>
     (if registered k f = None then ret = - 1 \<and> err = ENOENT \<and> registered k' = registered k
      else ret = 0 \<and> registered k' = (registered k)(f \<mapsto> m))"
| "ctl_documented registered k EPOLL_CTL_DEL f m (k', ret, err) \<longleftrightarrow>
     (if registered k f = None then ret = - 1 \<and> err = ENOENT \<and> registered k' = registered k
      else ret = 0 \<and> registered k' = (registered k)(f := None))"

definition epoll_ctl_documented ::
  "'k epoll_calls \<Rightarrow> int \<Rightarrow> (int \<Rightarrow> bool) \<Rightarrow> ('k \<Rightarrow> int \<rightharpoonup> 32 word) \<Rightarrow> bool" where
  "epoll_ctl_documented sys efd usable registered \<longleftrightarrow>
     (\<forall>k op f ev. usable f \<longrightarrow> ctl_documented registered k op f (ev_mask ev) (epoll_ctl sys k efd op f ev))"

definition epoll_watched :: "('k \<Rightarrow> int \<rightharpoonup> 32 word) \<Rightarrow> 'k \<Rightarrow> interest" where
  "epoll_watched registered k =
     (\<lambda>f. map_option (\<lambda>m. (m AND EPOLLIN \<noteq> 0, m AND EPOLLOUT \<noteq> 0)) (registered k f))"

fun epoll_arg_ok :: "(int \<Rightarrow> bool) \<Rightarrow> watch_op \<Rightarrow> bool" where
  "epoll_arg_ok usable (Add i r w) \<longleftrightarrow> to_int i \<ge> 0 \<longrightarrow> usable (to_int i)"
| "epoll_arg_ok usable (Set i r w) \<longleftrightarrow> usable (to_int i)"
| "epoll_arg_ok usable (Del i) \<longleftrightarrow> usable (to_int i)"

text \<open>A kernel that registers every descriptor and always has one event, for instances of the properties.\<close>

definition simple_kernel :: "(int \<rightharpoonup> 32 word) epoll_calls" where
  "simple_kernel =
     \<lparr>epoll_create1 = (\<lambda>k. (k, 4, 0)),
      epoll_ctl = (\<lambda>k efd op f ev.
        case op of
          EPOLL_CTL_ADD \<Rightarrow> if k f = None then (k(f \<mapsto> ev_mask ev), 0, 0) else (k, - 1, EEXIST)
        | EPOLL_CTL_MOD \<Rightarrow> if k f = None then (k, - 1, ENOENT) else (k(f \<mapsto> ev_mask ev), 0, 0)
        | EPOLL_CTL_DEL \<Rightarrow> if k f = None then (k, - 1, ENOENT) else (k(f := None), 0, 0)),
      epoll_wait = (\<lambda>k efd n t. (k, 1, 0, [\<lparr>data_fd = 5, ev_mask = EPOLLIN\<rparr>])),
      close_fd = (\<lambda>k f. (k, 0, 0))\<rparr>"

lemma simple_kernel_documented: "epoll_ctl_documented simple_kernel efd usable (\<lambda>k. k)"
  unfolding epoll_ctl_documented_def
proof (intro allI impI)
  fix k op f ev
  show "ctl_documented (\<lambda>k. k) k op f (ev_mask ev) (epoll_ctl simple_kernel k efd op f ev)"
    by (cases op) (simp_all add: simple_kernel_def)
qed

lemma want_events_bits:
  "want_events r w AND EPOLLIN \<noteq> 0 \<longleftrightarrow> r" "want_events r w AND EPOLLOUT \<noteq> 0 \<longleftrightarrow> w"
  by (simp_all add: want_events_def)

lemma epoll_backend:
  assumes doc: "epoll_ctl_documented sys (epoll_fd state) usable registered"
  shows "watch_backend (\<lambda>_. True) (epoll_arg_ok usable) (epoll_watched registered)
    (epoll_step strerror sys state junk) (interest_step strerror False None) strerror False None id"
proof unfold_locales
  fix k p assume ok: "epoll_arg_ok usable p"
  have flag: "new_flag False x b = (b = Some True)" for x b by (auto simp: new_flag_def split: option.splits)
  have doc': "usable f \<Longrightarrow> ctl_documented registered k op f (ev_mask ev) (epoll_ctl sys k (epoll_fd state) op f ev)"
    for op f ev using doc unfolding epoll_ctl_documented_def by blast
  show "interest_step strerror False None (epoll_watched registered k) p =
      (epoll_watched registered (fst (epoll_step strerror sys state junk k p)), snd (epoll_step strerror sys state junk k p))"
  proof (cases p)
    case (Add i r w)
    then show ?thesis
      using ok doc'[of "to_int i" EPOLL_CTL_ADD "\<lparr>data_fd = to_int i, ev_mask = want_events r w\<rparr>"]
      by (auto simp: epoll_Ladd_def Let_def epoll_watched_def want_events_bits fun_eq_iff
          split: prod.splits if_splits)
  next
    case (Set i r w)
    then show ?thesis
      using ok doc'[of "to_int i" EPOLL_CTL_MOD "\<lparr>data_fd = to_int i, ev_mask = want_events (r = Some True) (w = Some True)\<rparr>"]
      by (auto simp: epoll_Lset_def Let_def epoll_watched_def want_events_bits flag fun_eq_iff
          split: prod.splits if_splits)
  next
    case (Del i)
    then show ?thesis
      using ok doc'[of "to_int i" EPOLL_CTL_DEL "\<lparr>data_fd = to_int i, ev_mask = junk\<rparr>"]
      by (auto simp: epoll_Ldel_def Let_def epoll_watched_def fun_eq_iff split: prod.splits if_splits)
  qed
qed simp_all

lemma epoll_run_refines:
  assumes "epoll_ctl_documented sys (epoll_fd state) usable registered"
    and "list_all (epoll_arg_ok usable) ops"
  shows "run_ops (interest_step strerror False None) (epoll_watched registered k) ops =
    (epoll_watched registered (fst (run_ops (epoll_step strerror sys state junk) k ops)),
     snd (run_ops (epoll_step strerror sys state junk) k ops))"
  by (rule simulation.run_refines[OF watch_backend.axioms(1)[OF epoll_backend[OF assms(1)]] TrueI assms(2)])

text \<open>
  C29: With a kernel that follows the documentation of epoll_ctl(2), every sequence of
  \<^verbatim>\<open>add\<close>, \<^verbatim>\<open>set\<close> and \<^verbatim>\<open>del\<close> calls on an epoll context returns what a map of
  watched descriptors returns, for descriptors that epoll can watch (\<open>usable\<close>: open ones of a supported
  kind, other than its own), and the kernel ends up with exactly the wishes of that map.
\<close>

theorem epoll_backend_refines_interest:
  assumes "epoll_ctl_documented sys (epoll_fd state) usable registered"
    and "list_all (epoll_arg_ok usable) ops"
  shows "run_ops (interest_step strerror False None) (epoll_watched registered k) ops =
    (epoll_watched registered (fst (run_ops (epoll_step strerror sys state junk) k ops)),
     snd (run_ops (epoll_step strerror sys state junk) k ops))"
  by (rule epoll_run_refines[OF assms])

theorem epoll_backend_refines_interest_witness:
  "run_ops (interest_step (\<lambda>_. []) False None) (epoll_watched (\<lambda>k. k) Map.empty) [Add 5 True False, Del 6] =
    (epoll_watched (\<lambda>k. k) (fst (run_ops (epoll_step (\<lambda>_. []) simple_kernel
       \<lparr>processed = 0, epoll_fd = 4, ep_events = []\<rparr> 0) Map.empty [Add 5 True False, Del 6])),
     snd (run_ops (epoll_step (\<lambda>_. []) simple_kernel \<lparr>processed = 0, epoll_fd = 4, ep_events = []\<rparr> 0)
       Map.empty [Add 5 True False, Del 6]))"
  by (rule epoll_backend_refines_interest[where usable = "\<lambda>_. True"]) (simp_all add: simple_kernel_documented)

section \<open>Waiting\<close>

fun epoll_drain :: "nat \<Rightarrow> epoll_state \<Rightarrow> lua_value list list" where
  "epoll_drain 0 s = []"
| "epoll_drain (Suc n) s = (case epoll_Lpushevent s of (s', r) \<Rightarrow> r # epoll_drain n s')"

lemma epoll_drain_eq:
  "processed s = int n \<Longrightarrow> n \<le> length (ep_events s) \<Longrightarrow>
    epoll_drain n s = map epoll_report (rev (take n (ep_events s)))"
proof (induction n arbitrary: s)
  case (Suc n)
  then show ?case
    by (simp add: epoll_Lpushevent_def Let_def take_Suc_conv_app_nth)
qed simp

text \<open>
  C31: After \<^verbatim>\<open>epoll_wait\<close> returned \<open>n > 0\<close> events, this call of \<^verbatim>\<open>wait\<close> and the next
  \<open>n - 1\<close> calls return exactly these events, the last one first, without asking the kernel.
\<close>

theorem epoll_wait_delivers_each_event_once:
  assumes "processed s \<le> 0" and "0 < timeout" "\<lfloor>timeout * 1000\<rfloor> < 2 ^ 31"
    and "epoll_wait sys k (epoll_fd s) MAX_EVENTS \<lfloor>timeout * 1000\<rfloor> = (k', int (length evs), err, evs)" "evs \<noteq> []"
  shows "\<exists>s' r. epoll_Lwait strerror sys k s timeout = Inr (k', s', r) \<and>
    r # epoll_drain (length evs - 1) s' = map epoll_report (rev evs)"
proof -
  let ?s = "s\<lparr>ep_events := overwrite (ep_events s) evs, processed := int (length evs)\<rparr>"
  obtain s' r where push: "epoll_Lpushevent ?s = (s', r)" by (cases "epoll_Lpushevent ?s") auto
  have "epoll_Lwait strerror sys k s timeout = Inr (k', s', r)"
    using assms push by (simp add: epoll_Lwait_def epoll_Lpushevent_def Let_def not_le)
  moreover have "r # epoll_drain (length evs - 1) s' = epoll_drain (length evs) ?s"
    using push assms(5) by (cases "length evs") auto
  moreover have "epoll_drain (length evs) ?s = map epoll_report (rev evs)"
    by (subst epoll_drain_eq) (simp_all add: overwrite_def)
  ultimately show ?thesis by auto
qed

theorem epoll_wait_delivers_each_event_once_witness:
  "\<exists>s' r. epoll_Lwait (\<lambda>_. []) simple_kernel Map.empty \<lparr>processed = 0, epoll_fd = 4, ep_events = []\<rparr> 1 =
      Inr (Map.empty, s', r) \<and> r # epoll_drain 0 s' = [[LInt 5, LBool True, LBool False]]"
  using epoll_wait_delivers_each_event_once[of "\<lparr>processed = 0, epoll_fd = 4, ep_events = []\<rparr>" 1 simple_kernel Map.empty
      Map.empty "[\<lparr>data_fd = 5, ev_mask = EPOLLIN\<rparr>]" 0 "\<lambda>_. []"]
  by (simp add: simple_kernel_def epoll_report_def)

text \<open>
  \<^verbatim>\<open>del\<close> removes the descriptor from the kernel but not from the events that were
  fetched before: an event for a descriptor that has been removed successfully is still
  returned by the next \<^verbatim>\<open>wait\<close>.
\<close>

theorem epoll_stale_event_after_del:
  assumes "processed s = int (Suc n)" and "data_fd (ep_events s ! n) = to_int i"
    and "epoll_Ldel strerror sys k s i junk = (k', [LBool True])"
  shows "\<exists>s' a b. epoll_Lwait strerror sys k' s timeout = Inr (k', s', [LInt (to_int i), LBool a, LBool b])"
  using assms(1,2) by (simp add: epoll_Lwait_def epoll_Lpushevent_def Let_def epoll_report_def)

theorem epoll_stale_event_after_del_witness:
  "\<exists>s' a b. epoll_Lwait (\<lambda>_. []) simple_kernel Map.empty
      \<lparr>processed = 1, epoll_fd = 4, ep_events = [\<lparr>data_fd = 5, ev_mask = EPOLLIN\<rparr>]\<rparr> 1 =
    Inr (Map.empty, s', [LInt 5, LBool a, LBool b])"
  using epoll_stale_event_after_del[of "\<lparr>processed = 1, epoll_fd = 4, ep_events = [\<lparr>data_fd = 5, ev_mask = EPOLLIN\<rparr>]\<rparr>"
      0 5 "\<lambda>_. []" simple_kernel "[5 \<mapsto> 1]" 0 Map.empty 1]
  by (simp add: simple_kernel_def epoll_Ldel_def to_int_range)

section \<open>When no event is stale\<close>

text \<open>
  The loop state is that of the kernel and the context. The events that are still to be handed out are
  the first \<^verbatim>\<open>processed\<close> of the array.
\<close>

definition pending_fds :: "epoll_state \<Rightarrow> int set" where
  "pending_fds s = data_fd ` set (take (nat (processed s)) (ep_events s))"

text \<open>
  What epoll_wait(2) documents: a positive result is the number of events, the events are those of
  registered descriptors with the data given at the registration, and waiting changes no registration.
\<close>

definition epoll_wait_documented ::
  "'k epoll_calls \<Rightarrow> int \<Rightarrow> ('k \<Rightarrow> int \<rightharpoonup> 32 word) \<Rightarrow> bool" where
  "epoll_wait_documented sys efd registered \<longleftrightarrow>
     (\<forall>k n t. case epoll_wait sys k efd n t of (k', ret, err, evs) \<Rightarrow>
        registered k' = registered k \<and>
        (if 0 < ret then ret = int (length evs) \<and> (\<forall>e \<in> set evs. registered k (data_fd e) \<noteq> None)
         else evs = []))"

datatype epoll_op = Register watch_op | Wait_for rat

text \<open>
  A run in which a descriptor is removed only when no event for it is waiting. The results are those
  of the waits, each with the descriptors that are registered when it returns.
\<close>

fun epoll_loop ::
  "(errno \<Rightarrow> bytes) \<Rightarrow> 'k epoll_calls \<Rightarrow> 32 word \<Rightarrow> ('k \<Rightarrow> int \<rightharpoonup> 32 word) \<Rightarrow> 'k \<Rightarrow> epoll_state \<Rightarrow> epoll_op list
    \<Rightarrow> ((int \<rightharpoonup> 32 word) \<times> lua_value list) list" where
  "epoll_loop strerror sys junk registered k s [] = []"
| "epoll_loop strerror sys junk registered k s (Register p # ops) =
     epoll_loop strerror sys junk registered (fst (epoll_step strerror sys s junk k p)) s ops"
| "epoll_loop strerror sys junk registered k s (Wait_for t # ops) =
     (case epoll_Lwait strerror sys k s t of
        Inl e \<Rightarrow> epoll_loop strerror sys junk registered k s ops
      | Inr (k', s', r) \<Rightarrow> (registered k', r) # epoll_loop strerror sys junk registered k' s' ops)"

fun drained_dels ::
  "(errno \<Rightarrow> bytes) \<Rightarrow> 'k epoll_calls \<Rightarrow> 32 word \<Rightarrow> 'k \<Rightarrow> epoll_state \<Rightarrow> epoll_op list \<Rightarrow> bool" where
  "drained_dels strerror sys junk k s [] \<longleftrightarrow> True"
| "drained_dels strerror sys junk k s (Register p # ops) \<longleftrightarrow>
     (case p of Del i \<Rightarrow> to_int i \<notin> pending_fds s | _ \<Rightarrow> True) \<and>
     drained_dels strerror sys junk (fst (epoll_step strerror sys s junk k p)) s ops"
| "drained_dels strerror sys junk k s (Wait_for t # ops) \<longleftrightarrow>
     (case epoll_Lwait strerror sys k s t of
        Inl e \<Rightarrow> drained_dels strerror sys junk k s ops
      | Inr (k', s', r) \<Rightarrow> drained_dels strerror sys junk k' s' ops)"

definition epoll_inv :: "('k \<Rightarrow> int \<rightharpoonup> 32 word) \<Rightarrow> 'k \<Rightarrow> epoll_state \<Rightarrow> bool" where
  "epoll_inv registered k s \<longleftrightarrow>
     nat (processed s) \<le> length (ep_events s) \<and> (\<forall>f \<in> pending_fds s. registered k f \<noteq> None)"

lemma registered_iff_watched: "registered k f \<noteq> None \<longleftrightarrow> epoll_watched registered k f \<noteq> None"
  by (simp add: epoll_watched_def)

lemma epoll_step_inv:
  assumes "epoll_ctl_documented sys (epoll_fd s) usable registered" and "epoll_arg_ok usable p"
    and "case p of Del i \<Rightarrow> to_int i \<notin> pending_fds s | _ \<Rightarrow> True" and "epoll_inv registered k s"
  shows "epoll_inv registered (fst (epoll_step strerror sys s junk k p)) s"
proof -
  let ?k = "fst (epoll_step strerror sys s junk k p)"
  have w: "epoll_watched registered ?k = fst (interest_step strerror False None (epoll_watched registered k) p)"
    using watch_backend.step_interest(1)[OF epoll_backend[OF assms(1), where strerror = strerror and junk = junk]
        TrueI assms(2), where c = k] .
  have "epoll_watched registered ?k f \<noteq> None" if "f \<in> pending_fds s" "epoll_watched registered k f \<noteq> None" for f
    using that assms(3) unfolding w by (cases p) (auto simp: Let_def split: option.splits)
  then show ?thesis using assms(4) unfolding epoll_inv_def registered_iff_watched by blast
qed

lemma epoll_push_inv:
  assumes "epoll_inv registered k s" and "epoll_Lpushevent s = (s', r)"
  shows "epoll_inv registered k s' \<and> epoll_fd s' = epoll_fd s \<and> (\<forall>f rs. r = LInt f # rs \<longrightarrow> registered k f \<noteq> None)"
proof (cases "processed s > 0")
  case False
  then show ?thesis using assms by (auto simp: epoll_Lpushevent_def)
next
  case True
  define n where "n = nat (processed s - 1)"
  have n: "nat (processed s) = Suc n" "n < length (ep_events s)" using True assms(1) by (auto simp: n_def epoll_inv_def)
  have "take (Suc n) (ep_events s) = take n (ep_events s) @ [ep_events s ! n]"
    using n(2) by (simp add: take_Suc_conv_app_nth)
  then have "pending_fds s = insert (data_fd (ep_events s ! n)) (data_fd ` set (take n (ep_events s)))"
    by (simp add: pending_fds_def n(1))
  then show ?thesis
    using assms n True by (auto simp: epoll_Lpushevent_def Let_def epoll_inv_def pending_fds_def epoll_report_def n_def)
qed

lemma epoll_wait_inv:
  assumes "epoll_wait_documented sys (epoll_fd s) registered" and "epoll_inv registered k s"
    and "epoll_Lwait strerror sys k s t = Inr (k', s', r)"
  shows "epoll_inv registered k' s' \<and> epoll_fd s' = epoll_fd s \<and> (\<forall>f rs. r = LInt f # rs \<longrightarrow> registered k' f \<noteq> None)"
proof -
  obtain s1 r1 where push: "epoll_Lpushevent s = (s1, r1)" by (cases "epoll_Lpushevent s") auto
  note inv1 = epoll_push_inv[OF assms(2) push]
  show ?thesis
  proof (cases r1)
    case (Cons x xs)
    then have "k' = k" "s' = s1" "r = r1" using assms(3) push by (auto simp: epoll_Lwait_def)
    then show ?thesis using inv1 by simp
  next
    case Nil
    then have s1: "s1 = s" "processed s \<le> 0"
      using push by (auto simp: epoll_Lpushevent_def epoll_report_def Let_def split: if_splits)
    obtain k2 ret err evs where sys: "epoll_wait sys k (epoll_fd s) MAX_EVENTS \<lfloor>t * 1000\<rfloor> = (k2, ret, err, evs)"
      by (metis prod.exhaust)
    then have doc: "registered k2 = registered k" "0 < ret \<Longrightarrow> ret = int (length evs)"
      "0 < ret \<Longrightarrow> e \<in> set evs \<Longrightarrow> registered k (data_fd e) \<noteq> None" for e
      using assms(1)[unfolded epoll_wait_documented_def, rule_format, of k MAX_EVENTS "\<lfloor>t * 1000\<rfloor>"]
      by (auto split: if_splits)
    let ?s2 = "s\<lparr>ep_events := overwrite (ep_events s) evs\<rparr>"
    have "epoll_inv registered k2 ?s2" using s1(2) by (simp add: epoll_inv_def pending_fds_def)
    moreover have "epoll_inv registered k2 (?s2\<lparr>processed := ret\<rparr>)" if "0 < ret"
      using doc that by (auto simp: epoll_inv_def pending_fds_def overwrite_def)
    moreover have "epoll_inv registered k s" by (rule assms(2))
    moreover have "(k' = k \<and> s' = s \<or> k' = k2 \<and> s' = ?s2) \<and> (\<exists>xs. r = LNil # xs) \<or>
        0 < ret \<and> k' = k2 \<and> epoll_Lpushevent (?s2\<lparr>processed := ret\<rparr>) = (s', r)"
      using assms(3) push Nil sys s1
      by (auto simp: epoll_Lwait_def Let_def fail_errno_def split: if_splits prod.splits)
    ultimately show ?thesis using epoll_push_inv[of registered k2 "?s2\<lparr>processed := ret\<rparr>" s' r] by auto
  qed
qed

text \<open>
  C33: The epoll back end returns an event of a descriptor that is no longer registered only if the
  program removes a descriptor while an event for it is waiting: in every run without that, whatever
  the order of the calls, an event that \<^verbatim>\<open>wait\<close> returns is for a descriptor that is registered when
  it returns.
\<close>

theorem epoll_events_only_for_registered:
  assumes "epoll_ctl_documented sys (epoll_fd s) usable registered"
    and "epoll_wait_documented sys (epoll_fd s) registered"
    and "processed s = 0" and "\<forall>p. Register p \<in> set ops \<longrightarrow> epoll_arg_ok usable p"
    and "drained_dels strerror sys junk k s ops"
    and "(reg, LInt f # rs) \<in> set (epoll_loop strerror sys junk registered k s ops)"
  shows "reg f \<noteq> None"
proof -
  have "\<forall>(reg, r) \<in> set (epoll_loop strerror sys junk registered k s ops). \<forall>f rs. r = LInt f # rs \<longrightarrow> reg f \<noteq> None"
    if "epoll_inv registered k s" using that assms(1,2,4,5)
  proof (induction ops arbitrary: k s)
    case (Cons op ops)
    show ?case
    proof (cases op)
      case (Register p)
      with Cons.prems have "epoll_inv registered (fst (epoll_step strerror sys s junk k p)) s"
        by (intro epoll_step_inv) auto
      with Register Cons.IH[OF this] Cons.prems show ?thesis by simp
    next
      case (Wait_for t)
      show ?thesis
      proof (cases "epoll_Lwait strerror sys k s t")
        case (Inl e)
        with Wait_for Cons.IH[OF Cons.prems(1)] Cons.prems show ?thesis by simp
      next
        case (Inr x)
        obtain k' s' r where x: "x = (k', s', r)" by (metis prod.exhaust)
        note inv = epoll_wait_inv[OF Cons.prems(3,1) Inr[unfolded x]]
        then have fd: "epoll_fd s' = epoll_fd s" by blast
        have "drained_dels strerror sys junk k' s' ops" "\<forall>p. Register p \<in> set ops \<longrightarrow> epoll_arg_ok usable p"
          using Cons.prems(4,5) Wait_for Inr x by auto
        with Cons.IH[of k' s'] Cons.prems(2,3) inv show ?thesis unfolding Wait_for by (simp add: Inr x fd)
      qed
    qed
  qed simp
  moreover have "epoll_inv registered k s" using assms(3) by (simp add: epoll_inv_def pending_fds_def)
  ultimately show ?thesis using assms(6) by blast
qed

text \<open>A kernel whose only events are those of descriptor 5, while it is registered.\<close>

definition watching_kernel :: "(int \<rightharpoonup> 32 word) epoll_calls" where
  "watching_kernel = simple_kernel\<lparr>epoll_wait := (\<lambda>k efd n t.
     if k 5 = None then (k, 0, 0, []) else (k, 1, 0, [\<lparr>data_fd = 5, ev_mask = EPOLLIN\<rparr>]))\<rparr>"

lemma watching_kernel_documented:
  "epoll_ctl_documented watching_kernel efd usable (\<lambda>k. k)" "epoll_wait_documented watching_kernel efd (\<lambda>k. k)"
  using simple_kernel_documented[of efd usable]
  by (auto simp: epoll_ctl_documented_def epoll_wait_documented_def watching_kernel_def)

theorem epoll_events_only_for_registered_witness:
  "\<exists>reg rs. (reg, LInt 5 # rs) \<in> set (epoll_loop (\<lambda>_. []) watching_kernel 0 (\<lambda>k. k) Map.empty
      \<lparr>processed = 0, epoll_fd = 4, ep_events = []\<rparr> [Register (Add 5 True False), Wait_for 1]) \<and> reg 5 \<noteq> None"
proof -
  let ?s = "\<lparr>processed = 0, epoll_fd = 4, ep_events = []\<rparr> :: epoll_state"
  let ?ops = "[Register (Add 5 True False), Wait_for 1]"
  have mem: "\<exists>reg rs. (reg, LInt 5 # rs) \<in> set (epoll_loop (\<lambda>_. []) watching_kernel 0 (\<lambda>k. k) Map.empty ?s ?ops)"
    and ok: "drained_dels (\<lambda>_. []) watching_kernel 0 Map.empty ?s ?ops"
    by (simp_all add: watching_kernel_def simple_kernel_def epoll_Ladd_def to_int_range epoll_Lwait_def
        epoll_Lpushevent_def Let_def overwrite_def epoll_report_def)
  then obtain reg rs where m: "(reg, LInt 5 # rs) \<in> set (epoll_loop (\<lambda>_. []) watching_kernel 0 (\<lambda>k. k) Map.empty ?s ?ops)"
    by blast
  have "reg 5 \<noteq> None"
    by (rule epoll_events_only_for_registered[OF watching_kernel_documented _ _ ok m, of "\<lambda>_. True"]) auto
  with m show ?thesis by blast
qed

end
