(* ===== verification/Signals.thy ===== *)
theory Signals
  imports Prelude
begin

text \<open>
  \<^verbatim>\<open>util-src/signal.c\<close>: signal handlers written in Lua. The C handler \<^verbatim>\<open>handle\<close>
  queues the signal and installs a debug hook; the hook \<^verbatim>\<open>sighook\<close> runs the Lua
  functions of the queued signals. Signals arrive at any moment, so the second half of the
  theory is a step relation that interleaves arrivals with the steps of the hook. An arrival is
  one undivided run of \<^verbatim>\<open>handle\<close>; the theory Signals_Nested has signals that interrupt \<^verbatim>\<open>handle\<close>
  itself. That the Lua program replaces its debug hook meanwhile is not modelled. The model has one Lua state. The numbers of signals are those of Linux.
\<close>

section \<open>Signals, hooks and state\<close>

definition MAX_PENDING_SIGNALS :: nat where "MAX_PENDING_SIGNALS = 32"

definition lua_signals :: "(string \<times> int) list" where
  "lua_signals =
     [(''SIGABRT'', 6), (''SIGFPE'', 8), (''SIGILL'', 4), (''SIGINT'', 2), (''SIGSEGV'', 11),
      (''SIGTERM'', 15), (''SIGHUP'', 1), (''SIGQUIT'', 3), (''SIGTRAP'', 5), (''SIGKILL'', 9),
      (''SIGUSR1'', 10), (''SIGUSR2'', 12), (''SIGPIPE'', 13), (''SIGALRM'', 14), (''SIGCHLD'', 17),
      (''SIGCONT'', 18), (''SIGSTOP'', 19), (''SIGTTIN'', 21), (''SIGTTOU'', 22), (''SIGIOT'', 6),
      (''SIGBUS'', 7), (''SIGCLD'', 17), (''SIGURG'', 23), (''SIGXCPU'', 24), (''SIGXFSZ'', 25),
      (''SIGVTALRM'', 26), (''SIGPROF'', 27), (''SIGWINCH'', 28), (''SIGPOLL'', 29), (''SIGIO'', 29),
      (''SIGSTKFLT'', 16), (''SIGSYS'', 31)]"

text \<open>The names part of the registry table that \<^verbatim>\<open>luaopen_prosody_util_signal\<close> fills.\<close>

definition signal_names :: "bytes \<rightharpoonup> int" where
  "signal_names = map_of (map (\<lambda>(n, s). (ascii n, s)) lua_signals)"

datatype lua_hook = NoHook | OtherHook nat | SigHook

datatype disposition = SIG_DFL | Handle | Signal2fd

text \<open>
  The current debug hook of the Lua state, the saved one, the queue, the functions in the
  registry table and the dispositions of the process.
\<close>

record sig_state =
  hook :: lua_hook
  hook_mask :: int
  hook_count :: int
  Hsig :: lua_hook
  Hmask :: int
  Hcount :: int
  signals :: "int list"
  nsig :: nat
  handlers :: "int \<rightharpoonup> nat"
  disp :: "int \<Rightarrow> disposition"

definition lua_sethook :: "lua_hook \<Rightarrow> int \<Rightarrow> int \<Rightarrow> sig_state \<Rightarrow> sig_state" where
  "lua_sethook f msk cnt s = s\<lparr>hook := f, hook_mask := msk, hook_count := cnt\<rparr>"

section \<open>The operations\<close>

text \<open>The mask is \<^verbatim>\<open>LUA_MASKCALL | LUA_MASKRET | LUA_MASKCOUNT\<close>.\<close>

definition handle :: "int \<Rightarrow> sig_state \<Rightarrow> sig_state" where
  "handle sig s =
     (let s1 = (if nsig s = 0
                then lua_sethook SigHook (1 + 2 + 8) 1
                       (s\<lparr>Hsig := hook s, Hmask := hook_mask s, Hcount := hook_count s\<rparr>)
                else s) in
      if nsig s1 < MAX_PENDING_SIGNALS
      then s1\<lparr>signals := (signals s1)[nsig s1 := sig], nsig := nsig s1 + 1\<rparr>
      else s1)"

definition hook_restore :: "sig_state \<Rightarrow> sig_state" where
  "hook_restore s = lua_sethook (Hsig s) (Hmask s) (Hcount s) s"

text \<open>
  The loop of \<^verbatim>\<open>sighook\<close>: \<open>runs f\<close> tells whether the Lua function returns; a function
  that is missing, or one that raises an error, leaves the hook by an error. The result is the
  list of functions called and whether the loop ended.
\<close>

function call_loop :: "(nat \<Rightarrow> bool) \<Rightarrow> sig_state \<Rightarrow> nat \<Rightarrow> nat list \<times> bool" where
  "call_loop runs s i =
     (if i < nsig s then
        case handlers s (signals s ! i) of
          None \<Rightarrow> ([], False)
        | Some f \<Rightarrow>
            if runs f then (case call_loop runs s (Suc i) of (fs, ok) \<Rightarrow> (f # fs, ok))
            else ([f], False)
      else ([], True))"
  by pat_completeness auto
termination by (relation "measure (\<lambda>(r, s, i). nsig s - i)") auto

declare call_loop.simps [simp del]

definition sighook :: "(nat \<Rightarrow> bool) \<Rightarrow> sig_state \<Rightarrow> sig_state \<times> nat list \<times> bool" where
  "sighook runs s =
     (let s1 = hook_restore s in
      case call_loop runs s1 0 of (fs, ok) \<Rightarrow>
        if ok then (s1\<lparr>nsig := 0\<rparr>, fs, True) else (s1, fs, False))"

text \<open>The signal argument: a number, or a name of the table.\<close>

definition signal_number :: "lua_value \<Rightarrow> int outcome" where
  "signal_number v =
     (case v of
        LInt i \<Rightarrow> Inr (to_int i)
      | LNum r \<Rightarrow> Inr (if r = of_int \<lfloor>r\<rfloor> \<and> - (2 ^ 63) \<le> \<lfloor>r\<rfloor> \<and> \<lfloor>r\<rfloor> < 2 ^ 63 then to_int \<lfloor>r\<rfloor> else 0)
      | LStr n \<Rightarrow> (case signal_names n of None \<Rightarrow> Inl (LuaError ''invalid signal string'') | Some i \<Rightarrow> Inr (to_int i))
      | _ \<Rightarrow> Inl (ArgError 1 ''number expected''))"

text \<open>\<open>sys_signal\<close> tells whether signal(2) accepts the number.\<close>

definition l_signal :: "(int \<Rightarrow> bool) \<Rightarrow> sig_state \<Rightarrow> lua_value list \<Rightarrow> (sig_state \<times> lua_value list) outcome" where
  "l_signal sys_signal s args =
     (case args of
        [] \<Rightarrow> Inl (ArgError 1 ''value expected'')
      | a1 # rest \<Rightarrow>
          bind_outcome (signal_number a1) (\<lambda>sig.
            if rest = [] \<or> hd rest = LNil then
              Inr (s\<lparr>handlers := (handlers s)(sig := None),
                     disp := (if sys_signal sig then (disp s)(sig := SIG_DFL) else disp s)\<rparr>,
                   [case handlers s sig of None \<Rightarrow> LNil | Some f \<Rightarrow> LFunction f])
            else
              (case hd rest of
                 LFunction f \<Rightarrow>
                   Inr (s\<lparr>handlers := (handlers s)(sig \<mapsto> f),
                          disp := (if sys_signal sig then (disp s)(sig := Handle) else disp s)\<rparr>,
                        [LBool (sys_signal sig)])
               | _ \<Rightarrow> Inl (ArgError 2 ''function expected''))))"

text \<open>
  \<open>c_raise\<close> and \<open>c_kill\<close> are the C functions, with their effect on this process. The process of
  \<^verbatim>\<open>l_kill\<close> is given as the integer that \<^verbatim>\<open>lua_tointeger\<close> reads from the first argument.
\<close>

definition l_raise ::
  "(int \<Rightarrow> sig_state \<Rightarrow> sig_state \<times> int) \<Rightarrow> sig_state \<Rightarrow> lua_value list \<Rightarrow> (sig_state \<times> lua_value list) outcome" where
  "l_raise c_raise s args =
     (case args of
        [] \<Rightarrow> Inl (ArgError 1 ''value expected'')
      | a1 # _ \<Rightarrow>
          bind_outcome (signal_number a1) (\<lambda>sig. case c_raise sig s of (s', ret) \<Rightarrow> Inr (s', [LInt ret])))"

definition l_kill ::
  "(int \<Rightarrow> int \<Rightarrow> sig_state \<Rightarrow> sig_state \<times> int) \<Rightarrow> sig_state \<Rightarrow> int \<Rightarrow> lua_value option
    \<Rightarrow> (sig_state \<times> lua_value list) outcome" where
  "l_kill c_kill s pid arg2 =
     (case arg2 of
        None \<Rightarrow> Inl (ArgError 2 ''value expected'')
      | Some a \<Rightarrow>
          (case signal_number a of
             Inl (ArgError _ m) \<Rightarrow> Inl (ArgError 2 m)
           | Inl e \<Rightarrow> Inl e
           | Inr sig \<Rightarrow> (case c_kill (to_int pid) sig s of (s', ret) \<Rightarrow> Inr (s', [LInt ret]))))"

section \<open>signalfd\<close>

text \<open>
  On Linux a signalfd is a kernel object. Elsewhere it is a pipe, and a global array of 32
  entries tells \<^verbatim>\<open>signal2fd\<close> which pipes want a signal.
\<close>

record lsignalfd =
  sfd_fd :: int
  sfd_mask :: "int set"
  write_fd :: int

definition MAX_SIGNALFD :: nat where "MAX_SIGNALFD = 32"

record signalfd_state =
  signalfds :: "lsignalfd list"
  signalfd_num :: nat

text \<open>The descriptors that the handler writes the signal to.\<close>

definition signal2fd :: "signalfd_state \<Rightarrow> int \<Rightarrow> int list" where
  "signal2fd s sig = map write_fd (filter (\<lambda>e. sig \<in> sfd_mask e) (take (signalfd_num s) (signalfds s)))"

text \<open>
  The set that \<^verbatim>\<open>sigemptyset\<close> and \<^verbatim>\<open>sigaddset\<close> make: a number that is no signal is not
  added, and the error of \<^verbatim>\<open>sigaddset\<close> is not looked at.
\<close>

definition sigset_single :: "int \<Rightarrow> int set" where
  "sigset_single sig = (if 1 \<le> sig \<and> sig \<le> 64 then {sig} else {})"

definition l_signalfd_linux :: "int \<Rightarrow> int \<Rightarrow> int \<Rightarrow> lsignalfd option \<times> lua_value list" where
  "l_signalfd_linux sigprocmask_ret signalfd_ret i =
     (let sig = to_int i in
      if sigprocmask_ret \<noteq> 0 then (None, [LNil])
      else if signalfd_ret = - 1 then (None, [LNil])
      else (Some \<lparr>sfd_fd = signalfd_ret, sfd_mask = sigset_single sig, write_fd = - 1\<rparr>, [LUserdata 0]))"

definition l_signalfd_pipe ::
  "(int \<Rightarrow> bool) \<Rightarrow> (int \<times> int) option \<Rightarrow> signalfd_state \<Rightarrow> int
    \<Rightarrow> signalfd_state \<times> lsignalfd option \<times> lua_value list" where
  "l_signalfd_pipe sys_signal pipe_ret s i =
     (let sig = to_int i in
      if signalfd_num s \<ge> MAX_SIGNALFD then (s, None, [LNil])
      else if \<not> sys_signal sig then (s, None, [LNil])
      else case pipe_ret of
             None \<Rightarrow> (s, None, [LNil])
           | Some (r, w) \<Rightarrow>
               (let sfd = \<lparr>sfd_fd = r, sfd_mask = sigset_single sig, write_fd = w\<rparr> in
                (s\<lparr>signalfds := (signalfds s)[signalfd_num s := sfd], signalfd_num := signalfd_num s + 1\<rparr>,
                 Some sfd, [LUserdata 0])))"

definition l_signalfd_getfd :: "lsignalfd \<Rightarrow> lua_value list" where
  "l_signalfd_getfd sfd = (if sfd_fd sfd = - 1 then [LNil] else [LInt (sfd_fd sfd)])"

text \<open>
  \<open>n\<close> is the return value of read(2) and \<open>signo\<close> the number it stored; with a return value of
  0 nothing has been stored and the variable is read uninitialised.
\<close>

definition l_signalfd_read :: "int \<Rightarrow> int \<Rightarrow> lua_value list outcome" where
  "l_signalfd_read n signo =
     (if n < 0 then Inr [] else if n = 0 then Inl (Undefined ''uninitialised signal number'') else Inr [LInt signo])"

text \<open>
  The loop of \<^verbatim>\<open>l_signalfd_close\<close> without signalfd(2), from index \<open>i\<close> down to 1. The
  entry behind the last one of the array does not exist.
\<close>

fun close_loop :: "lsignalfd list \<Rightarrow> nat \<Rightarrow> int \<Rightarrow> nat \<Rightarrow> (lsignalfd list \<times> nat) outcome" where
  "close_loop es num f 0 = Inr (es, num)"
| "close_loop es num f (Suc i) =
     (if Suc i \<ge> MAX_SIGNALFD then Inl (Undefined ''signalfds index'')
      else if sfd_fd (es ! Suc i) = f
      then if num \<ge> MAX_SIGNALFD then Inl (Undefined ''signalfds index'')
           else close_loop (es[Suc i := es ! num]) (num - 1) f i
      else close_loop es num f i)"

definition l_signalfd_close_linux :: "int \<Rightarrow> lsignalfd \<Rightarrow> lsignalfd \<times> lua_value list" where
  "l_signalfd_close_linux close_ret sfd =
     (if close_ret \<noteq> 0 then (sfd, [LBool False]) else (sfd\<lparr>sfd_fd := - 1\<rparr>, [LBool True]))"

definition l_signalfd_close_pipe ::
  "int \<Rightarrow> int \<Rightarrow> signalfd_state \<Rightarrow> lsignalfd \<Rightarrow> (signalfd_state \<times> lsignalfd \<times> lua_value list) outcome" where
  "l_signalfd_close_pipe close_ret close_write_ret s sfd =
     (if close_ret \<noteq> 0 then Inr (s, sfd, [LBool False])
      else if close_write_ret \<noteq> 0 then Inr (s, sfd, [LBool False])
      else bind_outcome (close_loop (signalfds s) (signalfd_num s) (sfd_fd sfd) (signalfd_num s))
             (\<lambda>(es, num). Inr (s\<lparr>signalfds := es, signalfd_num := num\<rparr>, sfd\<lparr>sfd_fd := - 1\<rparr>, [LBool True])))"

section \<open>One signal from registration to its Lua function\<close>

definition sig_wf :: "sig_state \<Rightarrow> bool" where
  "sig_wf s \<longleftrightarrow> length (signals s) = MAX_PENDING_SIGNALS \<and> nsig s \<le> MAX_PENDING_SIGNALS"

definition pending_signals :: "sig_state \<Rightarrow> int list" where
  "pending_signals s = take (nsig s) (signals s)"

lemma handle_wf: "sig_wf s \<Longrightarrow> sig_wf (handle sig s)"
  by (auto simp: sig_wf_def handle_def Let_def lua_sethook_def)

lemma handle_pending:
  "sig_wf s \<Longrightarrow> pending_signals (handle sig s) =
    (if nsig s < MAX_PENDING_SIGNALS then pending_signals s @ [sig] else pending_signals s)"
  by (auto simp: pending_signals_def handle_def Let_def lua_sethook_def sig_wf_def take_Suc_conv_app_nth)

lemma handle_hook:
  "hook (handle sig s) = (if nsig s = 0 then SigHook else hook s)"
  "Hsig (handle sig s) = (if nsig s = 0 then hook s else Hsig s)"
  "handlers (handle sig s) = handlers s"
  by (simp_all add: handle_def Let_def lua_sethook_def)

lemma call_loop_all:
  assumes "\<And>j. i \<le> j \<Longrightarrow> j < nsig s \<Longrightarrow> handlers s (signals s ! j) \<noteq> None \<and> runs (the (handlers s (signals s ! j)))"
  shows "call_loop runs s i = (map (\<lambda>j. the (handlers s (signals s ! j))) [i..<nsig s], True)"
  using assms
proof (induction runs s i rule: call_loop.induct)
  case (1 runs s i)
  show ?case
  proof (cases "i < nsig s")
    case True
    then obtain f where f: "handlers s (signals s ! i) = Some f" "runs f" using "1.prems"[of i] by auto
    have "call_loop runs s (Suc i) = (map (\<lambda>j. the (handlers s (signals s ! j))) [Suc i..<nsig s], True)"
      using "1.IH"[OF True f] "1.prems" by simp
    then show ?thesis using True f by (subst call_loop.simps) (simp add: upt_conv_Cons)
  qed (subst call_loop.simps, simp)
qed

text \<open>
  C25: With no signal pending, registering a Lua function for a signal, the arrival of the
  signal and the next run of the hook call exactly that function, once, and leave the debug
  hook of the Lua state as it was before, with its mask and count, and an empty queue.
\<close>

theorem registered_function_is_called:
  assumes "sig_wf s" "nsig s = 0" and "signal_number a = Inr sig" and "sys_signal sig" and "runs f"
  shows "\<exists>s1 s3. l_signal sys_signal s [a, LFunction f] = Inr (s1, [LBool True]) \<and>
    disp s1 sig = Handle \<and>
    sighook runs (handle sig s1) = (s3, [f], True) \<and>
    hook (handle sig s1) = SigHook \<and>
    hook s3 = hook s \<and> hook_mask s3 = hook_mask s \<and> hook_count s3 = hook_count s \<and> nsig s3 = 0"
proof -
  let ?s1 = "s\<lparr>handlers := (handlers s)(sig \<mapsto> f), disp := (disp s)(sig := Handle)\<rparr>"
  let ?s2 = "hook_restore (handle sig ?s1)"
  have l: "l_signal sys_signal s [a, LFunction f] = Inr (?s1, [LBool True])"
    using assms(3,4) by (simp add: l_signal_def)
  have s2: "nsig ?s2 = 1" "signals ?s2 ! 0 = sig" "handlers ?s2 sig = Some f" "hook ?s2 = hook s"
    "hook_mask ?s2 = hook_mask s" "hook_count ?s2 = hook_count s"
    using assms(1,2)
    by (auto simp: hook_restore_def handle_def lua_sethook_def Let_def sig_wf_def MAX_PENDING_SIGNALS_def)
  then have "call_loop runs ?s2 0 = ([f], True)"
    using assms(5) by (subst call_loop_all) auto
  then have "sighook runs (handle sig ?s1) = (?s2\<lparr>nsig := 0\<rparr>, [f], True)"
    by (simp add: sighook_def Let_def)
  moreover have "hook (handle sig ?s1) = SigHook" using assms(2) by (simp add: handle_hook)
  ultimately show ?thesis using l s2 by auto
qed

section \<open>Interleaving with arriving signals\<close>

text \<open>
  Where the Lua thread is: outside the hook, in the loop of the hook before index \<open>i\<close>, or
  behind the loop before \<^verbatim>\<open>nsig = 0\<close>.
\<close>

datatype phase = Running | InHook nat | HookEnd

record config =
  st :: sig_state
  phase :: phase
  accepted :: "int list"
  delivered :: "int list"

datatype label = Arrive int | Fire | Call | Fail | Finish | Reset | Install

inductive sig_step :: "label \<Rightarrow> config \<Rightarrow> config \<Rightarrow> bool" where
  arrive: "sig_step (Arrive sig) c
     (c\<lparr>st := handle sig (st c),
        accepted := (if nsig (st c) < MAX_PENDING_SIGNALS then accepted c @ [sig] else accepted c)\<rparr>)"
| fire: "phase c = Running \<Longrightarrow> hook (st c) = SigHook \<Longrightarrow>
     sig_step Fire c (c\<lparr>st := hook_restore (st c), phase := InHook 0\<rparr>)"
| call: "phase c = InHook i \<Longrightarrow> i < nsig (st c) \<Longrightarrow> handlers (st c) (signals (st c) ! i) = Some f \<Longrightarrow>
     sig_step Call c (c\<lparr>phase := InHook (Suc i), delivered := delivered c @ [signals (st c) ! i]\<rparr>)"
| fail_nil: "phase c = InHook i \<Longrightarrow> i < nsig (st c) \<Longrightarrow> handlers (st c) (signals (st c) ! i) = None \<Longrightarrow>
     sig_step Fail c (c\<lparr>phase := Running\<rparr>)"
| fail_error: "phase c = InHook i \<Longrightarrow> i < nsig (st c) \<Longrightarrow> handlers (st c) (signals (st c) ! i) = Some f \<Longrightarrow>
     sig_step Fail c (c\<lparr>phase := Running, delivered := delivered c @ [signals (st c) ! i]\<rparr>)"
| finish: "phase c = InHook i \<Longrightarrow> \<not> i < nsig (st c) \<Longrightarrow> sig_step Finish c (c\<lparr>phase := HookEnd\<rparr>)"
| reset: "phase c = HookEnd \<Longrightarrow> sig_step Reset c (c\<lparr>st := (st c)\<lparr>nsig := 0\<rparr>, phase := Running\<rparr>)"
| install: "sig_step Install c (c\<lparr>st := (st c)\<lparr>handlers := (handlers (st c))(sig := h)\<rparr>\<rparr>)"

inductive_cases sig_stepE: "sig_step l c c'"

text \<open>A fresh library: nothing pending, the hook of the program in place.\<close>

definition initial :: "config \<Rightarrow> bool" where
  "initial c \<longleftrightarrow> sig_wf (st c) \<and> nsig (st c) = 0 \<and> hook (st c) \<noteq> SigHook \<and> phase c = Running \<and>
     accepted c = [] \<and> delivered c = []"

inductive reach :: "(label \<Rightarrow> config \<Rightarrow> bool) \<Rightarrow> config \<Rightarrow> bool" for allowed where
  start: "initial c \<Longrightarrow> reach allowed c"
| step: "reach allowed c \<Longrightarrow> allowed l c \<Longrightarrow> sig_step l c c' \<Longrightarrow> reach allowed c'"

definition any :: "label \<Rightarrow> config \<Rightarrow> bool" where "any l c = True"

text \<open>
  Runs in which no Lua function fails and no signal arrives between the end of the loop and
  the assignment \<^verbatim>\<open>nsig = 0\<close>.
\<close>

definition calm :: "label \<Rightarrow> config \<Rightarrow> bool" where
  "calm l c \<longleftrightarrow> l \<noteq> Fail \<and> (\<forall>sig. l = Arrive sig \<longrightarrow> phase c \<noteq> HookEnd)"

fun waiting :: "config \<Rightarrow> int list" where
  "waiting c = (case phase c of
     Running \<Rightarrow> pending_signals (st c) | InHook i \<Rightarrow> drop i (pending_signals (st c)) | HookEnd \<Rightarrow> [])"

definition queue_inv :: "config \<Rightarrow> bool" where
  "queue_inv c \<longleftrightarrow> sig_wf (st c) \<and> accepted c = delivered c @ waiting c \<and>
     (phase c = Running \<and> 0 < nsig (st c) \<longrightarrow> hook (st c) = SigHook) \<and>
     (\<forall>i. phase c = InHook i \<longrightarrow> i \<le> nsig (st c) \<and> 0 < nsig (st c))"

definition hook_inv :: "config \<Rightarrow> bool" where
  "hook_inv c \<longleftrightarrow>
     (if phase c = Running \<and> hook (st c) = SigHook then 0 < nsig (st c) \<and> Hsig (st c) \<noteq> SigHook
      else phase c \<noteq> Running \<longrightarrow> 0 < nsig (st c) \<and> hook (st c) \<noteq> SigHook)"

lemma pending_simps [simp]:
  "pending_signals (s\<lparr>handlers := h\<rparr>) = pending_signals s"
  "pending_signals (hook_restore s) = pending_signals s"
  "pending_signals (s\<lparr>nsig := 0\<rparr>) = []"
  by (simp_all add: pending_signals_def hook_restore_def lua_sethook_def)

lemma state_simps [simp]:
  "sig_wf (s\<lparr>handlers := h\<rparr>) = sig_wf s" "sig_wf (hook_restore s) = sig_wf s"
  "sig_wf s \<Longrightarrow> sig_wf (s\<lparr>nsig := 0\<rparr>)"
  "nsig (hook_restore s) = nsig s" "hook (hook_restore s) = Hsig s"
  by (auto simp: sig_wf_def hook_restore_def lua_sethook_def)

lemma nsig_handle: "nsig (handle sig s) = (if nsig s < MAX_PENDING_SIGNALS then Suc (nsig s) else nsig s)"
  by (simp add: handle_def Let_def lua_sethook_def)

lemma length_pending: "sig_wf s \<Longrightarrow> length (pending_signals s) = nsig s"
  by (simp add: pending_signals_def sig_wf_def)

lemma nth_pending: "i < nsig s \<Longrightarrow> pending_signals s ! i = signals s ! i"
  by (simp add: pending_signals_def)

lemma hook_inv_step: "hook_inv c \<Longrightarrow> sig_step l c c' \<Longrightarrow> hook_inv c'"
  by (erule sig_stepE)
    (auto simp: hook_inv_def handle_hook nsig_handle MAX_PENDING_SIGNALS_def split: if_splits)

lemma queue_inv_step:
  assumes inv: "queue_inv c" "hook_inv c" and "calm l c" and "sig_step l c c'"
  shows "queue_inv c'"
  using assms(4)
proof (cases rule: sig_step.cases)
  case (arrive sig)
  then show ?thesis
    using inv assms(3) length_pending[of "st c"]
    by (auto simp: queue_inv_def calm_def handle_wf handle_pending handle_hook nsig_handle drop_append
        split: phase.splits)
next
  case fire
  then show ?thesis using inv by (auto simp: queue_inv_def hook_inv_def)
next
  case (call i f)
  then have "drop i (pending_signals (st c)) = signals (st c) ! i # drop (Suc i) (pending_signals (st c))"
    using inv length_pending[of "st c"] nth_pending[of i "st c"]
    by (metis Cons_nth_drop_Suc queue_inv_def)
  then show ?thesis using inv call by (auto simp: queue_inv_def)
next
  case (finish i)
  then show ?thesis using inv length_pending[of "st c"] by (auto simp: queue_inv_def)
next
  case reset
  then show ?thesis using inv by (auto simp: queue_inv_def)
next
  case (install sig h)
  then show ?thesis using inv by (auto simp: queue_inv_def split: phase.splits)
qed (use assms(3) in \<open>auto simp: calm_def\<close>)

lemma reach_inv: "reach allowed c \<Longrightarrow> hook_inv c"
proof (induction rule: reach.induct)
  case (start c)
  then show ?case by (auto simp: initial_def hook_inv_def)
qed (rule hook_inv_step)

lemma reach_calm_queue: "reach calm c \<Longrightarrow> queue_inv c"
proof (induction rule: reach.induct)
  case (start c)
  then show ?case by (auto simp: initial_def queue_inv_def pending_signals_def)
next
  case (step c l c')
  then show ?case using queue_inv_step reach_inv by blast
qed

text \<open>
  With arrivals that are undivided runs of \<^verbatim>\<open>handle\<close>: as long as no Lua function fails and no signal hits the moment between the end of the
  loop and \<^verbatim>\<open>nsig = 0\<close>, no queued signal is lost, duplicated or reordered, wherever
  else signals arrive, also while the hook runs: the signals accepted so far are those whose
  functions were called followed by those that wait, and while signals wait outside the hook,
  the hook is installed.
\<close>

theorem signals_delivered_in_order:
  assumes "reach calm c"
  shows "accepted c = delivered c @ waiting c \<and> length (waiting c) \<le> MAX_PENDING_SIGNALS \<and>
    (phase c = Running \<and> waiting c \<noteq> [] \<longrightarrow> hook (st c) = SigHook)"
proof -
  have inv: "queue_inv c" by (rule reach_calm_queue[OF assms])
  then have "length (waiting c) \<le> MAX_PENDING_SIGNALS"
    using length_pending[of "st c"] by (auto simp: queue_inv_def sig_wf_def split: phase.splits)
  then show ?thesis using inv by (auto simp: queue_inv_def pending_signals_def)
qed

definition idle_state :: sig_state where
  "idle_state = \<lparr>hook = NoHook, hook_mask = 0, hook_count = 0, Hsig = NoHook, Hmask = 0, Hcount = 0,
     signals = replicate MAX_PENDING_SIGNALS 0, nsig = 0, handlers = Map.empty, disp = (\<lambda>_. SIG_DFL)\<rparr>"

definition idle_config :: config where
  "idle_config = \<lparr>st = idle_state, phase = Running, accepted = [], delivered = []\<rparr>"

lemma reach_idle: "reach allowed idle_config"
  by (rule reach.start) (simp add: idle_config_def idle_state_def initial_def sig_wf_def)

text \<open>A run with one signal: it arrives, the hook starts.\<close>

lemma reach_one:
  assumes "\<And>l c. phase c \<noteq> HookEnd \<Longrightarrow> l \<noteq> Fail \<Longrightarrow> allowed l c"
  shows "reach allowed \<lparr>st = hook_restore (handle 15 idle_state), phase = InHook 0, accepted = [15], delivered = []\<rparr>"
proof -
  let ?c1 = "\<lparr>st = handle 15 idle_state, phase = Running, accepted = [15], delivered = []\<rparr>"
  have a: "sig_step (Arrive 15) idle_config ?c1"
    using sig_step.arrive[of 15 idle_config] by (simp add: idle_config_def idle_state_def MAX_PENDING_SIGNALS_def)
  have r: "reach allowed ?c1" by (rule reach.step[OF reach_idle _ a]) (simp add: assms idle_config_def)
  have f: "sig_step Fire ?c1 \<lparr>st = hook_restore (handle 15 idle_state), phase = InHook 0, accepted = [15], delivered = []\<rparr>"
    using sig_step.fire[of ?c1] by (simp add: handle_hook idle_state_def)
  show ?thesis by (rule reach.step[OF r _ f]) (simp add: assms)
qed

theorem signals_delivered_in_order_witness:
  "accepted \<lparr>st = hook_restore (handle 15 idle_state), phase = InHook 0, accepted = [15], delivered = []\<rparr> =
    waiting \<lparr>st = hook_restore (handle 15 idle_state), phase = InHook 0, accepted = [15], delivered = []\<rparr>"
proof -
  have "reach calm \<lparr>st = hook_restore (handle 15 idle_state), phase = InHook 0, accepted = [15], delivered = []\<rparr>"
    by (rule reach_one) (auto simp: calm_def)
  from signals_delivered_in_order[OF this] show ?thesis by simp
qed

definition stuck :: "config \<Rightarrow> bool" where
  "stuck c \<longleftrightarrow> phase c = Running \<and> 0 < nsig (st c) \<and> hook (st c) \<noteq> SigHook"

lemma stuck_step: "stuck c \<Longrightarrow> sig_step l c c' \<Longrightarrow> stuck c' \<and> delivered c' = delivered c"
  by (erule sig_stepE) (auto simp: stuck_def handle_hook nsig_handle)

interpretation stuckp: preserved "\<lambda>a b. \<exists>l. sig_step l a b" "\<lambda>c. stuck c \<and> delivered c = ds" for ds
  by unfold_locales (use stuck_step in blast)

lemma failed_stuck:
  assumes "reach any c" and "sig_step Fail c c1"
  shows "stuck c1"
proof -
  have "hook_inv c" by (rule reach_inv[OF assms(1)])
  with assms(2) show ?thesis by (cases rule: sig_step.cases) (auto simp: stuck_def hook_inv_def)
qed

text \<open>
  When the Lua function of a signal raises an error, or is missing because it was cleared
  while the signal was waiting, the hook is left with \<^verbatim>\<open>nsig\<close> not reset: the debug hook
  is gone and \<^verbatim>\<open>handle\<close> never installs it again, so no signal is delivered any more,
  whatever happens afterwards, with arrivals that are undivided runs of \<^verbatim>\<open>handle\<close>.
\<close>

theorem no_delivery_after_failed_function:
  assumes "reach any c" and "sig_step Fail c c1" and "(\<lambda>a b. \<exists>l. sig_step l a b)\<^sup>*\<^sup>* c1 c2"
  shows "delivered c2 = delivered c1 \<and> phase c2 = Running \<and> 0 < nsig (st c2)"
proof -
  have "stuck c1" by (rule failed_stuck[OF assms(1,2)])
  with assms(3) have "stuck c2 \<and> delivered c2 = delivered c1"
    by (auto dest: stuckp.steps_keep)
  then show ?thesis by (simp add: stuck_def)
qed

theorem no_delivery_after_failed_function_witness:
  "\<exists>c2. sig_step (Arrive 1) \<lparr>st = hook_restore (handle 15 idle_state), phase = Running, accepted = [15], delivered = []\<rparr> c2 \<and>
    delivered c2 = [] \<and> phase c2 = Running \<and> 0 < nsig (st c2)"
proof -
  let ?s = "hook_restore (handle 15 idle_state)"
  let ?c = "\<lparr>st = ?s, phase = InHook 0, accepted = [15], delivered = []\<rparr>"
  let ?c1 = "\<lparr>st = ?s, phase = Running, accepted = [15], delivered = []\<rparr>"
  have r: "reach any ?c" by (rule reach_one) (simp add: any_def)
  have "nsig ?s = 1" "handlers ?s = Map.empty"
    by (simp_all add: nsig_handle idle_state_def MAX_PENDING_SIGNALS_def)
      (simp add: hook_restore_def lua_sethook_def handle_hook)
  then have f: "sig_step Fail ?c ?c1" using sig_step.fail_nil[of ?c 0] by simp
  obtain c2 where c2: "sig_step (Arrive 1) ?c1 c2" by (rule that[OF sig_step.arrive])
  then have "(\<lambda>a b. \<exists>l. sig_step l a b)\<^sup>*\<^sup>* ?c1 c2" by blast
  from no_delivery_after_failed_function[OF r f this] c2 show ?thesis by auto
qed

text \<open>
  A signal that arrives after the loop of the hook has ended and before \<^verbatim>\<open>nsig = 0\<close> is
  accepted into the queue and then wiped out: it is never delivered.
\<close>

theorem signal_lost_before_reset:
  assumes "reach any c" and "phase c = HookEnd" and "nsig (st c) < MAX_PENDING_SIGNALS"
  shows "\<exists>c1 c2. sig_step (Arrive sig) c c1 \<and> sig_step Reset c1 c2 \<and>
    accepted c2 = accepted c @ [sig] \<and> delivered c2 = delivered c \<and> waiting c2 = [] \<and> hook (st c2) \<noteq> SigHook"
proof -
  let ?c1 = "c\<lparr>st := handle sig (st c), accepted := accepted c @ [sig]\<rparr>"
  let ?c2 = "?c1\<lparr>st := (st ?c1)\<lparr>nsig := 0\<rparr>, phase := Running\<rparr>"
  have "sig_step (Arrive sig) c ?c1" using sig_step.arrive[of sig c] assms(3) by simp
  moreover have "sig_step Reset ?c1 ?c2" using sig_step.reset[of ?c1] assms(2) by simp
  moreover have "hook (st ?c2) \<noteq> SigHook"
    using reach_inv[OF assms(1)] assms(2) by (auto simp: hook_inv_def handle_hook)
  ultimately show ?thesis by (intro exI[of _ ?c1] exI[of _ ?c2]) simp
qed

lemma reach_any_step: "reach any c \<Longrightarrow> sig_step l c c' \<Longrightarrow> reach any c'"
  by (erule reach.step[where allowed = any and l = l]) (simp_all add: any_def)

theorem signal_lost_before_reset_witness:
  "\<exists>c c1 c2. accepted c = [15] \<and> delivered c = [15] \<and> sig_step (Arrive 1) c c1 \<and> sig_step Reset c1 c2 \<and>
    accepted c2 = [15, 1] \<and> delivered c2 = [15] \<and> waiting c2 = []"
proof -
  let ?sa = "hook_restore (handle 15 idle_state)"
  let ?s = "?sa\<lparr>handlers := (handlers ?sa)(15 := Some 7)\<rparr>"
  let ?ca = "\<lparr>st = ?sa, phase = InHook 0, accepted = [15], delivered = []\<rparr>"
  let ?cb = "\<lparr>st = ?s, phase = InHook 0, accepted = [15], delivered = []\<rparr>"
  let ?cc = "\<lparr>st = ?s, phase = InHook 1, accepted = [15], delivered = [15]\<rparr>"
  let ?cd = "\<lparr>st = ?s, phase = HookEnd, accepted = [15], delivered = [15]\<rparr>"
  have s: "nsig ?s = 1" "signals ?s ! 0 = 15" "handlers ?s 15 = Some 7"
    by (simp_all add: nsig_handle idle_state_def MAX_PENDING_SIGNALS_def)
      (simp add: hook_restore_def lua_sethook_def handle_def MAX_PENDING_SIGNALS_def numeral_eq_Suc)
  have "reach any ?ca" by (rule reach_one) (simp add: any_def)
  moreover have "sig_step Install ?ca ?cb" using sig_step.install[of ?ca 15 "Some 7"] by simp
  ultimately have "reach any ?cb" by (rule reach_any_step)
  moreover have "sig_step Call ?cb ?cc" using sig_step.call[of ?cb 0 7] s by simp
  ultimately have "reach any ?cc" by (rule reach_any_step)
  moreover have "sig_step Finish ?cc ?cd" using sig_step.finish[of ?cc 1] s(1) by simp
  ultimately have "reach any ?cd" by (rule reach_any_step)
  moreover have "nsig (st ?cd) < MAX_PENDING_SIGNALS" using s(1) by (simp add: MAX_PENDING_SIGNALS_def)
  ultimately obtain c1 c2 where "sig_step (Arrive 1) ?cd c1" "sig_step Reset c1 c2"
    "accepted c2 = [15, 1]" "delivered c2 = [15]" "waiting c2 = []"
    using signal_lost_before_reset[of ?cd 1] by (auto simp del: waiting.simps)
  then show ?thesis
    by (intro exI[of _ ?cd] exI[of _ c1] exI[of _ c2]) (simp del: waiting.simps)
qed

section \<open>Closing a signalfd without signalfd(2)\<close>

lemma close_loop_none:
  "i < MAX_SIGNALFD \<Longrightarrow> (\<forall>j. 1 \<le> j \<longrightarrow> j \<le> i \<longrightarrow> sfd_fd (es ! j) \<noteq> f) \<Longrightarrow> close_loop es num f i = Inr (es, num)"
  by (induction i) auto

lemma close_loop_top:
  "MAX_SIGNALFD \<le> i \<Longrightarrow> 0 < i \<Longrightarrow> close_loop es num f i = Inl (Undefined ''signalfds index'')"
  by (cases i) auto

text \<open>
  \<^verbatim>\<open>close\<close> of a signalfd that is the first entry of the array does not remove it,
  because the loop stops before index 0: the handler goes on writing the signal to the closed
  descriptor, which may by then belong to another file. With a full array the loop starts
  behind its end.
\<close>

theorem signalfd_close_keeps_first_entry:
  assumes "0 < signalfd_num s" and "signalfds s \<noteq> []" and "sfd_fd (signalfds s ! 0) = sfd_fd sfd"
    and "\<forall>j. 1 \<le> j \<longrightarrow> j \<le> signalfd_num s \<longrightarrow> sfd_fd (signalfds s ! j) \<noteq> sfd_fd sfd"
    and "sig \<in> sfd_mask (signalfds s ! 0)"
  shows "(signalfd_num s < MAX_SIGNALFD \<longrightarrow>
      l_signalfd_close_pipe 0 0 s sfd = Inr (s, sfd\<lparr>sfd_fd := - 1\<rparr>, [LBool True]) \<and>
      write_fd (signalfds s ! 0) \<in> set (signal2fd s sig)) \<and>
    (signalfd_num s = MAX_SIGNALFD \<longrightarrow>
      l_signalfd_close_pipe 0 0 s sfd = Inl (Undefined ''signalfds index''))"
proof (intro conjI impI)
  have "signalfds s ! 0 \<in> set (take (signalfd_num s) (signalfds s))"
    using assms(1,2) by (cases "signalfds s"; cases "signalfd_num s") auto
  then show "write_fd (signalfds s ! 0) \<in> set (signal2fd s sig)"
    using assms(5) by (auto simp: signal2fd_def)
next
  assume "signalfd_num s < MAX_SIGNALFD"
  then show "l_signalfd_close_pipe 0 0 s sfd = Inr (s, sfd\<lparr>sfd_fd := - 1\<rparr>, [LBool True])"
    using close_loop_none[of "signalfd_num s" "signalfds s" "sfd_fd sfd"] assms(4)
    by (simp add: l_signalfd_close_pipe_def)
next
  assume n: "signalfd_num s = MAX_SIGNALFD"
  then show "l_signalfd_close_pipe 0 0 s sfd = Inl (Undefined ''signalfds index'')"
    using assms(1) by (simp add: l_signalfd_close_pipe_def close_loop_top)
qed

theorem signalfd_close_keeps_first_entry_witness:
  "\<exists>s sfd. l_signalfd_pipe (\<lambda>_. True) (Some (8, 9)) \<lparr>signalfds = replicate 32 \<lparr>sfd_fd = 0, sfd_mask = {}, write_fd = 0\<rparr>,
       signalfd_num = 0\<rparr> 15 = (s, Some sfd, [LUserdata 0]) \<and>
     l_signalfd_close_pipe 0 0 s sfd = Inr (s, sfd\<lparr>sfd_fd := - 1\<rparr>, [LBool True]) \<and>
     9 \<in> set (signal2fd s 15)"
proof -
  let ?sfd = "\<lparr>sfd_fd = 8, sfd_mask = {15}, write_fd = 9\<rparr>"
  let ?z = "\<lparr>sfd_fd = 0, sfd_mask = {}, write_fd = 0\<rparr>"
  let ?s = "\<lparr>signalfds = ?sfd # replicate 31 ?z, signalfd_num = 1\<rparr>"
  have open_it: "l_signalfd_pipe (\<lambda>_. True) (Some (8, 9)) \<lparr>signalfds = replicate 32 ?z, signalfd_num = 0\<rparr> 15 =
      (?s, Some ?sfd, [LUserdata 0])"
    by (simp add: l_signalfd_pipe_def sigset_single_def MAX_SIGNALFD_def to_int_range numeral_eq_Suc Let_def)
  have "\<forall>j. 1 \<le> j \<longrightarrow> j \<le> signalfd_num ?s \<longrightarrow> sfd_fd (signalfds ?s ! j) \<noteq> sfd_fd ?sfd"
    by (auto simp: le_Suc_eq)
  then have "l_signalfd_close_pipe 0 0 ?s ?sfd = Inr (?s, ?sfd\<lparr>sfd_fd := - 1\<rparr>, [LBool True])" "9 \<in> set (signal2fd ?s 15)"
    using signalfd_close_keeps_first_entry[of ?s ?sfd 15] by (simp_all add: MAX_SIGNALFD_def)
  with open_it show ?thesis by blast
qed

theorem registered_function_is_called_witness:
  "\<exists>s1 s3. l_signal (\<lambda>_. True) idle_state [LStr (ascii ''SIGTERM''), LFunction 7] = Inr (s1, [LBool True]) \<and>
    sighook (\<lambda>_. True) (handle 15 s1) = (s3, [7], True) \<and> hook s3 = NoHook \<and> nsig s3 = 0"
proof -
  have "signal_number (LStr (ascii ''SIGTERM'')) = Inr 15"
    by (simp add: signal_number_def signal_names_def lua_signals_def ascii_def to_int_range)
  then show ?thesis
    using registered_function_is_called[of idle_state "LStr (ascii ''SIGTERM'')" 15 "\<lambda>_. True" "\<lambda>_. True" 7]
    by (auto simp: idle_state_def sig_wf_def)
qed

end
