(* ===== verification/Signals_Nested.thy ===== *)
theory Signals_Nested
  imports Signals
begin

text \<open>
  The handler \<^verbatim>\<open>handle\<close> of \<^verbatim>\<open>util-src/signal.c\<close>, interrupted by other signals. A signal
  handler that is interrupted goes on when the interrupting one has returned, so the runs of
  \<^verbatim>\<open>handle\<close> that a run is interrupted by form a tree. The points where an interruption makes a
  difference are those between the accesses to the static variables and to the hook of the
  Lua state.
\<close>

section \<open>The handler with its interruptions\<close>

text \<open>
  The signal of a run, and the runs that interrupt it: after the test \<^verbatim>\<open>nsig == 0\<close> has
  succeeded, after the hook has been saved, before the test of the bound, after that test,
  and between reading \<^verbatim>\<open>nsig\<close> and the two stores of \<^verbatim>\<open>signals[nsig++] = sig\<close>, which are taken
  together. The first two points exist only when the test succeeds.
\<close>

datatype arrival =
  Arrival (signo: int) (at_save: "arrival list") (at_hook: "arrival list") (at_test: "arrival list")
    (at_index: "arrival list") (at_store: "arrival list")

definition save_hook :: "sig_state \<Rightarrow> sig_state" where
  "save_hook s = s\<lparr>Hsig := hook s, Hmask := hook_mask s, Hcount := hook_count s\<rparr>"

definition store_signal :: "nat \<Rightarrow> int \<Rightarrow> sig_state \<Rightarrow> sig_state outcome" where
  "store_signal i sig s =
     (if i < MAX_PENDING_SIGNALS then Inr (s\<lparr>signals := (signals s)[i := sig], nsig := i + 1\<rparr>)
      else Inl (Undefined ''signals index''))"

fun handle_nested :: "arrival \<Rightarrow> sig_state \<Rightarrow> sig_state outcome"
  and handle_all :: "arrival list \<Rightarrow> sig_state \<Rightarrow> sig_state outcome"
where
  "handle_nested (Arrival sig a1 a2 a3 a4 a5) s =
     bind_outcome
       (if nsig s = 0
        then bind_outcome (handle_all a1 s) (\<lambda>s.
             bind_outcome (handle_all a2 (save_hook s)) (\<lambda>s.
             Inr (lua_sethook SigHook (1 + 2 + 8) 1 s)))
        else Inr s) (\<lambda>s.
     bind_outcome (handle_all a3 s) (\<lambda>s.
       if nsig s < MAX_PENDING_SIGNALS
       then bind_outcome (handle_all a4 s) (\<lambda>s.
            let i = nsig s in
            bind_outcome (handle_all a5 s) (\<lambda>s. store_signal i sig s))
       else Inr s))"
| "handle_all [] s = Inr s"
| "handle_all (a # as) s = bind_outcome (handle_nested a s) (handle_all as)"

definition plain :: "int \<Rightarrow> arrival" where
  "plain sig = Arrival sig [] [] [] [] []"

text \<open>
  The signals of a tree in the order in which their runs end. \<open>e\<close> tells whether the queue is
  empty at the start: otherwise the first two points do not exist.
\<close>

fun completion :: "bool \<Rightarrow> arrival \<Rightarrow> int list" and completion_all :: "bool \<Rightarrow> arrival list \<Rightarrow> int list" where
  "completion e (Arrival sig a1 a2 a3 a4 a5) =
     (if e then completion_all True a1 @ completion_all (a1 = []) a2 else []) @
     completion_all (e \<and> a1 = [] \<and> a2 = []) a3 @ completion_all False a4 @ completion_all False a5 @ [sig]"
| "completion_all e [] = []"
| "completion_all e (a # as) = completion e a @ completion_all False as"

text \<open>No run is interrupted between the test of the bound and the store.\<close>

fun store_safe :: "arrival \<Rightarrow> bool" and store_safe_all :: "arrival list \<Rightarrow> bool" where
  "store_safe (Arrival sig a1 a2 a3 a4 a5) \<longleftrightarrow>
     store_safe_all a1 \<and> store_safe_all a2 \<and> store_safe_all a3 \<and> a4 = [] \<and> a5 = []"
| "store_safe_all [] \<longleftrightarrow> True"
| "store_safe_all (a # as) \<longleftrightarrow> store_safe a \<and> store_safe_all as"

text \<open>
  The run that fills an empty queue is not interrupted between its test and saving the hook, nor
  between replacing the hook and the store.
\<close>

fun hook_safe :: "arrival \<Rightarrow> bool" and hook_safe_first :: "arrival list \<Rightarrow> bool" where
  "hook_safe (Arrival sig a1 a2 a3 a4 a5) \<longleftrightarrow> a1 = [] \<and> hook_safe_first a2 \<and> (a2 = [] \<longrightarrow> a3 = [])"
| "hook_safe_first [] \<longleftrightarrow> True"
| "hook_safe_first (a # as) \<longleftrightarrow> hook_safe a"

section \<open>The queue\<close>

text \<open>Everything but the saved hook.\<close>

definition forget_saved :: "sig_state \<Rightarrow> sig_state" where
  "forget_saved s = s\<lparr>Hsig := NoHook, Hmask := 0, Hcount := 0\<rparr>"

abbreviation install_hook :: "sig_state \<Rightarrow> sig_state" where
  "install_hook \<equiv> lua_sethook SigHook 11 1"

lemmas handle_defs = handle_def lua_sethook_def save_hook_def forget_saved_def Let_def

lemma forget_saved_sel:
  "nsig (forget_saved s) = nsig s" "signals (forget_saved s) = signals s"
  "hook (forget_saved s) = hook s" "handlers (forget_saved s) = handlers s"
  by (simp_all add: forget_saved_def)

lemma forget_saved_eqD:
  "forget_saved s = forget_saved t \<Longrightarrow> nsig s = nsig t \<and> signals s = signals t \<and> hook s = hook t \<and> handlers s = handlers t"
  by (metis forget_saved_sel)

lemma forget_saved_handle_eq: "forget_saved (handle x (forget_saved s)) = forget_saved (handle x s)"
  by (simp add: handle_defs)

lemma forget_saved_handle:
  "forget_saved s = forget_saved t \<Longrightarrow> forget_saved (handle x s) = forget_saved (handle x t)"
  using forget_saved_handle_eq[of x s] forget_saved_handle_eq[of x t] by simp

lemma forget_saved_fold:
  "forget_saved s = forget_saved t \<Longrightarrow> forget_saved (fold handle xs s) = forget_saved (fold handle xs t)"
proof (induction xs arbitrary: s t)
  case (Cons x xs)
  show ?case using Cons.IH[OF forget_saved_handle[OF Cons.prems]] by simp
qed simp

lemma forget_saved_install_eq: "forget_saved (install_hook (forget_saved s)) = forget_saved (install_hook s)"
  by (simp add: handle_defs)

lemma forget_saved_install:
  "forget_saved s = forget_saved t \<Longrightarrow> forget_saved (install_hook s) = forget_saved (install_hook t)"
  using forget_saved_install_eq[of s] forget_saved_install_eq[of t] by simp

lemma forget_saved_save [simp]: "forget_saved (save_hook s) = forget_saved s"
  by (simp add: handle_defs)

lemma handle_positive: "0 < nsig (handle x s)"
  by (simp add: nsig_handle MAX_PENDING_SIGNALS_def)

lemma fold_handle_positive: "xs \<noteq> [] \<or> 0 < nsig s \<Longrightarrow> 0 < nsig (fold handle xs s)"
  by (induction xs arbitrary: s) (auto simp: handle_positive)

lemma install_hook_update:
  "install_hook (t\<lparr>signals := xs, nsig := n\<rparr>) = (install_hook t)\<lparr>signals := xs, nsig := n\<rparr>"
  by (simp add: lua_sethook_def)

lemma install_hook_absorbed:
  assumes "nsig s = 0" and "xs \<noteq> []"
  shows "install_hook (fold handle xs s) = fold handle xs s"
    and "forget_saved (fold handle xs (install_hook s)) = forget_saved (fold handle xs s)"
proof -
  obtain x ys where xs: "xs = x # ys" using assms(2) by (cases xs) auto
  have keep: "0 < nsig t \<Longrightarrow> install_hook t = t \<Longrightarrow> install_hook (fold handle ys t) = fold handle ys t" for t
  proof (induction ys arbitrary: t)
    case (Cons y ys)
    have "install_hook (handle y t) = handle y t"
      using Cons.prems by (simp add: handle_def Let_def install_hook_update)
    then show ?case using Cons.IH[OF handle_positive] by simp
  qed simp
  have "install_hook (handle x s) = handle x s" using assms(1) by (simp add: handle_defs)
  then show "install_hook (fold handle xs s) = fold handle xs s" using keep[OF handle_positive] xs by simp
  have "forget_saved (handle x (install_hook s)) = forget_saved (handle x s)"
    using assms(1) by (simp add: handle_defs)
  from forget_saved_fold[OF this]
  show "forget_saved (fold handle xs (install_hook s)) = forget_saved (fold handle xs s)"
    unfolding xs by simp
qed

text \<open>One run that is not interrupted is \<^verbatim>\<open>handle\<close>.\<close>

lemma handle_nested_plain: "handle_nested (plain sig) s = Inr (handle sig s)"
  by (simp add: plain_def store_signal_def handle_defs)

lemma completion_all_Nil: "completion_all e as = [] \<longleftrightarrow> as = []"
proof (cases as)
  case (Cons a as')
  then show ?thesis by (cases a) simp
qed simp

lemma last_store:
  assumes "0 < nsig t"
  shows "nsig t < MAX_PENDING_SIGNALS \<Longrightarrow> store_signal (nsig t) sig t = Inr (handle sig t)"
    and "\<not> nsig t < MAX_PENDING_SIGNALS \<Longrightarrow> handle sig t = t"
  using assms by (simp_all add: store_signal_def handle_def)

lemma nested_queue:
  "store_safe a \<Longrightarrow> \<exists>s'. handle_nested a s = Inr s' \<and>
     forget_saved s' = forget_saved (fold handle (completion (nsig s = 0) a) s)"
  "store_safe_all as \<Longrightarrow> \<exists>s'. handle_all as s = Inr s' \<and>
     forget_saved s' = forget_saved (fold handle (completion_all (nsig s = 0) as) s)"
proof (induction a s and as s rule: handle_nested_handle_all.induct)
  case (1 sig a1 a2 a3 a4 a5 s)
  have a45: "a4 = []" "a5 = []" and safe: "store_safe_all a1" "store_safe_all a2" "store_safe_all a3"
    using "1.prems" by simp_all
  show ?case
  proof (cases "nsig s = 0")
    case False
    then obtain s3 where s3: "handle_all a3 s = Inr s3"
      "forget_saved s3 = forget_saved (fold handle (completion_all False a3) s)"
      using 1 safe by auto
    moreover have "0 < nsig s3" using False fold_handle_positive[of _ s] forget_saved_eqD[OF s3(2)] by simp
    ultimately have "handle_nested (Arrival sig a1 a2 a3 a4 a5) s = Inr (handle sig s3)"
      using False a45 last_store[of s3 sig] s3(1) by simp
    then show ?thesis using False a45 forget_saved_handle[OF s3(2)] by simp
  next
    case True
    let ?c1 = "completion_all True a1" and ?c2 = "completion_all (a1 = []) a2"
    let ?c3 = "completion_all (a1 = [] \<and> a2 = []) a3"
    obtain s1 where s1: "handle_all a1 s = Inr s1" "forget_saved s1 = forget_saved (fold handle ?c1 s)"
      using "1.IH"(1)[OF True safe(1)] True by auto
    have e1: "nsig s1 = 0 \<longleftrightarrow> a1 = []"
      using True fold_handle_positive[of ?c1 s] forget_saved_eqD[OF s1(2)] by (cases "a1 = []") (auto simp: completion_all_Nil)
    obtain s2 where s2: "handle_all a2 (save_hook s1) = Inr s2"
      "forget_saved s2 = forget_saved (fold handle ?c2 (save_hook s1))"
      using "1.IH"(2)[OF True s1(1) safe(2)] e1 by (auto simp: save_hook_def)
    have "forget_saved (save_hook s1) = forget_saved (fold handle ?c1 s)" using s1(2) by simp
    from forget_saved_fold[OF this] have s2': "forget_saved s2 = forget_saved (fold handle (?c1 @ ?c2) s)"
      using s2(2) by simp
    have e2: "nsig s2 = 0 \<longleftrightarrow> a1 = [] \<and> a2 = []"
      using True fold_handle_positive[of "?c1 @ ?c2" s] forget_saved_eqD[OF s2']
      by (cases "?c1 @ ?c2 = []") (auto simp: completion_all_Nil)
    have m: "(if nsig s = 0 then bind_outcome (handle_all a1 s) (\<lambda>s. bind_outcome (handle_all a2 (save_hook s))
        (\<lambda>s. Inr (lua_sethook SigHook (1 + 2 + 8) 1 s))) else Inr s) = Inr (install_hook s2)"
      using True s1(1) s2(1) by simp
    obtain s3 where s3: "handle_all a3 (install_hook s2) = Inr s3"
      "forget_saved s3 = forget_saved (fold handle ?c3 (install_hook s2))"
      using "1.IH"(3)[OF m safe(3)] e2 by (auto simp: lua_sethook_def)
    note fs = forget_saved_fold[OF forget_saved_install[OF s2'], of ?c3]
    show ?thesis
    proof (cases "a1 = [] \<and> a2 = [] \<and> a3 = []")
      case True
      then show ?thesis using a45 \<open>nsig s = 0\<close> handle_nested_plain[of sig s] by (simp add: plain_def)
    next
      case False
      have "forget_saved s3 = forget_saved (fold handle (?c1 @ ?c2 @ ?c3) s)"
      proof (cases "?c1 @ ?c2 = []")
        case True
        then show ?thesis
          using False s3(2) fs install_hook_absorbed(2)[OF \<open>nsig s = 0\<close>, of ?c3] by (simp add: completion_all_Nil)
      next
        case False
        then show ?thesis
          using s3(2) fs install_hook_absorbed(1)[OF True False] by simp
      qed
      note s3' = this
      then have "0 < nsig s3"
        using False fold_handle_positive[of "?c1 @ ?c2 @ ?c3" s] forget_saved_eqD[OF s3'] by (auto simp: completion_all_Nil)
      then have "handle_nested (Arrival sig a1 a2 a3 a4 a5) s = Inr (handle sig s3)"
        using True a45 s1(1) s2(1) s3(1) last_store[of s3 sig] by simp
      then show ?thesis using True a45 forget_saved_handle[OF s3'] by simp
    qed
  qed
next
  case (2 s)
  then show ?case by simp
next
  case (3 a as s)
  then obtain s1 where s1: "handle_nested a s = Inr s1"
    "forget_saved s1 = forget_saved (fold handle (completion (nsig s = 0) a) s)" by auto
  have "completion (nsig s = 0) a \<noteq> []" by (cases a) simp
  then have "0 < nsig s1" using fold_handle_positive forget_saved_eqD[OF s1(2)] by simp
  moreover obtain s2 where "handle_all as s1 = Inr s2"
    "forget_saved s2 = forget_saved (fold handle (completion_all (nsig s1 = 0) as) s1)"
    using 3 s1 by auto
  ultimately show ?case using s1 forget_saved_fold[OF s1(2)] by simp
qed

text \<open>What the queue holds is what \<^verbatim>\<open>handle\<close> would make of the signals one after the other.\<close>

lemma fold_handle_wf: "sig_wf s \<Longrightarrow> sig_wf (fold handle xs s)"
  by (induction xs arbitrary: s) (auto intro: handle_wf)

lemma fold_handle_pending:
  "sig_wf s \<Longrightarrow> pending_signals (fold handle xs s) = take MAX_PENDING_SIGNALS (pending_signals s @ xs)"
proof (induction xs arbitrary: s)
  case Nil
  then show ?case using length_pending[of s] by (simp add: sig_wf_def)
next
  case (Cons x xs)
  then show ?case
    using handle_wf[OF Cons.prems, of x] length_pending[OF Cons.prems]
    by (auto simp: handle_pending sig_wf_def take_Cons' split: if_splits)
qed

lemma fold_handle_hook:
  "hook (fold handle xs s) = (if nsig s = 0 \<and> xs \<noteq> [] then SigHook else hook s)"
  by (induction xs arbitrary: s) (auto simp: handle_hook nsig_handle)

section \<open>The saved hook\<close>

definition saved_hook :: "sig_state \<Rightarrow> lua_hook \<times> int \<times> int" where
  "saved_hook s = (Hsig s, Hmask s, Hcount s)"

definition current_hook :: "sig_state \<Rightarrow> lua_hook \<times> int \<times> int" where
  "current_hook s = (hook s, hook_mask s, hook_count s)"

lemmas hook_defs = saved_hook_def current_hook_def save_hook_def lua_sethook_def store_signal_def

lemma fold_handle_saved:
  "saved_hook (fold handle xs s) = (if nsig s = 0 \<and> xs \<noteq> [] then current_hook s else saved_hook s)"
proof (induction xs arbitrary: s)
  case (Cons x xs)
  have "saved_hook (handle x s) = (if nsig s = 0 then current_hook s else saved_hook s)"
    by (simp add: hook_defs handle_def Let_def)
  then show ?case using Cons handle_positive[of x s] by simp
qed simp

lemma same_state:
  assumes "forget_saved s = forget_saved t" and "saved_hook s = saved_hook t"
  shows "s = t"
proof -
  have "u = (forget_saved u)\<lparr>Hsig := fst (saved_hook u), Hmask := fst (snd (saved_hook u)),
      Hcount := snd (snd (saved_hook u))\<rparr>" for u
    by (simp add: forget_saved_def saved_hook_def)
  then show ?thesis using assms by metis
qed

text \<open>Only a run that finds the queue empty saves the hook.\<close>

lemma stored:
  "store_signal i sig s = Inr s' \<Longrightarrow>
    0 < nsig s' \<and> saved_hook s' = saved_hook s \<and> hook s' = hook s \<and> current_hook s' = current_hook s"
  by (auto simp: hook_defs split: if_splits)

lemma installed: "saved_hook (lua_sethook f m c s) = saved_hook s" "nsig (lua_sethook f m c s) = nsig s"
  by (simp_all add: hook_defs)

lemma saved: "saved_hook (save_hook s) = current_hook s" "nsig (save_hook s) = nsig s"
  "current_hook (save_hook s) = current_hook s"
  by (simp_all add: hook_defs)

lemma nested_saved:
  "handle_nested a s = Inr s' \<Longrightarrow> 0 < nsig s' \<and> (0 < nsig s \<longrightarrow> saved_hook s' = saved_hook s \<and> hook s' = hook s)"
  "handle_all as s = Inr s' \<Longrightarrow> (as \<noteq> [] \<or> 0 < nsig s \<longrightarrow> 0 < nsig s') \<and> (0 < nsig s \<longrightarrow> saved_hook s' = saved_hook s \<and> hook s' = hook s)"
proof (induction a s and as s arbitrary: s' and s' rule: handle_nested_handle_all.induct)
  case (1 sig a1 a2 a3 a4 a5 s)
  let ?head = "if nsig s = 0 then bind_outcome (handle_all a1 s) (\<lambda>s. bind_outcome (handle_all a2 (save_hook s))
      (\<lambda>s. Inr (lua_sethook SigHook (1 + 2 + 8) 1 s))) else Inr s"
  obtain s2 s3 where s2: "?head = Inr s2" and s3: "handle_all a3 s2 = Inr s3"
    and tail: "(if nsig s3 < MAX_PENDING_SIGNALS then bind_outcome (handle_all a4 s3) (\<lambda>s.
        let i = nsig s in bind_outcome (handle_all a5 s) (\<lambda>s. store_signal i sig s)) else Inr s3) = Inr s'"
    using "1.prems" unfolding handle_nested.simps bind_outcome_Inr_iff by blast
  have pos: "0 < nsig s \<Longrightarrow> 0 < nsig s3 \<and> saved_hook s3 = saved_hook s \<and> hook s3 = hook s"
    using s2 "1.IH"(3)[OF s2 s3] by auto
  show ?case
  proof (cases "nsig s3 < MAX_PENDING_SIGNALS")
    case False
    then show ?thesis using tail pos by (auto simp: MAX_PENDING_SIGNALS_def)
  next
    case True
    then obtain s4 s5 where s4: "handle_all a4 s3 = Inr s4" and s5: "handle_all a5 s4 = Inr s5"
      and st: "store_signal (nsig s4) sig s5 = Inr s'"
      using tail by (auto simp: bind_outcome_Inr_iff Let_def)
    from "1.IH"(4)[OF s2 s3 True s4] "1.IH"(5)[OF s2 s3 True s4 refl s5] stored[OF st] pos
    show ?thesis by metis
  qed
next
  case (3 a as s)
  obtain s1 where s1: "handle_nested a s = Inr s1" "handle_all as s1 = Inr s'"
    using "3.prems" by (auto simp: bind_outcome_Inr_iff)
  from "3.IH"(1)[OF s1(1)] "3.IH"(2)[OF s1] show ?case by auto
qed auto

lemma nested_saved_first:
  "handle_nested a s = Inr s' \<Longrightarrow> store_safe a \<Longrightarrow> hook_safe a \<Longrightarrow> nsig s = 0 \<Longrightarrow> saved_hook s' = current_hook s"
  "handle_all as s = Inr s' \<Longrightarrow> store_safe_all as \<Longrightarrow> hook_safe_first as \<Longrightarrow> nsig s = 0 \<Longrightarrow>
     as \<noteq> [] \<Longrightarrow> saved_hook s' = current_hook s"
proof (induction a s and as s arbitrary: s' and s' rule: handle_nested_handle_all.induct)
  case (1 sig a1 a2 a3 a4 a5 s)
  then have a: "a1 = []" "a4 = []" "a5 = []" "store_safe_all a2" "hook_safe_first a2" "a2 = [] \<longrightarrow> a3 = []" by simp_all
  obtain s2 where s2: "handle_all a2 (save_hook s) = Inr s2"
    using "1.prems" a by (auto simp: bind_outcome_Inr_iff)
  have "saved_hook s2 = current_hook s \<and> (0 < nsig s2 \<longleftrightarrow> a2 \<noteq> [])"
  proof (cases "a2 = []")
    case True
    then have "s2 = save_hook s" using s2 by simp
    then show ?thesis using True \<open>nsig s = 0\<close> by (simp add: saved)
  next
    case False
    then show ?thesis
      using "1.IH"(2)[OF \<open>nsig s = 0\<close> _ s2 a(4,5)] a(1) \<open>nsig s = 0\<close> nested_saved(2)[OF s2] by (simp add: saved)
  qed
  then have first: "saved_hook s2 = current_hook s" "0 < nsig s2 \<longleftrightarrow> a2 \<noteq> []" by blast+
  obtain s3 where s3: "handle_all a3 (lua_sethook SigHook (1 + 2 + 8) 1 s2) = Inr s3"
    and tail: "(if nsig s3 < MAX_PENDING_SIGNALS then store_signal (nsig s3) sig s3 else Inr s3) = Inr s'"
    using "1.prems"(1,4) s2 unfolding a(1-3) by (auto simp: bind_outcome_Inr_iff Let_def cong: if_cong)
  have "saved_hook s3 = current_hook s"
    using nested_saved(2)[OF s3] s3 first a(6) by (cases "a2 = []") (auto simp: installed)
  then show ?case using tail stored by (auto split: if_splits)
next
  case (3 a as s)
  then obtain s1 where s1: "handle_nested a s = Inr s1" "handle_all as s1 = Inr s'"
    by (auto simp: bind_outcome_Inr_iff)
  then show ?case using "3.IH"(1)[OF s1(1)] "3.prems" nested_saved(1)[OF s1(1)] nested_saved(2)[OF s1(2)] by auto
qed auto

lemma nested_safe_fold:
  assumes "store_safe a" and "0 < nsig s \<or> hook_safe a"
  shows "handle_nested a s = Inr (fold handle (completion (nsig s = 0) a) s)"
proof -
  let ?t = "fold handle (completion (nsig s = 0) a) s"
  obtain s' where s': "handle_nested a s = Inr s'" "forget_saved s' = forget_saved ?t"
    using nested_queue(1)[OF assms(1)] by blast
  have ne: "completion (nsig s = 0) a \<noteq> []" by (cases a) simp
  have "s' = ?t"
    using assms nested_saved(1)[OF s'(1)] nested_saved_first(1)[OF s'(1)] ne
    by (intro same_state[OF s'(2)]) (auto simp: fold_handle_saved)
  with s'(1) show ?thesis by simp
qed

section \<open>Nested arrivals among the steps of the hook\<close>

text \<open>
  The step relation of the theory Signals, with arrivals that are trees of runs. A tree that ends in undefined
  behaviour is not a step. Its signals are accepted in the order in which the runs end, as far
  as the queue has room.
\<close>

datatype event = Plain label | Nested arrival

inductive full_step :: "event \<Rightarrow> config \<Rightarrow> config \<Rightarrow> bool" where
  plain_event: "sig_step l c c' \<Longrightarrow> full_step (Plain l) c c'"
| nested_event: "handle_nested a (st c) = Inr s' \<Longrightarrow>
     full_step (Nested a) c (c\<lparr>st := s', accepted := accepted c @
       take (MAX_PENDING_SIGNALS - nsig (st c)) (completion (nsig (st c) = 0) a)\<rparr>)"

text \<open>
  Nothing arrives before the reset, no Lua function fails, and \<^verbatim>\<open>handle\<close> is not interrupted at its store nor,
  when it finds the queue empty, around the replacement of the hook.
\<close>

fun calm_event :: "event \<Rightarrow> config \<Rightarrow> bool" where
  "calm_event (Plain l) c \<longleftrightarrow> calm l c"
| "calm_event (Nested a) c \<longleftrightarrow> phase c \<noteq> HookEnd \<and> store_safe a \<and> (0 < nsig (st c) \<or> hook_safe a)"

inductive reach_full :: "config \<Rightarrow> bool" where
  full_start: "initial c \<Longrightarrow> reach_full c"
| full_more: "reach_full c \<Longrightarrow> calm_event e c \<Longrightarrow> full_step e c c' \<Longrightarrow> reach_full c'"


text \<open>A calm tree of runs is a sequence of undivided arrivals.\<close>

lemma reach_arrivals:
  "reach calm c \<Longrightarrow> phase c \<noteq> HookEnd \<Longrightarrow>
    reach calm (c\<lparr>st := fold handle xs (st c), accepted := accepted c @ take (MAX_PENDING_SIGNALS - nsig (st c)) xs\<rparr>)"
proof (induction xs arbitrary: c)
  case (Cons x xs)
  let ?c1 = "c\<lparr>st := handle x (st c),
    accepted := (if nsig (st c) < MAX_PENDING_SIGNALS then accepted c @ [x] else accepted c)\<rparr>"
  have "reach calm ?c1"
    by (rule reach.step[OF Cons.prems(1) _ sig_step.arrive]) (simp add: calm_def Cons.prems(2))
  from Cons.IH[OF this] Cons.prems(2) show ?case
    by (simp add: nsig_handle take_Cons' split: if_splits)
qed simp

lemma reach_full_calm: "reach_full c \<Longrightarrow> reach calm c"
proof (induction rule: reach_full.induct)
  case (full_more c e c')
  from full_more(3) show ?case
  proof (cases rule: full_step.cases)
    case (plain_event l)
    then show ?thesis using full_more reach.step by auto
  next
    case (nested_event a s')
    then have "s' = fold handle (completion (nsig (st c) = 0) a) (st c)"
      using full_more(2) nested_safe_fold[of a "st c"] by simp
    then show ?thesis using nested_event full_more reach_arrivals by simp
  qed
qed (rule reach.start)



section \<open>Properties\<close>

text \<open>
  C23: As long as no run of \<^verbatim>\<open>handle\<close> is interrupted between its test of the bound and its store,
  however deeply the runs are nested: every run returns, the queue holds the signals in the order in
  which the runs end, cut at 32, and the hook is installed. If the run that fills the empty queue is
  not interrupted around the replacement of the hook either, the state is exactly the one
  that undisturbed runs one after the other leave, the saved hook of the program included.
\<close>

theorem nested_runs_are_sequential:
  assumes "store_safe a" and "sig_wf s"
  shows "\<exists>s'. handle_nested a s = Inr s' \<and> sig_wf s' \<and>
    pending_signals s' = take MAX_PENDING_SIGNALS (pending_signals s @ completion (nsig s = 0) a) \<and>
    hook s' = (if nsig s = 0 then SigHook else hook s) \<and>
    (nsig s = 0 \<longrightarrow> hook_safe a \<longrightarrow> saved_hook s' = current_hook s) \<and>
    (0 < nsig s \<or> hook_safe a \<longrightarrow> s' = fold handle (completion (nsig s = 0) a) s)"
proof -
  let ?t = "fold handle (completion (nsig s = 0) a) s"
  obtain s' where s': "handle_nested a s = Inr s'" "forget_saved s' = forget_saved ?t"
    using nested_queue(1)[OF assms(1)] by blast
  note eq = forget_saved_eqD[OF s'(2)]
  have ne: "completion (nsig s = 0) a \<noteq> []" by (cases a) simp
  have "sig_wf s'" "pending_signals s' = pending_signals ?t"
    using eq fold_handle_wf[OF assms(2)] by (simp_all add: sig_wf_def pending_signals_def)
  moreover have "nsig s = 0 \<Longrightarrow> hook_safe a \<Longrightarrow> saved_hook s' = current_hook s"
    using nested_saved_first(1)[OF s'(1) assms(1)] by simp
  moreover have "s' = ?t" if "0 < nsig s \<or> hook_safe a"
    using nested_safe_fold[OF assms(1) that] s'(1) by simp
  ultimately show ?thesis
    using s'(1) eq ne by (intro exI[of _ s']) (simp add: fold_handle_pending[OF assms(2)] fold_handle_hook)
qed

theorem nested_runs_are_sequential_witness:
  "\<exists>s'. handle_nested (Arrival 15 [] [plain 1] [plain 2] [] []) idle_state = Inr s' \<and>
    pending_signals s' = [1, 2, 15] \<and> saved_hook s' = current_hook idle_state"
  using nested_runs_are_sequential[of "Arrival 15 [] [plain 1] [plain 2] [] []" idle_state]
  by (auto simp: plain_def idle_state_def sig_wf_def pending_signals_def MAX_PENDING_SIGNALS_def)

text \<open>
  C22: As long as no Lua function fails, no signal hits the moment between the end of the loop of the hook
  and \<^verbatim>\<open>nsig = 0\<close>, none interrupts \<^verbatim>\<open>handle\<close> between its test of the bound and its store, and none
  interrupts around the replacement of the hook the run of \<^verbatim>\<open>handle\<close> that finds the queue empty, no queued signal is lost,
  duplicated or reordered, wherever else signals arrive, also while the hook or \<^verbatim>\<open>handle\<close> itself runs: the signals
  accepted so far are those whose functions were called followed by those that wait, and while
  signals wait outside the hook, the hook is installed.
\<close>

theorem nested_signals_delivered_in_order:
  assumes "reach_full c"
  shows "accepted c = delivered c @ waiting c \<and> length (waiting c) \<le> MAX_PENDING_SIGNALS \<and>
    (phase c = Running \<and> waiting c \<noteq> [] \<longrightarrow> hook (st c) = SigHook)"
  by (rule signals_delivered_in_order[OF reach_full_calm[OF assms]])

theorem nested_signals_delivered_in_order_witness:
  "\<exists>c c'. full_step (Nested (Arrival 15 [] [] [plain 2] [] [])) c c' \<and> accepted c = [1] \<and>
    accepted c' = [1, 2, 15] \<and> waiting c' = [1, 2, 15] \<and> hook (st c') = SigHook"
proof -
  let ?a = "Arrival 15 [] [] [plain 2] [] []"
  define c where "c = idle_config\<lparr>st := handle 1 idle_state, accepted := [1]\<rparr>"
  define c' where "c' = c\<lparr>st := fold handle [2, 15] (st c), accepted := accepted c @ [2, 15]\<rparr>"
  have c: "phase c = Running" "nsig (st c) = 1" "accepted c = [1]" "delivered c = []"
    by (simp_all add: c_def idle_config_def nsig_handle idle_state_def MAX_PENDING_SIGNALS_def)
  have safe: "store_safe ?a" "completion False ?a = [2, 15]" by (simp_all add: plain_def)
  have "sig_step (Arrive 1) idle_config c"
    using sig_step.arrive[of 1 idle_config] by (simp add: c_def idle_config_def idle_state_def MAX_PENDING_SIGNALS_def)
  moreover have "initial idle_config" by (simp add: idle_config_def idle_state_def initial_def sig_wf_def)
  ultimately have r: "reach_full c"
    using full_more[OF full_start, of idle_config "Plain (Arrive 1)" c] plain_event
    by (simp add: calm_def idle_config_def)
  have "handle_nested ?a (st c) = Inr (fold handle [2, 15] (st c))"
    using nested_safe_fold[OF safe(1), of "st c"] safe(2) c(2) by simp
  then have step: "full_step (Nested ?a) c c'"
    using nested_event[of ?a c "fold handle [2, 15] (st c)"] safe(2) c
    by (simp add: c'_def MAX_PENDING_SIGNALS_def del: fold_simps)
  have "calm_event (Nested ?a) c" using safe(1) c by simp
  note reach = full_more[OF r this step]
  have "accepted c' = [1, 2, 15]" "delivered c' = []" "phase c' = Running" using c by (simp_all add: c'_def)
  with nested_signals_delivered_in_order[OF reach] step c(3) show ?thesis by (intro exI[of _ c] exI[of _ c']) auto
qed



text \<open>
  C24: The store of \<^verbatim>\<open>handle\<close> is not protected. If signals that arrive between the test of the bound
  and the use of \<^verbatim>\<open>nsig\<close> fill the queue, the signal is stored behind the end of the array; if
  signals arrive between reading \<^verbatim>\<open>nsig\<close> and the store, they are lost, all of them.
\<close>

theorem interrupted_store:
  assumes "sig_wf s" and "0 < nsig s" and "nsig s < MAX_PENDING_SIGNALS" and "store_safe_all as"
  shows "(MAX_PENDING_SIGNALS \<le> nsig s + length (completion_all False as) \<longrightarrow>
      handle_nested (Arrival sig [] [] [] as []) s = Inl (Undefined ''signals index'')) \<and>
    (\<exists>s'. handle_nested (Arrival sig [] [] [] [] as) s = Inr s' \<and> pending_signals s' = pending_signals s @ [sig])"
proof -
  let ?t = "fold handle (completion_all False as) s"
  obtain s1 where s1: "handle_all as s = Inr s1" "forget_saved s1 = forget_saved ?t"
    using nested_queue(2)[OF assms(4), of s] assms(2) by auto
  have len: "length (pending_signals s) = nsig s" by (rule length_pending[OF assms(1)])
  have pend: "pending_signals s1 = take MAX_PENDING_SIGNALS (pending_signals s @ completion_all False as)"
    using forget_saved_eqD[OF s1(2)] fold_handle_pending[OF assms(1)] by (simp add: pending_signals_def)
  have wf: "sig_wf s1"
    using forget_saved_eqD[OF s1(2)] fold_handle_wf[OF assms(1)] by (simp add: sig_wf_def)
  have "nsig s1 = min MAX_PENDING_SIGNALS (nsig s + length (completion_all False as))"
    using length_pending[OF wf] len unfolding pend by simp
  moreover have "take (nsig s) (signals s1) = pending_signals s"
  proof -
    have "take (nsig s) (pending_signals s1) = take (nsig s) (signals s1)"
      using \<open>nsig s1 = _\<close> assms(3) by (simp add: pending_signals_def)
    then show ?thesis using len assms(3) unfolding pend by (simp add: min_def)
  qed
  ultimately show ?thesis
    using s1(1) assms(2,3) wf
    by (auto simp: store_signal_def Let_def pending_signals_def take_Suc_conv_app_nth sig_wf_def)
qed

text \<open>
  A signal that arrives in the first run for an empty queue before the hook is saved makes
  \<^verbatim>\<open>sighook\<close> the saved hook: when the functions have run, the hook of the program is not restored,
  and \<^verbatim>\<open>sighook\<close> stays installed and runs from then on at every instruction.
\<close>

theorem hook_of_program_lost:
  assumes "sig_wf s" "nsig s = 0" and "handlers s sig1 = Some f1" "handlers s sig2 = Some f2" "runs f1" "runs f2"
  shows "\<exists>s1 s2. handle_nested (Arrival sig1 [plain sig2] [] [] [] []) s = Inr s1 \<and>
    sighook runs s1 = (s2, [f2, f1], True) \<and> hook s2 = SigHook \<and> sighook runs s2 = (s2, [], True)"
proof -
  let ?s1 = "handle sig1 (install_hook (save_hook (handle sig2 s)))"
  have "nsig (install_hook (save_hook (handle sig2 s))) = 1"
    using assms(2) by (simp add: nsig_handle MAX_PENDING_SIGNALS_def installed saved)
  then have n: "handle_nested (Arrival sig1 [plain sig2] [] [] [] []) s = Inr ?s1"
    using assms(2) last_store(1)[of "install_hook (save_hook (handle sig2 s))" sig1]
    by (simp add: handle_nested_plain MAX_PENDING_SIGNALS_def)
  have s1: "nsig ?s1 = 2" "signals ?s1 ! 0 = sig2" "signals ?s1 ! 1 = sig1" "Hsig ?s1 = SigHook"
    "Hmask ?s1 = 11" "Hcount ?s1 = 1" "handlers ?s1 = handlers s"
    using assms(1,2) by (auto simp: handle_defs sig_wf_def MAX_PENDING_SIGNALS_def)
  let ?s2 = "(hook_restore ?s1)\<lparr>nsig := 0\<rparr>"
  have "call_loop runs (hook_restore ?s1) 0 = ([f2, f1], True)"
    using s1 assms(3-6) by (subst call_loop_all) (auto simp: less_2_cases_iff hook_restore_def lua_sethook_def upt_rec)
  then have h: "sighook runs ?s1 = (?s2, [f2, f1], True)" by (simp add: sighook_def Let_def)
  have "hook ?s2 = SigHook" using s1 by (simp add: hook_restore_def lua_sethook_def)
  moreover have "hook_restore ?s2 = ?s2" by (simp add: hook_restore_def lua_sethook_def)
  then have "sighook runs ?s2 = (?s2, [], True)"
    by (simp add: sighook_def call_loop.simps)
  ultimately show ?thesis using n h by blast
qed

theorem hook_of_program_lost_witness:
  "\<exists>s1 s2. handle_nested (Arrival 15 [plain 1] [] [] [] []) (idle_state\<lparr>handlers := (\<lambda>_. Some 7)\<rparr>) = Inr s1 \<and>
    sighook (\<lambda>_. True) s1 = (s2, [7, 7], True) \<and> hook s2 = SigHook"
  using hook_of_program_lost[of "idle_state\<lparr>handlers := (\<lambda>_. Some 7)\<rparr>" 15 7 1 7 "\<lambda>_. True"]
  by (auto simp: idle_state_def sig_wf_def)

theorem interrupted_store_witness:
  "handle_nested (Arrival 15 [] [] [] [plain 1] []) (idle_state\<lparr>nsig := 31\<rparr>) = Inl (Undefined ''signals index'')"
  using interrupted_store[of "idle_state\<lparr>nsig := 31\<rparr>" "[plain 1]" 15]
  by (simp add: idle_state_def sig_wf_def plain_def MAX_PENDING_SIGNALS_def)

end
