(* ===== verification/Lua_Args.thy ===== *)
theory Lua_Args
  imports Prelude
begin

text \<open>
  How a C function reads its arguments from the Lua stack: the functions of \<^verbatim>\<open>lauxlib\<close> that
  the wrappers around other libraries call. \<open>num2str\<close> is the text that Lua makes of a number
  where a string is wanted.
\<close>

section \<open>Arguments\<close>

text \<open>Argument \<open>i\<close> of a call, counted from 1; \<open>None\<close> is \<^verbatim>\<open>LUA_TNONE\<close>.\<close>

definition lua_arg :: "lua_value list \<Rightarrow> nat \<Rightarrow> lua_value option" where
  "lua_arg args i = (if 1 \<le> i \<and> i \<le> length args then Some (args ! (i - 1)) else None)"

fun lua_tostring :: "(lua_value \<Rightarrow> bytes) \<Rightarrow> lua_value option \<Rightarrow> bytes option" where
  "lua_tostring num2str (Some (LStr s)) = Some s"
| "lua_tostring num2str (Some (LInt i)) = Some (num2str (LInt i))"
| "lua_tostring num2str (Some (LNum r)) = Some (num2str (LNum r))"
| "lua_tostring num2str _ = None"

text \<open>
  \<^verbatim>\<open>lua_tointeger\<close>: 0 for what is not a number with an integer value. It is not called on
  strings.
\<close>

fun lua_tointeger :: "lua_value option \<Rightarrow> int" where
  "lua_tointeger (Some (LInt i)) = i"
| "lua_tointeger (Some (LNum r)) =
     (if r = of_int \<lfloor>r\<rfloor> \<and> - (2 ^ 63) \<le> \<lfloor>r\<rfloor> \<and> \<lfloor>r\<rfloor> < 2 ^ 63 then \<lfloor>r\<rfloor> else 0)"
| "lua_tointeger _ = 0"

definition luaL_checkstring :: "(lua_value \<Rightarrow> bytes) \<Rightarrow> lua_value list \<Rightarrow> nat \<Rightarrow> bytes outcome" where
  "luaL_checkstring num2str args i =
     (case lua_tostring num2str (lua_arg args i) of
        None \<Rightarrow> Inl (ArgError i ''string expected'')
      | Some s \<Rightarrow> Inr s)"

text \<open>
  \<^verbatim>\<open>luaL_checkinteger\<close>; \<open>str2int\<close> is the integer that Lua reads from a string, if any.
\<close>

definition luaL_checkinteger :: "(bytes \<Rightarrow> int option) \<Rightarrow> lua_value list \<Rightarrow> nat \<Rightarrow> int outcome" where
  "luaL_checkinteger str2int args i =
     (case lua_arg args i of
        Some (LInt n) \<Rightarrow> Inr n
      | Some (LNum r) \<Rightarrow>
          if r = of_int \<lfloor>r\<rfloor> \<and> - (2 ^ 63) \<le> \<lfloor>r\<rfloor> \<and> \<lfloor>r\<rfloor> < 2 ^ 63 then Inr \<lfloor>r\<rfloor>
          else Inl (ArgError i ''number has no integer representation'')
      | Some (LStr s) \<Rightarrow>
          (case str2int s of None \<Rightarrow> Inl (ArgError i ''number expected'') | Some n \<Rightarrow> Inr n)
      | _ \<Rightarrow> Inl (ArgError i ''number expected''))"

text \<open>\<^verbatim>\<open>lua_toboolean\<close>: everything but false, nil and a missing argument is true.\<close>

fun lua_toboolean :: "lua_value option \<Rightarrow> bool" where
  "lua_toboolean None = False"
| "lua_toboolean (Some LNil) = False"
| "lua_toboolean (Some (LBool b)) = b"
| "lua_toboolean (Some _) = True"

text \<open>\<^verbatim>\<open>luaL_optlstring\<close> with a null pointer as the default.\<close>

definition luaL_optstring :: "(lua_value \<Rightarrow> bytes) \<Rightarrow> lua_value list \<Rightarrow> nat \<Rightarrow> bytes option outcome" where
  "luaL_optstring num2str args i =
     (if lua_arg args i = None \<or> lua_arg args i = Some LNil then Inr None
      else bind_outcome (luaL_checkstring num2str args i) (\<lambda>s. Inr (Some s)))"

text \<open>
  \<^verbatim>\<open>luaL_checkoption\<close> on a list that ends in \<^verbatim>\<open>NULL\<close>: the index of the option, compared with
  \<^verbatim>\<open>strcmp\<close>. The text of a number is no option of any of the lists.
\<close>

fun option_index :: "string list \<Rightarrow> bytes \<Rightarrow> nat \<Rightarrow> nat option" where
  "option_index [] n i = None"
| "option_index (x # xs) n i = (if ascii x = n then Some i else option_index xs n (Suc i))"

definition option_arg :: "nat \<Rightarrow> string option \<Rightarrow> lua_value option \<Rightarrow> bytes outcome" where
  "option_arg i def v =
     (case v of
        Some (LStr s) \<Rightarrow> Inr (c_str s)
      | Some (LInt _) \<Rightarrow> Inl (ArgError i ''invalid option'')
      | Some (LNum _) \<Rightarrow> Inl (ArgError i ''invalid option'')
      | _ \<Rightarrow> if v = None \<or> v = Some LNil
             then (case def of Some d \<Rightarrow> Inr (ascii d) | None \<Rightarrow> Inl (ArgError i ''string expected''))
             else Inl (ArgError i ''string expected''))"

definition luaL_checkoption :: "lua_value list \<Rightarrow> nat \<Rightarrow> string option \<Rightarrow> string list \<Rightarrow> nat outcome" where
  "luaL_checkoption args i def lst =
     bind_outcome (option_arg i def (lua_arg args i)) (\<lambda>n.
       case option_index lst n 0 of
         None \<Rightarrow> Inl (ArgError i ''invalid option'')
       | Some k \<Rightarrow> Inr k)"

lemma lua_arg_simps [simp]:
  "lua_arg args 0 = None" "lua_arg [] i = None"
  "lua_arg (a # args) (Suc 0) = Some a" "lua_arg (a # args) 1 = Some a"
  "lua_arg (a # b # args) 2 = Some b" "lua_arg (a # b # c # args) 3 = Some c"
  "lua_arg (a # b # c # d # args) 4 = Some d"
  "lua_arg [a] 2 = None" "lua_arg [a] 3 = None" "lua_arg [a, b] 3 = None"
  by (simp_all add: lua_arg_def numeral_eq_Suc)

lemma option_index_nth:
  "distinct (map ascii xs) \<Longrightarrow> i < length xs \<Longrightarrow> option_index xs (ascii (xs ! i)) k = Some (k + i)"
proof (induction xs arbitrary: i k)
  case (Cons x xs)
  then show ?case by (cases i) auto
qed simp

lemma checkoption_nth:
  assumes "distinct (map ascii lst)" and "k < length lst" and "c_str (ascii (lst ! k)) = ascii (lst ! k)"
    and "lua_arg args i = Some (LStr (ascii (lst ! k)))"
  shows "luaL_checkoption args i def lst = Inr k"
  using assms option_index_nth[of lst k 0] by (simp add: luaL_checkoption_def option_arg_def)

end
