(* ===== verification/Pposix.thy ===== *)
theory Pposix
  imports Lua_Args
begin

text \<open>
  \<^verbatim>\<open>util-src/pposix.c\<close>: the wrappers around POSIX calls of the server: becoming a daemon,
  system log, users and groups, the file mode mask, resource limits, pipes, the environment and
  appending to a file. The constants are those of Linux. A system call is a parameter; the
  state \<open>'k\<close> of the kernel that it works on is arbitrary, and an error is \<open>Some\<close> error number.
  \<open>num2str\<close> is the text that Lua makes of a number where a string is wanted.
\<close>

section \<open>Becoming a daemon\<close>

datatype call_end = Returns "lua_value list" | Exits int | Aborts

text \<open>The arguments are what getppid, the first fork, setsid and the second fork return.\<close>

definition lc_daemonize :: "int \<Rightarrow> int \<Rightarrow> int \<Rightarrow> int \<Rightarrow> call_end" where
  "lc_daemonize getppid fork1 setsid fork2 =
     (if getppid = 1 then Returns [LBool False, LStr (ascii ''already-daemonized'')]
      else if fork1 < 0 then Returns [LBool False, LStr (ascii ''fork-failed'')]
      else if fork1 \<noteq> 0 then Returns [LBool True, LInt fork1]
      else if setsid = - 1 then Returns [LBool False, LStr (ascii ''setsid-failed'')]
      else if fork2 \<noteq> 0 then Exits 0
      else Returns [LBool True, LNil])"

section \<open>System log\<close>

definition facility_strings :: "string list" where
  "facility_strings =
     [''auth'', ''authpriv'', ''cron'', ''daemon'', ''ftp'', ''kern'', ''local0'', ''local1'', ''local2'',
      ''local3'', ''local4'', ''local5'', ''local6'', ''local7'', ''lpr'', ''mail'', ''syslog'', ''user'',
      ''uucp'']"

text \<open>The numbers of the constants of \<^verbatim>\<open>syslog.h\<close>.\<close>

definition LOG_NEWS :: int where "LOG_NEWS = 56"
definition LOG_SYSLOG :: int where "LOG_SYSLOG = 40"
definition LOG_USER :: int where "LOG_USER = 8"
definition LOG_UUCP :: int where "LOG_UUCP = 64"

definition facility_constants :: "int list" where
  "facility_constants =
     [32, 80, 72, 24, 88, 0, 128, 136, 144, 152, 160, 168, 176, 184, 48, 16, LOG_NEWS, LOG_SYSLOG, LOG_USER,
      LOG_UUCP, - 1]"

text \<open>
  The C library's side of the log: the open facility, the mask of \<^verbatim>\<open>setlogmask\<close> and the
  messages that passed the mask, with their levels.
\<close>

record syslog_state =
  syslog_ident :: "bytes option"
  log_facility :: int
  log_mask :: int
  logged :: "(int \<times> bytes) list"

definition lc_syslog_open ::
  "(lua_value \<Rightarrow> bytes) \<Rightarrow> lua_value list \<Rightarrow> syslog_state \<Rightarrow> (syslog_state \<times> lua_value list) outcome" where
  "lc_syslog_open num2str args s =
     bind_outcome (luaL_checkoption args 2 (Some ''daemon'') facility_strings) (\<lambda>f.
     bind_outcome (luaL_checkstring num2str args 1) (\<lambda>ident.
       Inr (s\<lparr>syslog_ident := Some (c_str ident), log_facility := facility_constants ! f\<rparr>, [])))"

definition level_strings :: "string list" where
  "level_strings = [''debug'', ''info'', ''notice'', ''warn'', ''error'']"

definition level_constants :: "int list" where
  "level_constants = [7, 6, 5, 4, 2, - 1]"

text \<open>\<^verbatim>\<open>syslog\<close> drops a message whose level is not in the mask.\<close>

definition syslog :: "int \<Rightarrow> bytes \<Rightarrow> syslog_state \<Rightarrow> syslog_state" where
  "syslog level msg s = (if bit (log_mask s) (nat level) then s\<lparr>logged := logged s @ [(level, msg)]\<rparr> else s)"

text \<open>
  With two arguments the message is not checked: without a string \<^verbatim>\<open>%s\<close> gets a null pointer.
\<close>

definition lc_syslog_log ::
  "(lua_value \<Rightarrow> bytes) \<Rightarrow> lua_value list \<Rightarrow> syslog_state \<Rightarrow> (syslog_state \<times> lua_value list) outcome" where
  "lc_syslog_log num2str args s =
     bind_outcome (luaL_checkoption args 1 (Some ''notice'') level_strings) (\<lambda>l.
       let level = level_constants ! l in
       if length args = 3 then
         bind_outcome (luaL_checkstring num2str args 2) (\<lambda>a.
         bind_outcome (luaL_checkstring num2str args 3) (\<lambda>b.
           Inr (syslog level (c_str a @ ascii '': '' @ c_str b) s, [])))
       else
         case lua_tostring num2str (lua_arg args 2) of
           None \<Rightarrow> Inl (Undefined ''null pointer for a string conversion'')
         | Some a \<Rightarrow> Inr (syslog level (c_str a) s, []))"

definition lc_syslog_close :: "syslog_state \<Rightarrow> syslog_state \<times> lua_value list" where
  "lc_syslog_close s = (s\<lparr>syslog_ident := None\<rparr>, [])"

function setmask_loop :: "nat \<Rightarrow> int \<Rightarrow> int" where
  "setmask_loop idx msk =
     (let msk1 = msk OR push_bit (nat (level_constants ! idx)) 1 in
      if Suc idx \<le> 4 then setmask_loop (Suc idx) msk1 else msk1)"
  by pat_completeness auto
termination by (relation "measure (\<lambda>(idx, msk). 5 - idx)") auto

declare setmask_loop.simps [simp del]

definition lc_syslog_setmask :: "lua_value list \<Rightarrow> syslog_state \<Rightarrow> (syslog_state \<times> lua_value list) outcome" where
  "lc_syslog_setmask args s =
     bind_outcome (luaL_checkoption args 1 (Some ''notice'') level_strings) (\<lambda>l.
       Inr (s\<lparr>log_mask := setmask_loop l 0\<rparr>, []))"

section \<open>Users and groups\<close>

definition EPERM :: errno where "EPERM = 1"
definition ENOMEM :: errno where "ENOMEM = 12"
definition EINVAL :: errno where "EINVAL = 22"

definition lc_setuid ::
  "(lua_value \<Rightarrow> bytes) \<Rightarrow> (bytes \<Rightarrow> (nat \<times> nat) option) \<Rightarrow> (nat \<Rightarrow> 'k \<Rightarrow> 'k \<times> errno option)
    \<Rightarrow> lua_value list \<Rightarrow> 'k \<Rightarrow> 'k \<times> lua_value list" where
  "lc_setuid num2str getpwnam setuid args k =
     (let go = (\<lambda>uid. if uid > - 1 then
                        (case setuid (nat uid) k of
                           (k', None) \<Rightarrow> (k', [LBool True])
                         | (k', Some e) \<Rightarrow>
                             (k', [LBool False, LStr (ascii (if e = EINVAL then ''invalid-uid''
                                                             else if e = EPERM then ''permission-denied''
                                                             else ''unknown-error''))]))
                      else (k, [LBool False, LStr (ascii ''invalid-uid'')])) in
      case args of
        [] \<Rightarrow> (k, [])
      | LInt i # _ \<Rightarrow> go (to_int i)
      | a # _ \<Rightarrow>
          (case lua_tostring num2str (Some a) of
             Some name \<Rightarrow>
               (case getpwnam (c_str name) of
                  None \<Rightarrow> (k, [LBool False, LStr (ascii ''no-such-user'')])
                | Some (pw_uid, pw_gid) \<Rightarrow> go (to_int (int pw_uid)))
           | None \<Rightarrow> go (to_int (lua_tointeger (Some a)))))"

definition lc_setgid ::
  "(lua_value \<Rightarrow> bytes) \<Rightarrow> (bytes \<Rightarrow> nat option) \<Rightarrow> (nat \<Rightarrow> 'k \<Rightarrow> 'k \<times> errno option)
    \<Rightarrow> lua_value list \<Rightarrow> 'k \<Rightarrow> 'k \<times> lua_value list" where
  "lc_setgid num2str getgrnam setgid args k =
     (let go = (\<lambda>gid. if gid > - 1 then
                        (case setgid (nat gid) k of
                           (k', None) \<Rightarrow> (k', [LBool True])
                         | (k', Some e) \<Rightarrow>
                             (k', [LBool False, LStr (ascii (if e = EINVAL then ''invalid-gid''
                                                             else if e = EPERM then ''permission-denied''
                                                             else ''unknown-error''))]))
                      else (k, [LBool False, LStr (ascii ''invalid-gid'')])) in
      case args of
        [] \<Rightarrow> (k, [])
      | LInt i # _ \<Rightarrow> go (to_int i)
      | a # _ \<Rightarrow>
          (case lua_tostring num2str (Some a) of
             Some name \<Rightarrow>
               (case getgrnam (c_str name) of
                  None \<Rightarrow> (k, [LBool False, LStr (ascii ''no-such-group'')])
                | Some gr_gid \<Rightarrow> go (to_int (int gr_gid)))
           | None \<Rightarrow> go (to_int (lua_tointeger (Some a)))))"

definition lc_initgroups ::
  "(lua_value \<Rightarrow> bytes) \<Rightarrow> (bytes \<Rightarrow> (nat \<times> nat) option) \<Rightarrow> (bytes \<Rightarrow> nat \<Rightarrow> 'k \<Rightarrow> 'k \<times> errno option)
    \<Rightarrow> lua_value list \<Rightarrow> 'k \<Rightarrow> 'k \<times> lua_value list" where
  "lc_initgroups num2str getpwnam initgroups args k =
     (case lua_tostring num2str (lua_arg args 1) of
        None \<Rightarrow> (k, [LNil, LStr (ascii ''invalid-username'')])
      | Some name \<Rightarrow>
          (case getpwnam (c_str name) of
             None \<Rightarrow> (k, [LNil, LStr (ascii ''no-such-user'')])
           | Some (pw_uid, pw_gid) \<Rightarrow>
               (let go = (\<lambda>gid. case initgroups (c_str name) gid k of
                                  (k', None) \<Rightarrow> (k', [LBool True, LNil])
                                | (k', Some e) \<Rightarrow>
                                    (k', [LNil, LStr (ascii (if e = ENOMEM then ''no-memory''
                                                             else if e = EPERM then ''permission-denied''
                                                             else ''unknown-error''))])) in
                case lua_arg args 2 of
                  None \<Rightarrow> go pw_gid
                | Some LNil \<Rightarrow> go pw_gid
                | Some (LInt i) \<Rightarrow> go (nat (i mod 2 ^ 32))
                | Some (LNum r) \<Rightarrow> go (nat (lua_tointeger (Some (LNum r)) mod 2 ^ 32))
                | _ \<Rightarrow> (k, [LNil, LStr (ascii ''invalid-gid'')]))))"

section \<open>File mode mask, directories and environment\<close>

definition c_isspace :: "byte \<Rightarrow> bool" where
  "c_isspace c \<longleftrightarrow> c = 32 \<or> (9 \<le> unat c \<and> unat c \<le> 13)"

definition is_octal :: "byte \<Rightarrow> bool" where
  "is_octal c \<longleftrightarrow> 48 \<le> unat c \<and> unat c \<le> 55"

text \<open>\<^verbatim>\<open>strtoul(s, NULL, 8)\<close>: white space, a sign, octal digits; saturating, and negated for \<open>-\<close>.\<close>

definition strtoul8 :: "bytes \<Rightarrow> nat" where
  "strtoul8 s =
     (let t = dropWhile c_isspace (c_str s);
          neg = (t \<noteq> [] \<and> hd t = 45);
          ds = takeWhile is_octal (if t \<noteq> [] \<and> (hd t = 45 \<or> hd t = 43) then tl t else t);
          v = foldl (\<lambda>a d. a * 8 + (unat d - 48)) 0 ds in
      if v \<ge> 2 ^ 64 then 2 ^ 64 - 1 else if neg then (2 ^ 64 - v) mod 2 ^ 64 else v)"

fun octal :: "nat \<Rightarrow> bytes" where
  "octal n = (if n < 8 then [of_nat (48 + n)] else octal (n div 8) @ [of_nat (48 + n mod 8)])"

declare octal.simps [simp del]

text \<open>\<^verbatim>\<open>snprintf(..., 7, "%03o", n)\<close>\<close>

definition mode_string :: "nat \<Rightarrow> bytes" where
  "mode_string n = take 6 (replicate (3 - length (octal n)) 48 @ octal n)"

text \<open>\<^verbatim>\<open>umask\<close> keeps the nine permission bits of its argument and returns the old mask.\<close>

definition lc_umask :: "(lua_value \<Rightarrow> bytes) \<Rightarrow> lua_value list \<Rightarrow> nat \<Rightarrow> (nat \<times> lua_value list) outcome" where
  "lc_umask num2str args cmask =
     bind_outcome (luaL_checkstring num2str args 1) (\<lambda>s.
       Inr (strtoul8 s mod 2 ^ 32 mod 2 ^ 9, [LStr (mode_string cmask)]))"

text \<open>Mode \<open>509\<close> is octal 775.\<close>

definition lc_mkdir ::
  "(lua_value \<Rightarrow> bytes) \<Rightarrow> (errno \<Rightarrow> bytes) \<Rightarrow> (bytes \<Rightarrow> int \<Rightarrow> 'k \<Rightarrow> 'k \<times> errno option) \<Rightarrow> lua_value list \<Rightarrow> 'k
    \<Rightarrow> ('k \<times> lua_value list) outcome" where
  "lc_mkdir num2str strerror mkdir args k =
     bind_outcome (luaL_checkstring num2str args 1) (\<lambda>path.
       Inr (case mkdir (c_str path) 509 k of
              (k', None) \<Rightarrow> (k', [LBool True])
            | (k', Some e) \<Rightarrow> (k', [LBool False, LStr (strerror e)])))"

text \<open>The environment is a map; \<open>unset_err\<close> and \<open>set_err\<close> say when the C functions fail.\<close>

definition lc_setenv ::
  "(lua_value \<Rightarrow> bytes) \<Rightarrow> (errno \<Rightarrow> bytes) \<Rightarrow> (bytes \<Rightarrow> errno option) \<Rightarrow> (bytes \<Rightarrow> bytes \<Rightarrow> errno option)
    \<Rightarrow> lua_value list \<Rightarrow> (bytes \<rightharpoonup> bytes) \<Rightarrow> ((bytes \<rightharpoonup> bytes) \<times> lua_value list) outcome" where
  "lc_setenv num2str strerror unset_err set_err args env =
     bind_outcome (luaL_checkstring num2str args 1) (\<lambda>var.
       if lua_arg args 2 = None \<or> lua_arg args 2 = Some LNil then
         (case unset_err (c_str var) of
            Some e \<Rightarrow> Inr (env, [LNil, LStr (strerror e)])
          | None \<Rightarrow> Inr (env(c_str var := None), [LBool True]))
       else
         bind_outcome (luaL_checkstring num2str args 2) (\<lambda>value.
           case set_err (c_str var) (c_str value) of
             Some e \<Rightarrow> Inr (env, [LNil, LStr (strerror e)])
           | None \<Rightarrow> Inr (env(c_str var \<mapsto> c_str value), [LBool True])))"

section \<open>Resource limits\<close>

definition resource_strings :: "string list" where
  "resource_strings =
     [''CORE'', ''CPU'', ''DATA'', ''FSIZE'', ''NOFILE'', ''STACK'', ''MEMLOCK'', ''NPROC'', ''RSS'', ''NICE'']"

definition resource_constants :: "int list" where
  "resource_constants = [4, 0, 2, 1, 7, 3, 8, 6, 5, 13, - 1]"

definition RLIM_INFINITY :: nat where "RLIM_INFINITY = 2 ^ 64 - 1"

definition arg_to_rlimit :: "lua_value list \<Rightarrow> nat \<Rightarrow> nat \<Rightarrow> nat outcome" where
  "arg_to_rlimit args idx current =
     (case lua_arg args idx of
        Some (LStr s) \<Rightarrow>
          if c_str s = ascii ''unlimited'' then Inr RLIM_INFINITY else Inl (ArgError idx ''unexpected type'')
      | Some (LInt i) \<Rightarrow> Inr (to_usize i)
      | Some (LNum r) \<Rightarrow> Inr (to_usize (lua_tointeger (Some (LNum r))))
      | None \<Rightarrow> Inr current
      | Some LNil \<Rightarrow> Inr current
      | _ \<Rightarrow> Inl (ArgError idx ''unexpected type''))"

text \<open>\<open>getrlimit\<close> gives the soft and the hard limit; \<open>setrlimit\<close> tells whether it succeeded.\<close>

definition lc_setrlimit ::
  "(int \<Rightarrow> 'k \<Rightarrow> (nat \<times> nat) option) \<Rightarrow> (int \<Rightarrow> nat \<times> nat \<Rightarrow> 'k \<Rightarrow> 'k \<times> bool) \<Rightarrow> lua_value list \<Rightarrow> 'k
    \<Rightarrow> ('k \<times> lua_value list) outcome" where
  "lc_setrlimit getrlimit setrlimit args k =
     (if length args < 1 \<or> length args > 3 then Inr (k, [LBool False, LStr (ascii ''incorrect-arguments'')])
      else
        bind_outcome (luaL_checkoption args 1 None resource_strings) (\<lambda>r.
          let rid = resource_constants ! r in
          if rid = - 1 then Inr (k, [LBool False, LStr (ascii ''invalid-resource'')])
          else case getrlimit rid k of
                 None \<Rightarrow> Inr (k, [LBool False, LStr (ascii ''getrlimit-failed'')])
               | Some (cur, mx) \<Rightarrow>
                   bind_outcome (arg_to_rlimit args 2 cur) (\<lambda>cur'.
                   bind_outcome (arg_to_rlimit args 3 mx) (\<lambda>mx'.
                     case setrlimit rid (cur', mx') k of
                       (k', True) \<Rightarrow> Inr (k', [LBool True])
                     | (k', False) \<Rightarrow> Inr (k', [LBool False, LStr (ascii ''setrlimit-failed'')])))))"

definition push_rlimit :: "nat \<Rightarrow> lua_value" where
  "push_rlimit l = (if l = RLIM_INFINITY then LStr (ascii ''unlimited'') else LInt (to_long (int l)))"

definition lc_getrlimit ::
  "(int \<Rightarrow> 'k \<Rightarrow> (nat \<times> nat) option) \<Rightarrow> lua_value list \<Rightarrow> 'k \<Rightarrow> lua_value list outcome" where
  "lc_getrlimit getrlimit args k =
     (if length args \<noteq> 1 then Inr [LBool False, LStr (ascii ''invalid-arguments'')]
      else
        bind_outcome (luaL_checkoption args 1 None resource_strings) (\<lambda>r.
          let rid = resource_constants ! r in
          if rid \<noteq> - 1 then
            (case getrlimit rid k of
               None \<Rightarrow> Inr [LBool False, LStr (ascii ''getrlimit-failed.'')]
             | Some (cur, mx) \<Rightarrow> Inr [LBool True, push_rlimit cur, push_rlimit mx])
          else Inr [LBool False, LStr (ascii ''invalid-resource'')]))"

section \<open>Pipes and streams\<close>

definition pipe_flag_names :: "string list" where
  "pipe_flag_names = [''cloexec'', ''direct'', ''nonblock'']"

definition pipe_flag_values :: "int list" where
  "pipe_flag_values = [524288, 16384, 2048]"

text \<open>
  The list of names has no \<^verbatim>\<open>NULL\<close> at its end, so \<^verbatim>\<open>luaL_checkoption\<close> reads on behind it when
  no name matches; that also holds for the text of a number.
\<close>

fun pipe_flags :: "lua_value list \<Rightarrow> nat \<Rightarrow> int \<Rightarrow> int outcome" where
  "pipe_flags [] i flags = Inr flags"
| "pipe_flags (a # rest) i flags =
     (case a of
        LStr s \<Rightarrow>
          (case option_index pipe_flag_names (c_str s) 0 of
             None \<Rightarrow> Inl (Undefined ''pipe_flag_names index'')
           | Some k \<Rightarrow> pipe_flags rest (Suc i) (flags OR pipe_flag_values ! k))
      | LInt _ \<Rightarrow> Inl (Undefined ''pipe_flag_names index'')
      | LNum _ \<Rightarrow> Inl (Undefined ''pipe_flag_names index'')
      | _ \<Rightarrow> Inl (ArgError i ''string expected''))"

definition lc_pipe ::
  "(errno \<Rightarrow> bytes) \<Rightarrow> (int \<Rightarrow> errno + int \<times> int) \<Rightarrow> lua_value list \<Rightarrow> lua_value list outcome" where
  "lc_pipe strerror pipe2 args =
     bind_outcome (pipe_flags args 1 0) (\<lambda>flags.
       case pipe2 flags of
         Inl e \<Rightarrow> Inr [LNil, LStr (strerror e)]
       | Inr (r, w) \<Rightarrow> Inr [LInt r, LInt w])"

text \<open>A stream object of Lua; \<open>None\<close> is a closed one.\<close>

definition stdio_fclose ::
  "(errno \<Rightarrow> bytes) \<Rightarrow> ('f \<Rightarrow> errno option) \<Rightarrow> 'f option \<Rightarrow> 'f option \<times> lua_value list" where
  "stdio_fclose strerror fclose p =
     (case p of
        None \<Rightarrow> (None, [])
      | Some f \<Rightarrow> (None, case fclose f of None \<Rightarrow> [LBool True] | Some e \<Rightarrow> fail_errno strerror e))"

definition lc_fdopen ::
  "(lua_value \<Rightarrow> bytes) \<Rightarrow> (errno \<Rightarrow> bytes) \<Rightarrow> (int \<Rightarrow> bytes \<Rightarrow> errno + 'f) \<Rightarrow> int \<Rightarrow> lua_value option
    \<Rightarrow> ('f option \<times> lua_value list) outcome" where
  "lc_fdopen num2str strerror fdopen i arg2 =
     (case lua_tostring num2str arg2 of
        None \<Rightarrow> Inl (ArgError 2 ''string expected'')
      | Some mode \<Rightarrow>
          (case fdopen (to_int i) (c_str mode) of
             Inl e \<Rightarrow> Inr (None, [LNil, LStr (strerror e)])
           | Inr f \<Rightarrow> Inr (Some f, [LUserdata 0])))"

section \<open>Appending to a file\<close>






definition lc_remove_blocks ::
  "(errno \<Rightarrow> bytes) \<Rightarrow> (int \<Rightarrow> int \<Rightarrow> 'f \<Rightarrow> 'f \<times> errno option) \<Rightarrow> int \<Rightarrow> int \<Rightarrow> 'f \<Rightarrow> 'f \<times> lua_value list" where
  "lc_remove_blocks strerror fallocate offset len f =
     (case fallocate offset len f of
        (f', Some err) \<Rightarrow> (f', fail_errno strerror err)
      | (f', None) \<Rightarrow> (f', [LBool True]))"

section \<open>Readings\<close>

definition lc_getpid :: "int \<Rightarrow> lua_value list" where "lc_getpid pid = [LInt pid]"
definition lc_getuid :: "nat \<Rightarrow> lua_value list" where "lc_getuid uid = [LInt (int uid)]"
definition lc_getgid :: "nat \<Rightarrow> lua_value list" where "lc_getgid gid = [LInt (int gid)]"

text \<open>The fields of the table that is returned.\<close>

record utsname =
  sysname :: bytes
  nodename :: bytes
  release :: bytes
  version :: bytes
  machine :: bytes
  domainname :: bytes

definition lc_uname :: "(errno \<Rightarrow> bytes) \<Rightarrow> errno + utsname \<Rightarrow> lua_value list + (string \<times> lua_value) list" where
  "lc_uname strerror uname =
     (case uname of
        Inl e \<Rightarrow> Inl [LNil, LStr (strerror e)]
      | Inr u \<Rightarrow>
          Inr [(''sysname'', LStr (c_str (sysname u))), (''nodename'', LStr (c_str (nodename u))),
               (''release'', LStr (c_str (release u))), (''version'', LStr (c_str (version u))),
               (''machine'', LStr (c_str (machine u))), (''domainname'', LStr (c_str (domainname u)))])"

record mallinfo2 =
  arena :: nat
  hblkhd :: nat
  uordblks :: nat
  fordblks :: nat
  keepcost :: nat

definition lc_meminfo :: "mallinfo2 \<Rightarrow> (string \<times> lua_value) list" where
  "lc_meminfo info =
     [(''allocated'', LInt (to_long (int (arena info)))), (''allocated_mmap'', LInt (to_long (int (hblkhd info)))),
      (''used'', LInt (to_long (int (uordblks info)))), (''unused'', LInt (to_long (int (fordblks info)))),
      (''returnable'', LInt (to_long (int (keepcost info))))]"

definition lc_isatty :: "(int \<Rightarrow> bool) \<Rightarrow> int \<Rightarrow> lua_value list" where
  "lc_isatty isatty fileno = [LBool (isatty fileno)]"

text \<open>\<^verbatim>\<open>abort\<close> ends the process with the signal SIGABRT.\<close>

definition lc_abort :: call_end where "lc_abort = Aborts"

section \<open>Appending is all or nothing\<close>








section \<open>Users: what is asked of the kernel\<close>

text \<open>
  \<^verbatim>\<open>setuid\<close> and \<^verbatim>\<open>setgid\<close> given a value that is neither a number nor a string, such as
  nil, a boolean or a table, ask the kernel for the user or group 0: the value is read as the
  number 0, and a process that is root stays root and is told that the change succeeded. An
  integer loses its upper 32 bits, so 4294967296 also stands for root.
\<close>

theorem setuid_without_user_is_root:
  assumes "a \<in> {LNil, LBool b, LTable t, LFunction t, LUserdata t, LInt (2 ^ 32)}"
    and "setuid 0 k = (k1, None)" and "setgid 0 k = (k2, None)"
  shows "lc_setuid num2str getpwnam setuid [a] k = (k1, [LBool True]) \<and>
    lc_setgid num2str getgrnam setgid [a] k = (k2, [LBool True])"
  using assms by (auto simp: lc_setuid_def lc_setgid_def Let_def to_int_def)

theorem setuid_without_user_is_root_witness:
  "lc_setuid (\<lambda>_. []) (\<lambda>_. None) (\<lambda>u k. (u, None)) [LNil] 0 = (0, [LBool True])"
  using setuid_without_user_is_root[of LNil True 0 "\<lambda>u k. (u, None)" 0 0 "\<lambda>u k. (u, None)" 0] by simp

section \<open>System log: levels and facilities\<close>

lemma less5: "(i :: nat) < 5 \<longleftrightarrow> i = 0 \<or> i = 1 \<or> i = 2 \<or> i = 3 \<or> i = 4"
  by auto

lemma setmask_values:
  "setmask_loop 0 0 = 244" "setmask_loop (Suc 0) 0 = 116" "setmask_loop 2 0 = 52" "setmask_loop 3 0 = 20"
  "setmask_loop 4 0 = 4"
  by (simp_all add: setmask_loop.simps level_constants_def numeral_eq_Suc push_bit_eq_mult)

text \<open>
  After \<^verbatim>\<open>syslog_setminlevel\<close> with one of the five levels, \<^verbatim>\<open>syslog_log\<close> writes the
  messages of that level and of the ones behind it in the list debug, info, notice, warn,
  error, each as source, colon and text, and drops the others.
\<close>

theorem syslog_min_level:
  assumes "i < length level_strings" and "j < length level_strings"
  shows "\<exists>s1 s2. lc_syslog_setmask [LStr (ascii (level_strings ! i))] s = Inr (s1, []) \<and>
    lc_syslog_log num2str [LStr (ascii (level_strings ! j)), LStr src, LStr msg] s1 = Inr (s2, []) \<and>
    logged s2 = logged s @
      (if i \<le> j then [(level_constants ! j, c_str src @ ascii '': '' @ c_str msg)] else [])"
proof -
  have names: "distinct (map ascii level_strings)" "length level_strings = 5"
    by (simp_all add: level_strings_def ascii_def)
  have cstr: "c_str (ascii (level_strings ! l)) = ascii (level_strings ! l)" if "l < 5" for l
    using that unfolding less5 by (elim disjE) (simp_all add: level_strings_def ascii_def c_str_def)
  have bits: "bit (setmask_loop i 0) (nat (level_constants ! j)) \<longleftrightarrow> i \<le> j"
    using assms unfolding names(2) less5
    by (elim disjE) (simp_all add: setmask_values level_constants_def bit_iff_odd)
  have opt: "luaL_checkoption [LStr (ascii (level_strings ! i))] 1 (Some ''notice'') level_strings = Inr i"
    "luaL_checkoption [LStr (ascii (level_strings ! j)), LStr src, LStr msg] 1 (Some ''notice'') level_strings = Inr j"
    using assms cstr names by (auto intro!: checkoption_nth)
  show ?thesis
    using bits by (auto simp: lc_syslog_setmask_def lc_syslog_log_def opt syslog_def luaL_checkstring_def Let_def
        simp del: One_nat_def)
qed

theorem syslog_min_level_witness:
  "\<exists>s1 s2. lc_syslog_setmask [LStr (ascii ''warn'')] \<lparr>syslog_ident = None, log_facility = 24, log_mask = 255, logged = []\<rparr> =
      Inr (s1, []) \<and>
    lc_syslog_log (\<lambda>_. []) [LStr (ascii ''info''), LStr [97], LStr [98]] s1 = Inr (s2, []) \<and> logged s2 = []"
  using syslog_min_level[of 3 1 "\<lparr>syslog_ident = None, log_facility = 24, log_mask = 255, logged = []\<rparr>" "\<lambda>_. []" "[97]" "[98]"]
  by (simp add: level_strings_def numeral_eq_Suc)

text \<open>The facility that a name of the list stands for in \<^verbatim>\<open>syslog.h\<close>.\<close>

definition facility_of_name :: "string \<rightharpoonup> int" where
  "facility_of_name = map_of
     [(''auth'', 32), (''authpriv'', 80), (''cron'', 72), (''daemon'', 24), (''ftp'', 88), (''kern'', 0),
      (''local0'', 128), (''local1'', 136), (''local2'', 144), (''local3'', 152), (''local4'', 160),
      (''local5'', 168), (''local6'', 176), (''local7'', 184), (''lpr'', 48), (''mail'', 16),
      (''news'', LOG_NEWS), (''syslog'', LOG_SYSLOG), (''user'', LOG_USER), (''uucp'', LOG_UUCP)]"

lemma all_nth: "i < length xs \<Longrightarrow> list_all2 P xs (take (length xs) ys) \<Longrightarrow> P (xs ! i) (ys ! i)"
  by (auto simp: list_all2_conv_all_nth)

lemma facility_pairs:
  assumes "i < length facility_strings"
  shows "c_str (ascii (facility_strings ! i)) = ascii (facility_strings ! i) \<and>
    (facility_of_name (facility_strings ! i) = Some (facility_constants ! i) \<longleftrightarrow>
       facility_strings ! i \<notin> {''syslog'', ''user'', ''uucp''}) \<and>
    (facility_strings ! i = ''syslog'' \<longrightarrow> facility_constants ! i = LOG_NEWS) \<and>
    (facility_strings ! i = ''user'' \<longrightarrow> facility_constants ! i = LOG_SYSLOG) \<and>
    (facility_strings ! i = ''uucp'' \<longrightarrow> facility_constants ! i = LOG_USER)"
  by (rule all_nth[OF assms])
    (simp add: facility_strings_def facility_constants_def facility_of_name_def ascii_def c_str_def
      LOG_NEWS_def LOG_SYSLOG_def LOG_USER_def LOG_UUCP_def)

text \<open>
  \<^verbatim>\<open>syslog_open\<close> opens the log with the facility that is named, except for the last three
  names: the list of names lacks news, which the list of constants has, so syslog stands for
  the news facility, user for syslog and uucp for user.
\<close>

theorem syslog_facility_shifted:
  assumes "i < length facility_strings"
  shows "\<exists>s1. lc_syslog_open num2str [LStr ident, LStr (ascii (facility_strings ! i))] s = Inr (s1, []) \<and>
    syslog_ident s1 = Some (c_str ident) \<and>
    (facility_of_name (facility_strings ! i) = Some (log_facility s1) \<longleftrightarrow>
       facility_strings ! i \<notin> {''syslog'', ''user'', ''uucp''}) \<and>
    (facility_strings ! i = ''syslog'' \<longrightarrow> log_facility s1 = LOG_NEWS) \<and>
    (facility_strings ! i = ''user'' \<longrightarrow> log_facility s1 = LOG_SYSLOG) \<and>
    (facility_strings ! i = ''uucp'' \<longrightarrow> log_facility s1 = LOG_USER)"
proof -
  have d: "distinct (map ascii facility_strings)" by (simp add: facility_strings_def ascii_def)
  have "luaL_checkoption [LStr ident, LStr (ascii (facility_strings ! i))] 2 (Some ''daemon'') facility_strings = Inr i"
    using facility_pairs[OF assms] by (intro checkoption_nth[OF d assms]) auto
  then show ?thesis
    using facility_pairs[OF assms] by (simp add: lc_syslog_open_def luaL_checkstring_def)
qed

theorem syslog_facility_shifted_witness:
  "\<exists>s1. lc_syslog_open (\<lambda>_. []) [LStr [112], LStr (ascii ''user'')]
      \<lparr>syslog_ident = None, log_facility = 24, log_mask = 255, logged = []\<rparr> = Inr (s1, []) \<and>
    log_facility s1 = LOG_SYSLOG"
  using syslog_facility_shifted[of 17 "\<lambda>_. []" "[112]" "\<lparr>syslog_ident = None, log_facility = 24, log_mask = 255, logged = []\<rparr>"]
  by (auto simp: facility_strings_def numeral_eq_Suc)

section \<open>The file mode mask\<close>

lemma octal_below_512:
  assumes "m < 512"
  shows "mode_string m = [of_nat (48 + m div 64), of_nat (48 + m div 8 mod 8), of_nat (48 + m mod 8)]"
proof -
  consider "m < 8" | "8 \<le> m" "m < 64" | "64 \<le> m" by linarith
  then show ?thesis
  proof cases
    case 3
    then have "\<not> m div 8 < 8" "m div 8 div 8 < 8" using assms by auto
    then show ?thesis using 3
      by (simp add: mode_string_def octal.simps[of m] octal.simps[of "m div 8"] octal.simps[of "m div 64"]
          div_mult2_eq[symmetric])
  next
    case 1
    then show ?thesis by (simp add: mode_string_def octal.simps[of m] numeral_2_eq_2)
  next
    case 2
    then have "m div 8 < 8" by simp
    with 2 show ?thesis by (simp add: mode_string_def octal.simps[of m] octal.simps[of "m div 8"])
  qed
qed

lemma digit_not_special: "unat (w :: byte) = 48 + d \<Longrightarrow> w \<noteq> 0 \<and> w \<noteq> 45 \<and> w \<noteq> 43 \<and> \<not> c_isspace w"
  by (auto simp: c_isspace_def)

lemma octal_digit:
  assumes "d < 8"
  shows "unat (of_nat (48 + d) :: byte) = 48 + d" "is_octal (of_nat (48 + d))" "(of_nat (48 + d) :: byte) \<noteq> 0"
    "\<not> c_isspace (of_nat (48 + d))" "(of_nat (48 + d) :: byte) \<noteq> 45" "(of_nat (48 + d) :: byte) \<noteq> 43"
proof -
  show u: "unat (of_nat (48 + d) :: byte) = 48 + d"
    using assms by (simp add: unsigned_of_nat take_bit_eq_mod del: of_nat_add)
  show "is_octal (of_nat (48 + d))" using u assms by (simp add: is_octal_def)
  show "(of_nat (48 + d) :: byte) \<noteq> 0" "(of_nat (48 + d) :: byte) \<noteq> 45" "(of_nat (48 + d) :: byte) \<noteq> 43"
    "\<not> c_isspace (of_nat (48 + d))"
    using digit_not_special[OF u] by blast+
qed

lemma strtoul8_three_digits:
  assumes "a < 8" "b < 8" "c < 8"
  shows "strtoul8 [of_nat (48 + a), of_nat (48 + b), of_nat (48 + c)] = (a * 8 + b) * 8 + c"
proof -
  note d = octal_digit[OF assms(1)] octal_digit[OF assms(2)] octal_digit[OF assms(3)]
  have "(a * 8 + b) * 8 + c < 2 ^ 64" using assms by simp
  then show ?thesis using d by (simp add: strtoul8_def c_str_def Let_def del: of_nat_add)
qed

lemma strtoul8_mode_string: "m < 512 \<Longrightarrow> strtoul8 (mode_string m) = m"
proof -
  assume m: "m < 512"
  have "(m div 64 * 8 + m div 8 mod 8) * 8 + m mod 8 = m"
    using div_mult_mod_eq[of m 8] div_mult_mod_eq[of "m div 8" 8] by (simp add: div_mult2_eq[symmetric])
  then show ?thesis using m octal_below_512[OF m] strtoul8_three_digits[of "m div 64" "m div 8 mod 8" "m mod 8"] by simp
qed

text \<open>
  The string that \<^verbatim>\<open>umask\<close> returns stands for the mask that was in force: giving it to a
  second call brings that mask back, whatever the argument of the first call was.
\<close>

theorem umask_roundtrip:
  assumes "m < 2 ^ 9"
  shows "\<exists>m1 old new. lc_umask num2str [LStr s] m = Inr (m1, [LStr old]) \<and>
    lc_umask num2str [LStr old] m1 = Inr (m, [LStr new]) \<and> m1 < 2 ^ 9"
  using assms strtoul8_mode_string[of m] by (simp add: lc_umask_def luaL_checkstring_def)

theorem umask_roundtrip_witness:
  "\<exists>m1 old new. lc_umask (\<lambda>_. []) [LStr (ascii ''027'')] 18 = Inr (m1, [LStr old]) \<and>
    lc_umask (\<lambda>_. []) [LStr old] m1 = Inr (18, [LStr new])"
  using umask_roundtrip[of 18 "\<lambda>_. []" "ascii ''027''"] by auto

section \<open>Resource limits\<close>

text \<open>The limits a caller can give: an integer of 64 bits, or the word unlimited.\<close>

fun limit_value :: "lua_value \<Rightarrow> bool" where
  "limit_value (LInt i) \<longleftrightarrow> - (2 ^ 63) \<le> i \<and> i < 2 ^ 63"
| "limit_value (LStr s) \<longleftrightarrow> s = ascii ''unlimited''"
| "limit_value _ \<longleftrightarrow> False"

text \<open>How a limit that was set is shown: \<open>- 1\<close> is no limit.\<close>

fun limit_shown :: "lua_value \<Rightarrow> lua_value" where
  "limit_shown (LInt i) = (if i = - 1 then LStr (ascii ''unlimited'') else LInt i)"
| "limit_shown v = v"

lemma c_str_unlimited [simp]: "c_str (ascii ''unlimited'') = ascii ''unlimited''"
  by (simp add: ascii_def c_str_def)

lemma rlimit_roundtrip_arg:
  assumes "limit_value v" and "lua_arg args i = Some v"
  shows "\<exists>l. arg_to_rlimit args i cur = Inr l \<and> push_rlimit l = limit_shown v"
proof (cases v)
  case (LInt n)
  then have n: "- (2 ^ 63) \<le> n" "n < 2 ^ 63" using assms by auto
  have wrap: "to_usize n = (if 0 \<le> n then nat n else nat (n + 2 ^ 64))"
    using n to_usize_nonneg[of n] mod_pos_pos_trivial[of "n + 2 ^ 64" "2 ^ 64"] by (auto simp: to_usize_def)
  have "to_usize n = RLIM_INFINITY \<longleftrightarrow> n = - 1" using n by (auto simp: wrap RLIM_INFINITY_def)
  moreover have "to_long (int (to_usize n)) = n"
    using n mod_pos_pos_trivial[of "n + 2 ^ 63" "2 ^ 64"] by (simp add: to_usize_def to_long_def mod_add_left_eq)
  ultimately show ?thesis using LInt assms(2) by (simp add: arg_to_rlimit_def push_rlimit_def)
qed (use assms in \<open>auto simp: arg_to_rlimit_def push_rlimit_def\<close>)

lemma resource_pairs:
  assumes "i < length resource_strings"
  shows "c_str (ascii (resource_strings ! i)) = ascii (resource_strings ! i) \<and> resource_constants ! i \<noteq> - 1"
  by (rule all_nth[OF assms]) (simp add: resource_strings_def resource_constants_def ascii_def c_str_def)

lemma resource_option:
  assumes "i < length resource_strings" and "lua_arg args 1 = Some (LStr (ascii (resource_strings ! i)))"
  shows "luaL_checkoption args 1 None resource_strings = Inr i"
  using assms resource_pairs[OF assms(1)]
  by (intro checkoption_nth) (auto simp: resource_strings_def ascii_def)

text \<open>
  C27: What a successful \<^verbatim>\<open>setrlimit\<close> with a soft and a hard limit set, \<^verbatim>\<open>getrlimit\<close>
  returns, in the same form, for every resource of the list, on a kernel that remembers limits. A limit
  is an integer, positive or negative, or the word unlimited; only \<open>- 1\<close> comes back changed, as the word
  unlimited. No negative limit is replaced by the current one.
\<close>

theorem rlimit_roundtrip:
  assumes remembers: "\<And>l k'. setrlimit (resource_constants ! i) l k = (k', True) \<Longrightarrow>
      getrlimit (resource_constants ! i) k' = Some l"
    and "i < length resource_strings" and "limit_value soft" and "limit_value hard"
    and "lc_setrlimit getrlimit setrlimit [LStr (ascii (resource_strings ! i)), soft, hard] k = Inr (k1, [LBool True])"
  shows "lc_getrlimit getrlimit [LStr (ascii (resource_strings ! i))] k1 = Inr [LBool True, limit_shown soft, limit_shown hard]"
proof -
  let ?args = "[LStr (ascii (resource_strings ! i)), soft, hard]"
  let ?r = "resource_constants ! i"
  have opt: "luaL_checkoption ?args 1 None resource_strings = Inr i"
    "luaL_checkoption [LStr (ascii (resource_strings ! i))] 1 None resource_strings = Inr i"
    using assms(2) by (auto intro: resource_option simp del: One_nat_def)
  have r: "?r \<noteq> - 1" using resource_pairs[OF assms(2)] by simp
  obtain c m where cm: "getrlimit ?r k = Some (c, m)"
    using assms(5) r opt(1) by (auto simp: lc_setrlimit_def Let_def split: option.splits simp del: One_nat_def)
  obtain l h where l: "arg_to_rlimit ?args 2 c = Inr l" "push_rlimit l = limit_shown soft"
    and h: "arg_to_rlimit ?args 3 m = Inr h" "push_rlimit h = limit_shown hard"
    using rlimit_roundtrip_arg[OF assms(3), of ?args 2 c] rlimit_roundtrip_arg[OF assms(4), of ?args 3 m] by auto
  have "setrlimit ?r (l, h) k = (k1, True)"
    using assms(5) r opt(1) cm l(1) h(1)
    by (auto simp: lc_setrlimit_def split: prod.splits bool.splits simp del: One_nat_def)
  then have "getrlimit ?r k1 = Some (l, h)" by (rule remembers)
  then show ?thesis using r opt(2) l(2) h(2) by (simp add: lc_getrlimit_def del: One_nat_def)
qed

theorem rlimit_roundtrip_witness:
  "lc_getrlimit (\<lambda>r k. Some (k r)) [LStr (ascii ''NOFILE'')] ((\<lambda>_. (1024, 4096))(7 := (1000, RLIM_INFINITY))) =
    Inr [LBool True, LInt 1000, LStr (ascii ''unlimited'')]"
proof -
  let ?set = "\<lambda>r l (k :: int \<Rightarrow> nat \<times> nat). (k(r := l), True)"
  let ?args = "[LStr (ascii ''NOFILE''), LInt 1000, LStr (ascii ''unlimited'')]"
  have n: "resource_strings ! 4 = ''NOFILE''" "4 < length resource_strings" "resource_constants ! 4 = 7"
    by (simp_all add: resource_strings_def resource_constants_def)
  have "luaL_checkoption ?args 1 None resource_strings = Inr 4"
    using n by (intro resource_option) simp_all
  then have "lc_setrlimit (\<lambda>r k. Some (k r)) ?set ?args (\<lambda>_. (1024, 4096)) =
      Inr ((\<lambda>_. (1024, 4096))(7 := (1000, RLIM_INFINITY)), [LBool True])"
    using n(3) by (simp add: lc_setrlimit_def arg_to_rlimit_def to_usize_nonneg del: One_nat_def)
  then show ?thesis
    using rlimit_roundtrip[where setrlimit = ?set and i = 4 and getrlimit = "\<lambda>r k. Some (k r)"
        and soft = "LInt 1000" and hard = "LStr (ascii ''unlimited'')"] n by auto
qed

text \<open>A negative limit is not replaced by the current one: \<open>- 1\<close> stands for no limit at all.\<close>

lemma rlimit_negative_is_unlimited:
  "lua_arg args idx = Some (LInt (- 1)) \<Longrightarrow> arg_to_rlimit args idx current = Inr RLIM_INFINITY"
  by (simp add: arg_to_rlimit_def to_usize_def RLIM_INFINITY_def)

section \<open>Pipes\<close>

text \<open>A flag that is not known makes \<^verbatim>\<open>pipe\<close> read behind the end of the list of flags.\<close>

lemma pipe_unknown_flag:
  "c_str s \<notin> ascii ` set pipe_flag_names \<Longrightarrow>
    lc_pipe strerror pipe2 [LStr s] = Inl (Undefined ''pipe_flag_names index'')"
  by (auto simp: lc_pipe_def pipe_flag_names_def)

end
