(* ===== verification/Stringprep.thy ===== *)
theory Stringprep
  imports Utf8 Lua_Args
begin

text \<open>
  \<^verbatim>\<open>util-src/encodings.c\<close>: stringprep, IDNA and confusable detection, in both variants that the
  build can choose, libidn and ICU. The libraries are parameters. A result \<open>Inl\<close> of a libidn
  function is undefined behaviour inside it, which is possible for an input that is not valid
  UTF-8; \<open>None\<close> is an error that it returns.
\<close>

section \<open>libidn\<close>

datatype sp_profile = Sp_nameprep | Sp_nodeprep | Sp_resourceprep | Sp_saslprep

text \<open>
  The argument \<^verbatim>\<open>strict\<close>: nothing, nil or a boolean.
\<close>

definition strict_arg :: "lua_value list \<Rightarrow> bool outcome" where
  "strict_arg args =
     (case lua_arg args 2 of
        None \<Rightarrow> Inr False
      | Some LNil \<Rightarrow> Inr False
      | Some (LBool b) \<Rightarrow> Inr b
      | _ \<Rightarrow> Inl (ArgError 2 ''boolean expected''))"

definition check_utf8_arg :: "(lua_value \<Rightarrow> bytes) \<Rightarrow> lua_value list \<Rightarrow> bytes option outcome" where
  "check_utf8_arg num2str args = bind_outcome (luaL_checkstring num2str args 1) check_utf8"

definition push_string_or_fail :: "bytes option \<Rightarrow> lua_value list" where
  "push_string_or_fail r = (case r of None \<Rightarrow> [LNil] | Some out \<Rightarrow> [LStr (c_str out)])"

text \<open>\<^verbatim>\<open>strcpy\<close> into the array of 1024 bytes is undefined for a string that does not fit.\<close>

definition stringprep_prep ::
  "(lua_value \<Rightarrow> bytes) \<Rightarrow> (sp_profile \<Rightarrow> bool \<Rightarrow> bytes \<Rightarrow> bytes option outcome) \<Rightarrow> sp_profile \<Rightarrow> lua_value list
    \<Rightarrow> lua_value list outcome" where
  "stringprep_prep num2str stringprep profile args =
     bind_outcome (check_utf8_arg num2str args) (\<lambda>checked.
     bind_outcome (strict_arg args) (\<lambda>strict.
       case checked of
         None \<Rightarrow> Inr [LNil]
       | Some s \<Rightarrow>
           if length s \<ge> 1024 \<or> length s \<noteq> length (c_str s) then Inr [LNil]
           else if length (c_str s) + 1 > 1024 then Inl (Undefined ''string buffer'')
           else bind_outcome (stringprep profile strict (c_str s)) (\<lambda>r. Inr (push_string_or_fail r))))"

definition Lidna_to_ascii ::
  "(lua_value \<Rightarrow> bytes) \<Rightarrow> (bytes \<Rightarrow> bytes option outcome) \<Rightarrow> lua_value list \<Rightarrow> lua_value list outcome" where
  "Lidna_to_ascii num2str idna_to_ascii args =
     bind_outcome (check_utf8_arg num2str args) (\<lambda>checked.
       case checked of
         None \<Rightarrow> Inr [LNil]
       | Some s \<Rightarrow>
           if length s \<noteq> length (c_str s) then Inr [LNil]
           else bind_outcome (idna_to_ascii (c_str s)) (\<lambda>r. Inr (push_string_or_fail r)))"

definition Lidna_to_unicode ::
  "(lua_value \<Rightarrow> bytes) \<Rightarrow> (bytes \<Rightarrow> bytes option outcome) \<Rightarrow> lua_value list \<Rightarrow> lua_value list outcome" where
  "Lidna_to_unicode num2str idna_to_unicode args =
     bind_outcome (luaL_checkstring num2str args 1) (\<lambda>s.
     bind_outcome (idna_to_unicode (c_str s)) (\<lambda>r. Inr (push_string_or_fail r)))"

section \<open>ICU\<close>

text \<open>
  The functions of ICU on strings of 16-bit units; each gets the capacity of its output array
  and fails when the output does not fit. \<open>None\<close> is an error code.
\<close>

type_synonym uchars = "16 word list"

record icu_api =
  strFromUTF8 :: "nat \<Rightarrow> bytes \<Rightarrow> uchars option"
  strToUTF8 :: "nat \<Rightarrow> uchars \<Rightarrow> bytes option"
  usprep_prepare :: "sp_profile \<Rightarrow> bool \<Rightarrow> nat \<Rightarrow> uchars \<Rightarrow> uchars option"
  nameToASCII :: "nat \<Rightarrow> uchars \<Rightarrow> uchars option"
  nameToUnicode :: "nat \<Rightarrow> uchars \<Rightarrow> uchars option"
  getSkeleton :: "nat \<Rightarrow> uchars \<Rightarrow> uchars option"

text \<open>
  \<^verbatim>\<open>init_icu\<close> opens the profiles when the module is loaded. An error code is an integer, positive for a
  failure; each function gets the code so far and leaves it as it is when it is a failure already.
  The result are the six global variables and whether a message is printed.
\<close>

record 'h icu_globals =
  icu_profile :: "sp_profile \<Rightarrow> 'h"
  icu_spoofcheck :: 'h
  icu_idna2008 :: 'h

definition UIDNA_USE_STD3_RULES :: int where "UIDNA_USE_STD3_RULES = 2"

definition init_icu ::
  "(sp_profile \<Rightarrow> int \<Rightarrow> 'h \<times> int) \<Rightarrow> (int \<Rightarrow> 'h \<times> int) \<Rightarrow> ('h \<Rightarrow> int \<Rightarrow> int) \<Rightarrow> (int \<Rightarrow> int \<Rightarrow> 'h \<times> int)
    \<Rightarrow> 'h icu_globals \<times> bool" where
  "init_icu usprep_openByType uspoof_open uspoof_setChecks uidna_openUTS46 =
     (case usprep_openByType Sp_nameprep 0 of (nameprep, err) \<Rightarrow>
      case usprep_openByType Sp_nodeprep err of (nodeprep, err) \<Rightarrow>
      case usprep_openByType Sp_resourceprep err of (resourceprep, err) \<Rightarrow>
      case usprep_openByType Sp_saslprep err of (saslprep, err) \<Rightarrow>
      case uspoof_open err of (spoofcheck, err) \<Rightarrow>
      let err = uspoof_setChecks spoofcheck err in
      case uidna_openUTS46 UIDNA_USE_STD3_RULES err of (idna2008, err) \<Rightarrow>
      (\<lparr>icu_profile = case_sp_profile nameprep nodeprep resourceprep saslprep,
        icu_spoofcheck = spoofcheck, icu_idna2008 = idna2008\<rparr>, err > 0))"

text \<open>
  When nothing is printed, each of the six objects comes from a call that succeeded, for functions
  that leave the code of a failure as it is.
\<close>

lemma init_icu_silent:
  assumes "init_icu op spoof checks idna = (g, False)"
    and "\<And>p e. 0 < e \<Longrightarrow> snd (op p e) = e" and "\<And>e. 0 < e \<Longrightarrow> snd (spoof e) = e"
    and "\<And>h e. 0 < e \<Longrightarrow> checks h e = e" and "\<And>o' e. 0 < e \<Longrightarrow> snd (idna o' e) = e"
  shows "(\<forall>p. \<exists>e e'. op p e = (icu_profile g p, e') \<and> e \<le> 0 \<and> e' \<le> 0) \<and>
    (\<exists>e e'. spoof e = (icu_spoofcheck g, e') \<and> e' \<le> 0 \<and> checks (icu_spoofcheck g) e' \<le> 0) \<and>
    (\<exists>e e'. idna UIDNA_USE_STD3_RULES e = (icu_idna2008 g, e') \<and> e \<le> 0 \<and> e' \<le> 0)"
proof -
  obtain h1 e1 h2 e2 h3 e3 h4 e4 h5 e5 h6 e6 where calls:
    "op Sp_nameprep 0 = (h1, e1)" "op Sp_nodeprep e1 = (h2, e2)" "op Sp_resourceprep e2 = (h3, e3)"
    "op Sp_saslprep e3 = (h4, e4)" "spoof e4 = (h5, e5)" "idna UIDNA_USE_STD3_RULES (checks h5 e5) = (h6, e6)"
    by (metis prod.exhaust)
  then have g: "g = \<lparr>icu_profile = case_sp_profile h1 h2 h3 h4, icu_spoofcheck = h5, icu_idna2008 = h6\<rparr>" "e6 \<le> 0"
    using assms(1) by (auto simp: init_icu_def Let_def)
  have codes: "checks h5 e5 \<le> 0" "e5 \<le> 0" "e4 \<le> 0" "e3 \<le> 0" "e2 \<le> 0" "e1 \<le> 0"
    using g(2) calls assms(2-5) by (metis linorder_not_less snd_conv)+
  have "\<exists>e e'. op p e = (icu_profile g p, e') \<and> e \<le> 0 \<and> e' \<le> 0" for p
    using calls codes by (cases p) (force simp: g(1))+
  then show ?thesis using calls codes g by auto
qed

text \<open>
  The end that the functions share: the conversion of the output to UTF-8. The array has 1024
  bytes.
\<close>

definition push_utf8 :: "icu_api \<Rightarrow> uchars \<Rightarrow> lua_value list" where
  "push_utf8 api u =
     (case strToUTF8 api 1024 u of
        None \<Rightarrow> [LNil]
      | Some out \<Rightarrow> if length out < 1024 then [LStr out] else [LNil])"

definition icu_stringprep_prep ::
  "(lua_value \<Rightarrow> bytes) \<Rightarrow> icu_api \<Rightarrow> sp_profile \<Rightarrow> lua_value list \<Rightarrow> lua_value list outcome" where
  "icu_stringprep_prep num2str api profile args =
     bind_outcome (luaL_checkstring num2str args 1) (\<lambda>input.
       if length input \<ge> 1024 then Inr [LNil]
       else bind_outcome (strict_arg args) (\<lambda>strict.
         case strFromUTF8 api 1024 input of
           None \<Rightarrow> Inr [LNil]
         | Some unprepped \<Rightarrow>
             (case usprep_prepare api profile strict 1024 unprepped of
                None \<Rightarrow> Inr [LNil]
              | Some prepped \<Rightarrow> Inr (push_utf8 api prepped))))"

definition icu_idna_to_ascii :: "(lua_value \<Rightarrow> bytes) \<Rightarrow> icu_api \<Rightarrow> lua_value list \<Rightarrow> lua_value list outcome" where
  "icu_idna_to_ascii num2str api args =
     bind_outcome (luaL_checkstring num2str args 1) (\<lambda>s.
       case strFromUTF8 api 1024 s of
         None \<Rightarrow> Inr [LNil]
       | Some u \<Rightarrow>
           (case nameToASCII api 256 u of None \<Rightarrow> Inr [LNil] | Some dest \<Rightarrow> Inr (push_utf8 api dest)))"

definition icu_idna_to_unicode :: "(lua_value \<Rightarrow> bytes) \<Rightarrow> icu_api \<Rightarrow> lua_value list \<Rightarrow> lua_value list outcome" where
  "icu_idna_to_unicode num2str api args =
     bind_outcome (luaL_checkstring num2str args 1) (\<lambda>s.
       case strFromUTF8 api 1024 s of
         None \<Rightarrow> Inr [LNil]
       | Some u \<Rightarrow>
           (case nameToUnicode api 1024 u of None \<Rightarrow> Inr [LNil] | Some dest \<Rightarrow> Inr (push_utf8 api dest)))"

text \<open>Here the length of the output is not tested again; 1024 bytes still fit.\<close>

definition Lskeleton :: "(lua_value \<Rightarrow> bytes) \<Rightarrow> icu_api \<Rightarrow> lua_value list \<Rightarrow> lua_value list outcome" where
  "Lskeleton num2str api args =
     bind_outcome (luaL_checkstring num2str args 1) (\<lambda>s.
       case strFromUTF8 api 1024 s of
         None \<Rightarrow> Inr [LNil]
       | Some u \<Rightarrow>
           (case getSkeleton api 1024 u of
              None \<Rightarrow> Inr [LNil]
            | Some dest \<Rightarrow>
                (case strToUTF8 api 1024 dest of
                   None \<Rightarrow> Inr [LNil]
                 | Some out \<Rightarrow> if length out > 1024 then Inl (Undefined ''output buffer'') else Inr [LStr out])))"

section \<open>What reaches libidn\<close>

text \<open>The strings that libidn may be given: valid UTF-8 without a zero byte.\<close>

definition idn_input :: "bytes \<Rightarrow> bool" where
  "idn_input s \<longleftrightarrow> well_formed_utf8 s \<and> 0 \<notin> set s"

lemma c_str_full: "length s = length (c_str s) \<longleftrightarrow> 0 \<notin> set s"
  by (induction s) (auto simp: c_str_def)

lemma c_str_id: "0 \<notin> set s \<Longrightarrow> c_str s = s"
  by (induction s) (auto simp: c_str_def)

lemma check_utf8_result:
  "well_formed_utf8 s \<Longrightarrow> check_utf8 s = Inr (Some s)"
  "0xFF \<notin> set s \<Longrightarrow> \<not> well_formed_utf8 s \<Longrightarrow> check_utf8 s = Inr None"
proof -
  have iff: "check_utf8_loop s 0 = Inr True \<longleftrightarrow> well_formed_utf8 s"
    using check_utf8_loop_iff[of 0 s] by simp
  then show "well_formed_utf8 s \<Longrightarrow> check_utf8 s = Inr (Some s)" by (simp add: check_utf8_def)
  assume "0xFF \<notin> set s" "\<not> well_formed_utf8 s"
  then have "check_utf8_loop s 0 = Inr False"
    using check_utf8_loop_defined[of s 0] iff by (metis (full_types))
  then show "check_utf8 s = Inr None" by (simp add: check_utf8_def)
qed

text \<open>The only error of the check is the shift that is too wide.\<close>

lemma check_utf8_loop_error: "check_utf8_loop s pos = Inl e \<Longrightarrow> e = Undefined ''shift exceeds the width''"
proof (induction s pos rule: check_utf8_loop.induct)
  case (1 s pos)
  have decode: "utf8_decode t = Inl e \<Longrightarrow> e = Undefined ''shift exceeds the width''" for t
    by (auto simp: utf8_decode_def Let_def split: if_splits option.splits)
  show ?case
    using 1 decode by (subst (asm) check_utf8_loop.simps) (auto split: if_splits sum.splits option.splits)
qed

lemma check_utf8_ill_formed:
  "\<not> well_formed_utf8 s \<Longrightarrow> check_utf8 s \<in> {Inr None, Inl (Undefined ''shift exceeds the width'')}"
  using check_utf8_loop_iff[of 0 s] check_utf8_loop_error[of s 0]
  by (auto simp: check_utf8_def split: sum.splits)

text \<open>
  C10: The stringprep functions give to libidn exactly the strings of valid UTF-8 without a zero
  byte that are shorter than the buffer of 1024 bytes, and return what it answers; every other string they
  answer with nil without calling it. \<^verbatim>\<open>idna.to_ascii\<close> tests its argument in the same way but for the length.
  The one exception are strings with the byte 0xFF, for which the check itself can be undefined (see
  \<^verbatim>\<open>utf8_decode\<close>); libidn is not called for them either. The argument \<^verbatim>\<open>strict\<close> is absent, nil or a boolean.
\<close>

theorem stringprep_checks_input:
  assumes "strict_arg (LStr s # rest) = Inr strict"
  shows "(idn_input s \<and> length s < 1024 \<longrightarrow> stringprep_prep n2s stringprep profile (LStr s # rest) =
      bind_outcome (stringprep profile strict s) (\<lambda>r. Inr (push_string_or_fail r))) \<and>
    (\<not> (idn_input s \<and> length s < 1024) \<longrightarrow> stringprep_prep n2s stringprep profile (LStr s # rest) \<in>
      {Inr [LNil]} \<union> (if 0xFF \<in> set s then {Inl (Undefined ''shift exceeds the width'')} else {})) \<and>
    (idn_input s \<longrightarrow> Lidna_to_ascii n2s to_ascii (LStr s # rest) =
      bind_outcome (to_ascii s) (\<lambda>r. Inr (push_string_or_fail r))) \<and>
    (\<not> idn_input s \<longrightarrow> Lidna_to_ascii n2s to_ascii (LStr s # rest) \<in>
      {Inr [LNil]} \<union> (if 0xFF \<in> set s then {Inl (Undefined ''shift exceeds the width'')} else {}))"
proof -
  have arg: "check_utf8_arg n2s (LStr s # rest) = check_utf8 s"
    by (simp add: check_utf8_arg_def luaL_checkstring_def)
  note eval = stringprep_prep_def Lidna_to_ascii_def arg idn_input_def assms
  show ?thesis
  proof (cases "well_formed_utf8 s")
    case True
    then have c: "check_utf8 s = Inr (Some s)" by (rule check_utf8_result(1))
    show ?thesis
    proof (cases "0 \<in> set s")
      case False
      then show ?thesis using c_str_id[OF False] True by (simp add: eval c)
    next
      case zero: True
      then have "length s \<noteq> length (c_str s)" using c_str_full by blast
      with zero show ?thesis by (simp add: eval c)
    qed
  next
    case False
    then have "check_utf8 s \<in> {Inr None} \<union> (if 0xFF \<in> set s then {Inl (Undefined ''shift exceeds the width'')} else {})"
      using check_utf8_ill_formed[OF False] check_utf8_result(2)[of s] by auto
    with False show ?thesis by (auto simp: eval split: if_splits)
  qed
qed

theorem stringprep_checks_input_witness:
  "stringprep_prep (\<lambda>_. []) (\<lambda>_ _ s. Inr (Some s)) Sp_nodeprep [LStr [97, 0]] = Inr [LNil]"
proof -
  have "\<not> idn_input [97, 0]" by (simp add: idn_input_def)
  then show ?thesis
    using stringprep_checks_input[of "[97, 0]" "[]" False "\<lambda>_. []" "\<lambda>_ _ s. Inr (Some s)" Sp_nodeprep]
    by (simp add: strict_arg_def)
qed

text \<open>
  \<^verbatim>\<open>idna.to_unicode\<close> does not test its argument: a string that is not valid UTF-8, which
  \<^verbatim>\<open>idna.to_ascii\<close> answers with nil, is handed to libidn, and the call is undefined if libidn
  is undefined on it.
\<close>

theorem idna_to_unicode_unchecked:
  assumes "0xFF \<notin> set s" and "0 \<notin> set s" and "\<not> well_formed_utf8 s" and "to_unicode s = Inl e"
  shows "Lidna_to_ascii n2s to_ascii [LStr s] = Inr [LNil] \<and> Lidna_to_unicode n2s to_unicode [LStr s] = Inl e"
proof -
  have "check_utf8 s = Inr None" using assms(1,3) by (rule check_utf8_result(2))
  then show ?thesis
    using assms(2,4) by (simp add: Lidna_to_ascii_def Lidna_to_unicode_def check_utf8_arg_def luaL_checkstring_def c_str_id)
qed

theorem idna_to_unicode_unchecked_witness:
  "Lidna_to_unicode (\<lambda>_. []) (\<lambda>s. if s = [0xC0] then Inl (Undefined ''read past the end'') else Inr (Some s)) [LStr [0xC0]] =
    Inl (Undefined ''read past the end'')"
proof -
  have "utf8_decode [0xC0] = Inr None"
    by (simp add: utf8_decode_def utf8_cont.simps Let_def)
  then have "check_utf8_loop [0xC0] 0 = Inr False" by (subst check_utf8_loop.simps) simp
  then have "\<not> well_formed_utf8 [0xC0]" using check_utf8_loop_iff[of 0 "[0xC0]"] by simp
  then show ?thesis
    using idna_to_unicode_unchecked[of "[0xC0]" "\<lambda>s. if s = [0xC0] then Inl (Undefined ''read past the end'') else Inr (Some s)"]
    by simp
qed

text \<open>No output of the ICU variant is longer than its buffer.\<close>

lemma icu_output_bounded:
  "push_utf8 api u = [LStr out] \<Longrightarrow> length out < 1024"
  by (auto simp: push_utf8_def split: option.splits if_splits)

end
