(* ===== verification/Hashes.thy ===== *)
theory Hashes
  imports Lua_Args
begin

text \<open>
  \<^verbatim>\<open>util-src/hashes.c\<close>: digests, HMAC and key derivation with OpenSSL. The functions of
  OpenSSL are parameters, collected in the record \<open>evp_api\<close>; \<open>None\<close> and \<open>False\<close> are their
  failures. Every operation also returns the number of OpenSSL contexts that are allocated when
  it ends, so that leaks are visible. An output longer than the C array that receives it is
  undefined behaviour.
\<close>

section \<open>Digests and the functions of OpenSSL\<close>

datatype evp_md =
    EVP_sha1 | EVP_sha224 | EVP_sha256 | EVP_sha384 | EVP_sha512 | EVP_md5
  | EVP_blake2s256 | EVP_blake2b512 | EVP_sha3_256 | EVP_sha3_512

definition EVP_MAX_MD_SIZE :: nat where "EVP_MAX_MD_SIZE = 64"
definition MAX_HKDF_OUTPUT :: nat where "MAX_HKDF_OUTPUT = 256"
definition SHA_DIGEST_LENGTH :: nat where "SHA_DIGEST_LENGTH = 20"
definition SHA256_DIGEST_LENGTH :: nat where "SHA256_DIGEST_LENGTH = 32"

text \<open>Lengths that OpenSSL takes as \<^verbatim>\<open>int\<close> are passed as the converted number.\<close>

record evp_api =
  md_ctx_new :: bool
  digest_init :: "evp_md \<Rightarrow> bool"
  digest_update :: "evp_md \<Rightarrow> bytes \<Rightarrow> bool"
  digest_final :: "evp_md \<Rightarrow> bytes \<Rightarrow> bytes option"
  hmac :: "evp_md \<Rightarrow> bytes \<Rightarrow> int \<Rightarrow> bytes \<Rightarrow> bytes option"
  pbkdf2 :: "bytes \<Rightarrow> int \<Rightarrow> bytes \<Rightarrow> int \<Rightarrow> int \<Rightarrow> evp_md \<Rightarrow> nat \<Rightarrow> bytes option"
  pkey_ctx_new :: bool
  derive_init :: bool
  set_hkdf_md :: "evp_md \<Rightarrow> bool"
  set1_hkdf_salt :: "bytes \<Rightarrow> bool"
  set1_hkdf_key :: "bytes \<Rightarrow> bool"
  add1_hkdf_info :: "bytes \<Rightarrow> bool"
  derive :: "evp_md \<Rightarrow> bytes option \<Rightarrow> bytes \<Rightarrow> bytes \<Rightarrow> nat \<Rightarrow> bytes option"
  crypto_memcmp :: "bytes \<Rightarrow> bytes \<Rightarrow> nat \<Rightarrow> int"

section \<open>The operations\<close>

definition hex_tab :: bytes where "hex_tab = ascii ''0123456789abcdef''"

fun toHex :: "bytes \<Rightarrow> bytes" where
  "toHex [] = []"
| "toHex (c # cs) = hex_tab ! unat (drop_bit 4 c AND 0xF) # hex_tab ! unat (c AND 0xF) # toHex cs"

text \<open>\<^verbatim>\<open>ERR_error_string(ERR_get_error(), NULL)\<close>\<close>

definition openssl_error :: "'a outcome" where "openssl_error = Inl (LuaError ''OpenSSL error'')"

text \<open>The end of \<^verbatim>\<open>Levp_hash\<close> and \<^verbatim>\<open>Levp_hmac\<close>: the arrays hold 64 and 128 bytes.\<close>

definition push_digest :: "bool \<Rightarrow> bytes \<Rightarrow> lua_value list outcome" where
  "push_digest hex_out hash =
     (if length hash > EVP_MAX_MD_SIZE then Inl (Undefined ''hash buffer'')
      else Inr [LStr (if hex_out then toHex hash else hash)])"

definition Levp_hash ::
  "(lua_value \<Rightarrow> bytes) \<Rightarrow> evp_api \<Rightarrow> evp_md \<Rightarrow> lua_value list \<Rightarrow> nat \<Rightarrow> nat \<times> lua_value list outcome" where
  "Levp_hash num2str api evp args live =
     (case luaL_checkstring num2str args 1 of
        Inl e \<Rightarrow> (live, Inl e)
      | Inr s \<Rightarrow>
          (let hex_out = lua_toboolean (lua_arg args 2) in
           if \<not> md_ctx_new api then (live, openssl_error)
           else
             let live1 = live + 1 in
             if \<not> digest_init api evp then (live1 - 1, openssl_error)
             else if \<not> digest_update api evp s then (live1 - 1, openssl_error)
             else case digest_final api evp s of
                    None \<Rightarrow> (live1 - 1, openssl_error)
                  | Some hash \<Rightarrow> (live1 - 1, push_digest hex_out hash)))"

definition Levp_hmac ::
  "(lua_value \<Rightarrow> bytes) \<Rightarrow> evp_api \<Rightarrow> evp_md \<Rightarrow> lua_value list \<Rightarrow> nat \<Rightarrow> nat \<times> lua_value list outcome" where
  "Levp_hmac num2str api evp args live =
     (live,
      bind_outcome (luaL_checkstring num2str args 1) (\<lambda>key.
      bind_outcome (luaL_checkstring num2str args 2) (\<lambda>msg.
        case hmac api evp key (to_int (int (length key))) msg of
          None \<Rightarrow> openssl_error
        | Some hash \<Rightarrow> push_digest (lua_toboolean (lua_arg args 3)) hash)))"

definition Levp_pbkdf2 ::
  "(lua_value \<Rightarrow> bytes) \<Rightarrow> (bytes \<Rightarrow> int option) \<Rightarrow> evp_api \<Rightarrow> evp_md \<Rightarrow> nat \<Rightarrow> lua_value list \<Rightarrow> nat
    \<Rightarrow> nat \<times> lua_value list outcome" where
  "Levp_pbkdf2 num2str str2int api evp out_len args live =
     (live,
      bind_outcome (luaL_checkstring num2str args 1) (\<lambda>pass.
      bind_outcome (luaL_checkstring num2str args 2) (\<lambda>salt.
      bind_outcome (luaL_checkinteger str2int args 3) (\<lambda>iter.
        case pbkdf2 api pass (to_int (int (length pass))) salt (to_int (int (length salt))) (to_int iter) evp out_len of
          None \<Rightarrow> openssl_error
        | Some out \<Rightarrow> if out_len > EVP_MAX_MD_SIZE then Inl (Undefined ''out buffer'') else Inr [LStr out]))))"

definition hkdf_args ::
  "(lua_value \<Rightarrow> bytes) \<Rightarrow> (bytes \<Rightarrow> int option) \<Rightarrow> lua_value list
    \<Rightarrow> (nat \<times> bytes \<times> bytes option \<times> bytes) outcome" where
  "hkdf_args num2str str2int args =
     bind_outcome (luaL_checkinteger str2int args 1) (\<lambda>n.
     bind_outcome (luaL_checkstring num2str args 2) (\<lambda>input.
     bind_outcome (luaL_optstring num2str args 3) (\<lambda>salt.
     bind_outcome (luaL_checkstring num2str args 4) (\<lambda>info. Inr (to_usize n, input, salt, info)))))"

text \<open>
  The message of the length check uses a conversion that Lua does not know, so the error that
  is raised complains about that conversion. A failed \<^verbatim>\<open>EVP_PKEY_CTX_new_id\<close> gives a null
  pointer, which \<^verbatim>\<open>EVP_PKEY_derive_init\<close> rejects.
\<close>

definition Levp_hkdf ::
  "(lua_value \<Rightarrow> bytes) \<Rightarrow> (bytes \<Rightarrow> int option) \<Rightarrow> evp_api \<Rightarrow> evp_md \<Rightarrow> lua_value list \<Rightarrow> nat
    \<Rightarrow> nat \<times> lua_value list outcome" where
  "Levp_hkdf num2str str2int api evp args live =
     (case hkdf_args num2str str2int args of
        Inl e \<Rightarrow> (live, Inl e)
      | Inr (actual_out_len, input, salt, info) \<Rightarrow>
          if actual_out_len > MAX_HKDF_OUTPUT
          then (live, Inl (LuaError ''invalid conversion '%u' to 'lua_pushfstring' ''))
          else
            let live1 = (if pkey_ctx_new api then live + 1 else live) in
            if \<not> pkey_ctx_new api \<or> \<not> derive_init api then (live1, openssl_error)
            else if \<not> set_hkdf_md api evp then (live1, openssl_error)
            else if salt \<noteq> None \<and> \<not> set1_hkdf_salt api (the salt) then (live1, openssl_error)
            else if \<not> set1_hkdf_key api input then (live1, openssl_error)
            else if \<not> add1_hkdf_info api info then (live1, openssl_error)
            else case derive api evp salt input info actual_out_len of
                   None \<Rightarrow> (live1, openssl_error)
                 | Some out \<Rightarrow>
                     (live1, if length out > MAX_HKDF_OUTPUT then Inl (Undefined ''out buffer'') else Inr [LStr out]))"

definition Lhash_equals ::
  "(lua_value \<Rightarrow> bytes) \<Rightarrow> evp_api \<Rightarrow> lua_value list \<Rightarrow> nat \<Rightarrow> nat \<times> lua_value list outcome" where
  "Lhash_equals num2str api args live =
     (live,
      bind_outcome (luaL_checkstring num2str args 1) (\<lambda>s1.
      bind_outcome (luaL_checkstring num2str args 2) (\<lambda>s2.
        if length s1 = length s2 then Inr [LBool (crypto_memcmp api s1 s2 (length s1) = 0)]
        else Inr [LBool False])))"

section \<open>The module\<close>

text \<open>The functions \<^verbatim>\<open>Lsha1\<close> to \<^verbatim>\<open>Lhkdf_sha384\<close> fix the digest of one of the operations above.\<close>

datatype hash_fun = Hash evp_md | Hmac evp_md | Pbkdf2 evp_md nat | Hkdf evp_md | Equals

definition Lsha1 :: hash_fun where "Lsha1 = Hash EVP_sha1"
definition Lsha224 :: hash_fun where "Lsha224 = Hash EVP_sha224"
definition Lsha256 :: hash_fun where "Lsha256 = Hash EVP_sha256"
definition Lsha384 :: hash_fun where "Lsha384 = Hash EVP_sha384"
definition Lsha512 :: hash_fun where "Lsha512 = Hash EVP_sha512"
definition Lmd5 :: hash_fun where "Lmd5 = Hash EVP_md5"
definition Lblake2s256 :: hash_fun where "Lblake2s256 = Hash EVP_blake2s256"
definition Lblake2b512 :: hash_fun where "Lblake2b512 = Hash EVP_blake2b512"
definition Lsha3_256 :: hash_fun where "Lsha3_256 = Hash EVP_sha3_256"
definition Lsha3_512 :: hash_fun where "Lsha3_512 = Hash EVP_sha3_512"
definition Lhmac_sha1 :: hash_fun where "Lhmac_sha1 = Hmac EVP_sha1"
definition Lhmac_sha224 :: hash_fun where "Lhmac_sha224 = Hmac EVP_sha224"
definition Lhmac_sha256 :: hash_fun where "Lhmac_sha256 = Hmac EVP_sha256"
definition Lhmac_sha384 :: hash_fun where "Lhmac_sha384 = Hmac EVP_sha384"
definition Lhmac_sha512 :: hash_fun where "Lhmac_sha512 = Hmac EVP_sha512"
definition Lhmac_md5 :: hash_fun where "Lhmac_md5 = Hmac EVP_md5"
definition Lhmac_sha3_256 :: hash_fun where "Lhmac_sha3_256 = Hmac EVP_sha3_256"
definition Lhmac_sha3_512 :: hash_fun where "Lhmac_sha3_512 = Hmac EVP_sha3_512"
definition Lhmac_blake2s256 :: hash_fun where "Lhmac_blake2s256 = Hmac EVP_blake2s256"
definition Lhmac_blake2b512 :: hash_fun where "Lhmac_blake2b512 = Hmac EVP_blake2b512"
definition Lpbkdf2_sha1 :: hash_fun where "Lpbkdf2_sha1 = Pbkdf2 EVP_sha1 SHA_DIGEST_LENGTH"
definition Lpbkdf2_sha256 :: hash_fun where "Lpbkdf2_sha256 = Pbkdf2 EVP_sha256 SHA256_DIGEST_LENGTH"
definition Lhkdf_sha256 :: hash_fun where "Lhkdf_sha256 = Hkdf EVP_sha256"
definition Lhkdf_sha384 :: hash_fun where "Lhkdf_sha384 = Hkdf EVP_sha384"

lemmas hash_fun_defs = Lsha1_def Lsha224_def Lsha256_def Lsha384_def Lsha512_def Lmd5_def Lblake2s256_def
  Lblake2b512_def Lsha3_256_def Lsha3_512_def Lhmac_sha1_def Lhmac_sha224_def Lhmac_sha256_def
  Lhmac_sha384_def Lhmac_sha512_def Lhmac_md5_def Lhmac_sha3_256_def Lhmac_sha3_512_def
  Lhmac_blake2s256_def Lhmac_blake2b512_def Lpbkdf2_sha1_def Lpbkdf2_sha256_def Lhkdf_sha256_def
  Lhkdf_sha384_def

definition Reg_hashes :: "(string \<times> hash_fun) list" where
  "Reg_hashes =
     [(''sha1'', Lsha1), (''sha224'', Lsha224), (''sha256'', Lsha256), (''sha384'', Lsha384),
      (''sha512'', Lsha512), (''md5'', Lmd5), (''sha3_256'', Lsha3_256), (''sha3_512'', Lsha3_512),
      (''blake2s256'', Lblake2s256), (''blake2b512'', Lblake2b512),
      (''hmac_sha1'', Lhmac_sha1), (''hmac_sha224'', Lhmac_sha224), (''hmac_sha256'', Lhmac_sha256),
      (''hmac_sha384'', Lhmac_sha384), (''hmac_sha512'', Lhmac_sha512), (''hmac_md5'', Lhmac_md5),
      (''hmac_sha3_256'', Lhmac_sha3_256), (''hmac_sha3_512'', Lhmac_sha3_512),
      (''hmac_blake2s256'', Lhmac_blake2s256), (''hmac_blake2b512'', Lhmac_blake2b512),
      (''scram_Hi_sha1'', Lpbkdf2_sha1), (''pbkdf2_hmac_sha1'', Lpbkdf2_sha1),
      (''pbkdf2_hmac_sha256'', Lpbkdf2_sha256), (''hkdf_hmac_sha256'', Lhkdf_sha256),
      (''hkdf_hmac_sha384'', Lhkdf_sha384), (''equals'', Equals)]"

fun hash_call ::
  "(lua_value \<Rightarrow> bytes) \<Rightarrow> (bytes \<Rightarrow> int option) \<Rightarrow> evp_api \<Rightarrow> hash_fun \<Rightarrow> lua_value list \<Rightarrow> nat
    \<Rightarrow> nat \<times> lua_value list outcome" where
  "hash_call n2s s2i api (Hash md) args live = Levp_hash n2s api md args live"
| "hash_call n2s s2i api (Hmac md) args live = Levp_hmac n2s api md args live"
| "hash_call n2s s2i api (Pbkdf2 md len) args live = Levp_pbkdf2 n2s s2i api md len args live"
| "hash_call n2s s2i api (Hkdf md) args live = Levp_hkdf n2s s2i api md args live"
| "hash_call n2s s2i api Equals args live = Lhash_equals n2s api args live"

section \<open>Hexadecimal output\<close>

text \<open>The reading of hexadecimal digits, as a specification.\<close>

text \<open>The value of a digit, from the codes of ASCII: digits from 48, lower case letters from 97.\<close>

definition hex_value :: "byte \<Rightarrow> nat option" where
  "hex_value c =
     (if 48 \<le> unat c \<and> unat c \<le> 57 then Some (unat c - 48)
      else if 97 \<le> unat c \<and> unat c \<le> 102 then Some (unat c - 87) else None)"

fun unhex :: "bytes \<Rightarrow> bytes option" where
  "unhex [] = Some []"
| "unhex (a # b # cs) =
     (case (hex_value a, hex_value b, unhex cs) of
        (Some x, Some y, Some bs) \<Rightarrow> Some (of_nat (16 * x + y) # bs)
      | _ \<Rightarrow> None)"
| "unhex _ = None"

lemma hex_value_nth: "k < 16 \<Longrightarrow> hex_value (hex_tab ! k) = Some k"
proof -
  have "\<forall>k \<in> set [0..<16]. hex_value (hex_tab ! k) = Some k"
    by (simp add: upt_rec hex_tab_def ascii_def hex_value_def)
  then show "k < 16 \<Longrightarrow> hex_value (hex_tab ! k) = Some k" by simp
qed

lemma hex_tab_props: "length hex_tab = 16" "distinct hex_tab"
  by (simp_all add: hex_tab_def ascii_def)

lemma nibbles:
  "unat (drop_bit 4 c) mod 16 = unat c div 16" "unat (drop_bit 4 c AND 0xF) = unat c div 16"
  "unat (c AND 0xF) = unat c mod 16" for c :: byte
proof -
  have "unat c div 16 < 16" using unat_byte[of c] by simp
  then show h: "unat (drop_bit 4 c) mod 16 = unat c div 16"
    using unat_byte[of c] by (simp only: unsigned_drop_bit_eq) (simp add: drop_bit_eq_div take_bit_eq_mod)
  have m: "unat (d AND 0xF) = unat d mod 16" for d :: byte
  proof -
    have "d AND 0xF = take_bit 4 d" by (simp add: take_bit_eq_mask mask_eq_exp_minus_1)
    then show ?thesis by (simp only: unsigned_take_bit_eq) (simp add: take_bit_eq_mod)
  qed
  show "unat (drop_bit 4 c AND 0xF) = unat c div 16" "unat (c AND 0xF) = unat c mod 16" using m h by simp_all
qed

lemma toHex_length [simp]: "length (toHex cs) = 2 * length cs"
  by (induction cs) auto

lemma toHex_digits: "set (toHex cs) \<subseteq> set hex_tab"
  using unat_byte by (induction cs) (auto simp: nibbles hex_tab_props less_mult_imp_div_less)

lemma unhex_toHex [simp]: "unhex (toHex cs) = Some cs"
proof (induction cs)
  case (Cons c cs)
  have d: "unat c div 16 < 16" using unat_byte[of c] by simp
  have "hex_value (hex_tab ! (unat c div 16)) = Some (unat c div 16)"
    "hex_value (hex_tab ! (unat c mod 16)) = Some (unat c mod 16)"
    using d by (auto intro!: hex_value_nth)
  moreover have "16 * (unat c div 16) + unat c mod 16 = unat c" by simp
  ultimately show ?case using Cons by (simp add: nibbles del: of_nat_add of_nat_mult)
qed simp

interpretation hexc: codec "\<lambda>_. True" toHex unhex
  by unfold_locales simp

text \<open>
  C36: A digest or HMAC asked for in hexadecimal is the hexadecimal form of the binary one, in
  lower case: two digits for each byte that decode to it, and the form of no other digest.
\<close>

theorem hex_digest_decodes:
  assumes "f = Hash md \<and> args = [LStr s] \<or> f = Hmac md \<and> args = [LStr key, LStr s]"
    and "hash_call n2s s2i api f args live = (live1, Inr [LStr d])"
  shows "\<exists>h. hash_call n2s s2i api f (args @ [LBool True]) live = (live1, Inr [LStr h]) \<and>
    unhex h = Some d \<and> length h = 2 * length d \<and> set h \<subseteq> set hex_tab \<and> (\<forall>d'. toHex d' = h \<longleftrightarrow> d' = d)"
  using assms toHex_digits[of d] hexc.encode_eq_iff[of _ d]
  by (auto simp: Levp_hash_def Levp_hmac_def luaL_checkstring_def push_digest_def openssl_error_def Let_def
      split: if_splits option.splits)

section \<open>Bounds and contexts\<close>

text \<open>
  What OpenSSL documents of the sizes of its outputs: a digest has at most
  \<^verbatim>\<open>EVP_MAX_MD_SIZE\<close> bytes, and a derived key at most as many as were asked for.
\<close>

definition evp_sizes :: "evp_api \<Rightarrow> bool" where
  "evp_sizes api \<longleftrightarrow>
     (\<forall>md s d. digest_final api md s = Some d \<longrightarrow> length d \<le> EVP_MAX_MD_SIZE) \<and>
     (\<forall>md k n s d. hmac api md k n s = Some d \<longrightarrow> length d \<le> EVP_MAX_MD_SIZE) \<and>
     (\<forall>md salt key info n d. derive api md salt key info n = Some d \<longrightarrow> length d \<le> n)"

lemma evp_sizesD:
  "evp_sizes api \<Longrightarrow> digest_final api md s = Some d \<Longrightarrow> length d \<le> EVP_MAX_MD_SIZE"
  "evp_sizes api \<Longrightarrow> hmac api md k i s = Some d \<Longrightarrow> length d \<le> EVP_MAX_MD_SIZE"
  "evp_sizes api \<Longrightarrow> derive api md salt key info n = Some d \<Longrightarrow> length d \<le> n"
  by (auto simp: evp_sizes_def)

lemma checkstring_defined: "luaL_checkstring n2s args i \<noteq> Inl (Undefined m)"
  by (simp add: luaL_checkstring_def split: option.splits)

lemma checkinteger_defined: "luaL_checkinteger s2i args i \<noteq> Inl (Undefined m)"
  by (simp add: luaL_checkinteger_def split: option.splits lua_value.splits)

lemma optstring_defined: "luaL_optstring n2s args i \<noteq> Inl (Undefined m)"
  using checkstring_defined by (auto simp: luaL_optstring_def bind_outcome_Inl_iff)

lemmas args_defined = checkstring_defined checkinteger_defined optstring_defined

lemma hkdf_args_defined: "hkdf_args n2s s2i args \<noteq> Inl (Undefined m)"
  using args_defined by (auto simp: hkdf_args_def bind_outcome_Inl_iff)

lemma hkdf_defined:
  assumes "evp_sizes api"
  shows "snd (Levp_hkdf n2s s2i api md args live) \<noteq> Inl (Undefined m)"
proof (cases "hkdf_args n2s s2i args")
  case (Inl e)
  then show ?thesis using hkdf_args_defined[of n2s s2i args m] by (simp add: Levp_hkdf_def)
next
  case (Inr a)
  obtain n input salt info where a: "a = (n, input, salt, info)" by (cases a)
  have "length out \<le> MAX_HKDF_OUTPUT" if "derive api md salt input info n = Some out" "n \<le> MAX_HKDF_OUTPUT" for out
    using evp_sizesD(3)[OF assms that(1)] that(2) by simp
  then show ?thesis
    by (cases "derive api md salt input info n") (auto simp: Levp_hkdf_def Inr a Let_def openssl_error_def not_less)
qed

lemma hash_defined: "evp_sizes api \<Longrightarrow> snd (Levp_hash n2s api md args live) \<noteq> Inl (Undefined m)"
  using args_defined by (auto simp: Levp_hash_def Let_def openssl_error_def push_digest_def
      split: sum.splits option.splits dest: evp_sizesD(1))

lemma hmac_defined: "evp_sizes api \<Longrightarrow> snd (Levp_hmac n2s api md args live) \<noteq> Inl (Undefined m)"
  using args_defined by (auto simp: Levp_hmac_def openssl_error_def push_digest_def bind_outcome_Inl_iff
      split: option.splits dest: evp_sizesD(2))

lemma pbkdf2_defined:
  "len \<le> EVP_MAX_MD_SIZE \<Longrightarrow> snd (Levp_pbkdf2 n2s s2i api md len args live) \<noteq> Inl (Undefined m)"
  using args_defined by (auto simp: Levp_pbkdf2_def openssl_error_def bind_outcome_Inl_iff split: option.splits)

lemma equals_defined: "snd (Lhash_equals n2s api args live) \<noteq> Inl (Undefined m)"
  using args_defined by (auto simp: Lhash_equals_def bind_outcome_Inl_iff)

text \<open>
  C11: No function of the module writes outside its arrays, whatever its arguments are, a
  negative or huge length for HKDF included, as long as OpenSSL keeps to the sizes it documents.
\<close>

theorem hashes_in_bounds:
  assumes "evp_sizes api" and "(name, f) \<in> set Reg_hashes"
  shows "snd (hash_call n2s s2i api f args live) \<noteq> Inl (Undefined m)"
proof -
  have "(\<exists>md. f = Hash md) \<or> (\<exists>md. f = Hmac md) \<or> (\<exists>md. f = Hkdf md) \<or> f = Equals \<or>
      (\<exists>md len. f = Pbkdf2 md len \<and> len \<le> EVP_MAX_MD_SIZE)"
    using assms(2) by (auto simp: Reg_hashes_def hash_fun_defs SHA_DIGEST_LENGTH_def SHA256_DIGEST_LENGTH_def
        EVP_MAX_MD_SIZE_def)
  then show ?thesis
    using assms(1) hash_defined hmac_defined pbkdf2_defined hkdf_defined equals_defined
    by (elim disjE exE conjE) simp_all
qed

text \<open>
  Every function but the two of HKDF frees the context it allocates, on every path. HKDF
  frees it on none: each call with a permitted length leaves one more context behind, whether
  it succeeds or fails.
\<close>

theorem hkdf_leaks_its_context:
  assumes "(name, f) \<in> set Reg_hashes" and "pkey_ctx_new api"
  shows "((\<forall>md. f \<noteq> Hkdf md) \<longrightarrow> fst (hash_call n2s s2i api f args live) = live) \<and>
    (f = Hkdf md \<and> args = [LInt n, LStr input, salt, LStr info] \<and> 0 \<le> n \<and> n \<le> 256 \<and> (salt = LNil \<or> salt = LStr x) \<longrightarrow>
      fst (hash_call n2s s2i api f args live) = live + 1)"
proof (intro conjI impI)
  assume "\<forall>md. f \<noteq> Hkdf md"
  then show "fst (hash_call n2s s2i api f args live) = live"
    by (cases f) (auto simp: Levp_hash_def Levp_hmac_def Levp_pbkdf2_def Lhash_equals_def Let_def
        split: sum.splits option.splits)
next
  assume a: "f = Hkdf md \<and> args = [LInt n, LStr input, salt, LStr info] \<and> 0 \<le> n \<and> n \<le> 256 \<and> (salt = LNil \<or> salt = LStr x)"
  then have "to_usize n \<le> MAX_HKDF_OUTPUT" by (auto simp: to_usize_nonneg MAX_HKDF_OUTPUT_def)
  with a assms(2) show "fst (hash_call n2s s2i api f args live) = live + 1"
    by (auto simp: Levp_hkdf_def hkdf_args_def luaL_checkinteger_def luaL_checkstring_def luaL_optstring_def Let_def
        split: option.splits)
qed

text \<open>A stand-in for OpenSSL whose digests are the first bytes of the message.\<close>

definition sample_evp :: evp_api where
  "sample_evp =
     \<lparr>md_ctx_new = True, digest_init = (\<lambda>_. True), digest_update = (\<lambda>_ _. True),
      digest_final = (\<lambda>_ s. Some (take 20 s)), hmac = (\<lambda>_ k _ s. Some (take 20 (k @ s))),
      pbkdf2 = (\<lambda>p _ s _ _ _ n. Some (take n (p @ s @ replicate n 0))),
      pkey_ctx_new = True, derive_init = True, set_hkdf_md = (\<lambda>_. True), set1_hkdf_salt = (\<lambda>_. True),
      set1_hkdf_key = (\<lambda>_. True), add1_hkdf_info = (\<lambda>_. True),
      derive = (\<lambda>_ _ k _ n. Some (take n k)), crypto_memcmp = (\<lambda>a b n. if a = b then 0 else 1)\<rparr>"

lemma sample_evp_sizes: "evp_sizes sample_evp"
  by (auto simp: evp_sizes_def sample_evp_def EVP_MAX_MD_SIZE_def)

theorem hex_digest_decodes_witness:
  "\<exists>h. hash_call (\<lambda>_. []) (\<lambda>_. None) sample_evp (Hash EVP_sha1) [LStr [0xAB, 7], LBool True] 0 = (0, Inr [LStr h]) \<and>
    unhex h = Some [0xAB, 7]"
proof -
  have "hash_call (\<lambda>_. []) (\<lambda>_. None) sample_evp (Hash EVP_sha1) [LStr [0xAB, 7]] 0 = (0, Inr [LStr [0xAB, 7]])"
    by (simp add: Levp_hash_def luaL_checkstring_def sample_evp_def push_digest_def EVP_MAX_MD_SIZE_def)
  from hex_digest_decodes[OF _ this, of EVP_sha1 "[0xAB, 7]" "[]"] show ?thesis by auto
qed

theorem hashes_in_bounds_witness:
  "snd (hash_call (\<lambda>_. []) (\<lambda>_. None) sample_evp Lhkdf_sha256 [LInt (- 1), LStr [1], LNil, LStr []] 0) \<noteq>
    Inl (Undefined ''out buffer'')"
  using hashes_in_bounds[OF sample_evp_sizes, of "''hkdf_hmac_sha256''"] by (simp add: Reg_hashes_def)

theorem hkdf_leaks_its_context_witness:
  "fst (hash_call (\<lambda>_. []) (\<lambda>_. None) sample_evp Lhkdf_sha256 [LInt 32, LStr [1], LNil, LStr []] 5) = 6"
  using hkdf_leaks_its_context[of "''hkdf_hmac_sha256''" Lhkdf_sha256 sample_evp "\<lambda>_. []" "\<lambda>_. None"
      "[LInt 32, LStr [1], LNil, LStr []]" 5 EVP_sha256 32 "[1]" LNil "[]" "[]"]
  by (simp add: Reg_hashes_def Lhkdf_sha256_def sample_evp_def)

text \<open>Two strings are equal for \<^verbatim>\<open>equals\<close> when they are equal, for a memcmp that tells that.\<close>

lemma hash_equals_correct:
  assumes "\<And>a b. length a = length b \<Longrightarrow> crypto_memcmp api a b (length a) = 0 \<longleftrightarrow> a = b"
  shows "Lhash_equals n2s api [LStr a, LStr b] live = (live, Inr [LBool (a = b)])"
  using assms by (auto simp: Lhash_equals_def luaL_checkstring_def)

end
