(* ===== verification/Crypto.thy ===== *)
theory Crypto
  imports Hashes "HOL-Library.Log_Nat"
begin

text \<open>
  \<^verbatim>\<open>util-src/crypto.c\<close>: keys, signatures and ciphers with OpenSSL. OpenSSL is a parameter: a
  key is a value of an arbitrary type \<open>'pk\<close>, and the functions that the module calls are
  collected in the records \<open>pkey_api\<close>, \<open>cipher_api\<close> and \<open>ecdsa_api\<close>, with \<open>None\<close>, \<open>False\<close> or a
  number for their failures. Contexts that are managed pointers belong to the garbage collector
  of Lua; making one raises an error when there is no memory.
\<close>

section \<open>Key objects\<close>

text \<open>The numbers of OpenSSL for the types of keys.\<close>

definition NID_rsaEncryption :: int where "NID_rsaEncryption = 6"
definition NID_X9_62_id_ecPublicKey :: int where "NID_X9_62_id_ecPublicKey = 408"
definition NID_X9_62_prime256v1 :: int where "NID_X9_62_prime256v1 = 415"
definition NID_rsassaPss :: int where "NID_rsassaPss = 912"
definition NID_ED25519 :: int where "NID_ED25519 = 1087"

lemmas nid_defs = NID_rsaEncryption_def NID_X9_62_id_ecPublicKey_def NID_X9_62_prime256v1_def
  NID_rsassaPss_def NID_ED25519_def

text \<open>The userdata that \<^verbatim>\<open>push_pkey\<close> makes, with the fields of its user value.\<close>

record 'pk lua_key =
  pkey :: 'pk
  key_type :: "int option"
  key_private :: bool

record 'pk key_store =
  keys :: "nat \<rightharpoonup> 'pk lua_key"
  next_key :: nat

definition push_pkey :: "'pk \<Rightarrow> int \<Rightarrow> bool \<Rightarrow> 'pk key_store \<Rightarrow> 'pk key_store \<times> lua_value list" where
  "push_pkey pk ty privkey st =
     (st\<lparr>keys := (keys st)(next_key st \<mapsto>
            \<lparr>pkey = pk, key_type = (if ty \<noteq> 0 then Some ty else None), key_private = privkey\<rparr>),
         next_key := next_key st + 1\<rparr>,
      [LUserdata (next_key st)])"

definition pkey_from_arg :: "'pk key_store \<Rightarrow> lua_value list \<Rightarrow> nat \<Rightarrow> int \<Rightarrow> bool \<Rightarrow> 'pk outcome" where
  "pkey_from_arg st args idx ty require_private =
     (case lua_arg args idx of
        Some (LUserdata u) \<Rightarrow>
          (case keys st u of
             None \<Rightarrow> Inl (ArgError idx ''util.crypto key expected'')
           | Some k \<Rightarrow>
               if ty \<noteq> 0 \<and> (case key_type k of None \<Rightarrow> 0 | Some t \<Rightarrow> t) \<noteq> ty
               then Inl (ArgError idx ''unexpected key type'')
               else if require_private \<and> \<not> key_private k
               then Inl (ArgError idx ''private key expected, got public key only'')
               else Inr (pkey k))
      | _ \<Rightarrow> Inl (ArgError idx ''util.crypto key expected''))"

text \<open>The functions of OpenSSL on keys; the flag of the signature functions selects PSS padding.\<close>

record 'pk pkey_api =
  bio_new :: bool
  md_ctx_alloc :: bool
  pkey_id :: "'pk \<Rightarrow> int"
  nid2sn :: "int \<Rightarrow> bytes"
  derive_ctx :: "'pk \<Rightarrow> bool"
  derive_begin :: "'pk \<Rightarrow> bool"
  set_peer :: "'pk \<Rightarrow> 'pk \<Rightarrow> bool"
  derive_len :: "'pk \<Rightarrow> 'pk \<Rightarrow> nat option"
  buf_grow :: "nat \<Rightarrow> bool"
  derive_key :: "'pk \<Rightarrow> 'pk \<Rightarrow> bytes option"
  sign_init :: "'pk \<Rightarrow> evp_md option \<Rightarrow> bool"
  sign_len :: "'pk \<Rightarrow> evp_md option \<Rightarrow> bool \<Rightarrow> bytes \<Rightarrow> nat option"
  sign :: "'pk \<Rightarrow> evp_md option \<Rightarrow> bool \<Rightarrow> bytes \<Rightarrow> bytes option"
  verify_init :: "'pk \<Rightarrow> evp_md option \<Rightarrow> bool"
  verify :: "'pk \<Rightarrow> evp_md option \<Rightarrow> bool \<Rightarrow> bytes \<Rightarrow> bytes \<Rightarrow> int"
  todata :: "'pk \<Rightarrow> (string \<times> bytes) list option"
  write_pubkey :: "'pk \<Rightarrow> bytes option"
  write_privkey :: "'pk \<Rightarrow> bytes option"
  read_pubkey :: "bytes \<Rightarrow> 'pk option"
  read_privkey :: "bytes \<Rightarrow> 'pk option"
  param_bld :: "bytes \<Rightarrow> bytes \<Rightarrow> bool"
  ec_ctx :: bool
  fromdata_init :: bool
  fromdata :: "bytes \<Rightarrow> bytes \<Rightarrow> 'pk option"

definition Lpkey_finalizer :: "lua_value list \<Rightarrow> 'pk key_store \<Rightarrow> ('pk key_store \<times> lua_value list) outcome" where
  "Lpkey_finalizer args st =
     bind_outcome (pkey_from_arg st args 1 0 False) (\<lambda>_.
       case lua_arg args 1 of
         Some (LUserdata u) \<Rightarrow> Inr (st\<lparr>keys := (keys st)(u := None)\<rparr>, [])
       | _ \<Rightarrow> Inr (st, []))"

definition Lpkey_meth_get_type :: "'pk pkey_api \<Rightarrow> lua_value list \<Rightarrow> 'pk key_store \<Rightarrow> lua_value list outcome" where
  "Lpkey_meth_get_type api args st =
     bind_outcome (pkey_from_arg st args 1 0 False) (\<lambda>pk. Inr [LStr (c_str (nid2sn api (pkey_id api pk)))])"

definition Lpkey_meth_derive :: "'pk pkey_api \<Rightarrow> lua_value list \<Rightarrow> 'pk key_store \<Rightarrow> lua_value list outcome" where
  "Lpkey_meth_derive api args st =
     bind_outcome (pkey_from_arg st args 1 0 False) (\<lambda>key.
     bind_outcome (pkey_from_arg st args 2 0 False) (\<lambda>peer.
       if \<not> bio_new api then Inl (LuaError ''not enough memory'')
       else
         let sslerr = Inl (LuaError ''pkey:derive failed'') in
         if \<not> derive_ctx api key then sslerr
         else if \<not> derive_begin api key then sslerr
         else if \<not> set_peer api key peer then sslerr
         else case derive_len api key peer of
                None \<Rightarrow> sslerr
              | Some outlen \<Rightarrow>
                  if \<not> buf_grow api outlen then sslerr
                  else case derive_key api key peer of
                         None \<Rightarrow> sslerr
                       | Some out \<Rightarrow> if length out > outlen then Inl (Undefined ''buf'') else Inr [LStr out]))"

section \<open>Signatures\<close>

text \<open>\<^verbatim>\<open>luaL_prepbuffer\<close> gives \<^verbatim>\<open>LUAL_BUFFERSIZE\<close> bytes: \<open>16 * sizeof(void*) * sizeof(lua_Number)\<close>.\<close>

definition LUAL_BUFFERSIZE :: nat where "LUAL_BUFFERSIZE = 1024"

definition required_type :: "int \<Rightarrow> int" where
  "required_type ty = (if ty \<noteq> NID_rsassaPss then ty else NID_rsaEncryption)"

definition base_evp_sign ::
  "(lua_value \<Rightarrow> bytes) \<Rightarrow> 'pk pkey_api \<Rightarrow> int \<Rightarrow> evp_md option \<Rightarrow> lua_value list \<Rightarrow> 'pk key_store
    \<Rightarrow> lua_value list outcome" where
  "base_evp_sign num2str api ty md args st =
     bind_outcome (pkey_from_arg st args 1 (required_type ty) True) (\<lambda>pk.
       let msg = (case lua_tostring num2str (lua_arg args 2) of None \<Rightarrow> [] | Some m \<Rightarrow> m);
           pss = (ty = NID_rsassaPss) in
       if \<not> md_ctx_alloc api then Inl (LuaError ''not enough memory'')
       else if \<not> sign_init api pk md then Inr [LNil]
       else case sign_len api pk md pss msg of
              None \<Rightarrow> Inr [LNil]
            | Some sig_len \<Rightarrow>
                if sig_len > LUAL_BUFFERSIZE then Inl (Undefined ''sigbuf'')
                else case sign api pk md pss msg of None \<Rightarrow> Inr [LNil] | Some sig \<Rightarrow> Inr [LStr sig])"

text \<open>A failed \<^verbatim>\<open>EVP_MD_CTX_new\<close> is not noticed here: the null pointer is used.\<close>

definition base_evp_verify ::
  "(lua_value \<Rightarrow> bytes) \<Rightarrow> 'pk pkey_api \<Rightarrow> int \<Rightarrow> evp_md option \<Rightarrow> lua_value list \<Rightarrow> 'pk key_store
    \<Rightarrow> lua_value list outcome" where
  "base_evp_verify num2str api ty md args st =
     bind_outcome (pkey_from_arg st args 1 (required_type ty) False) (\<lambda>pk.
     bind_outcome (luaL_checkstring num2str args 2) (\<lambda>msg.
     bind_outcome (luaL_checkstring num2str args 3) (\<lambda>sig.
       if \<not> md_ctx_alloc api then Inl (Undefined ''null context'')
       else if \<not> verify_init api pk md then Inr [LNil]
       else
         let result = verify api pk md (ty = NID_rsassaPss) sig msg in
         if result = 0 then Inr [LBool False] else if result \<noteq> 1 then Inr [LNil] else Inr [LBool True])))"

text \<open>
  The type of key and the digest of \<^verbatim>\<open>Led25519_sign\<close> and \<^verbatim>\<open>Led25519_verify\<close>, and of the functions that
  the macro \<^verbatim>\<open>IMPL_SIGN_VERIFY\<close> makes.
\<close>

definition Led25519 :: "int \<times> evp_md option" where "Led25519 = (NID_ED25519, None)"

definition sign_algorithms :: "(string \<times> int \<times> evp_md option) list" where
  "sign_algorithms =
     [(''ed25519'', Led25519),
      (''ecdsa_sha256'', NID_X9_62_id_ecPublicKey, Some EVP_sha256),
      (''ecdsa_sha384'', NID_X9_62_id_ecPublicKey, Some EVP_sha384),
      (''ecdsa_sha512'', NID_X9_62_id_ecPublicKey, Some EVP_sha512),
      (''rsassa_pkcs1_sha256'', NID_rsaEncryption, Some EVP_sha256),
      (''rsassa_pkcs1_sha384'', NID_rsaEncryption, Some EVP_sha384),
      (''rsassa_pkcs1_sha512'', NID_rsaEncryption, Some EVP_sha512),
      (''rsassa_pss_sha256'', NID_rsassaPss, Some EVP_sha256),
      (''rsassa_pss_sha384'', NID_rsassaPss, Some EVP_sha384),
      (''rsassa_pss_sha512'', NID_rsassaPss, Some EVP_sha512)]"

section \<open>Import, export and generation of keys\<close>

definition Lpkey_meth_public_raw :: "'pk pkey_api \<Rightarrow> lua_value list \<Rightarrow> 'pk key_store \<Rightarrow> lua_value list outcome" where
  "Lpkey_meth_public_raw api args st =
     bind_outcome (pkey_from_arg st args 1 0 False) (\<lambda>pk.
       case todata api pk of
         None \<Rightarrow> Inr [LNil]
       | Some params \<Rightarrow>
           (case map_of params ''pub'' of None \<Rightarrow> Inr [LNil] | Some d \<Rightarrow> Inr [LStr d]))"

definition push_pem :: "bytes option \<Rightarrow> lua_value list" where
  "push_pem r = (case r of None \<Rightarrow> [LNil] | Some d \<Rightarrow> if length d > 0 then [LStr d] else [LNil])"

definition Lpkey_meth_public_pem :: "'pk pkey_api \<Rightarrow> lua_value list \<Rightarrow> 'pk key_store \<Rightarrow> lua_value list outcome" where
  "Lpkey_meth_public_pem api args st =
     bind_outcome (pkey_from_arg st args 1 0 False) (\<lambda>pk.
       if \<not> bio_new api then Inl (LuaError ''not enough memory'') else Inr (push_pem (write_pubkey api pk)))"

definition Lpkey_meth_private_pem :: "'pk pkey_api \<Rightarrow> lua_value list \<Rightarrow> 'pk key_store \<Rightarrow> lua_value list outcome" where
  "Lpkey_meth_private_pem api args st =
     bind_outcome (pkey_from_arg st args 1 0 True) (\<lambda>pk.
       if \<not> bio_new api then Inl (LuaError ''not enough memory'') else Inr (push_pem (write_privkey api pk)))"

text \<open>
  \<open>k\<close> is the key that OpenSSL generates, \<open>None\<close> if it fails; the results of the calls for
  Ed25519 are not looked at, and a null pointer is then pushed as a key.
\<close>

definition Lgenerate_ed25519_keypair :: "'pk option \<Rightarrow> 'pk key_store \<Rightarrow> ('pk key_store \<times> lua_value list) outcome" where
  "Lgenerate_ed25519_keypair k st =
     (case k of None \<Rightarrow> Inl (Undefined ''null key'') | Some pk \<Rightarrow> Inr (push_pkey pk NID_ED25519 True st))"

definition Lgenerate_p256_keypair :: "'pk option \<Rightarrow> 'pk key_store \<Rightarrow> 'pk key_store \<times> lua_value list" where
  "Lgenerate_p256_keypair k st =
     (case k of None \<Rightarrow> (st, [LNil]) | Some pk \<Rightarrow> push_pkey pk NID_X9_62_prime256v1 True st)"

definition Limport_private_pem ::
  "(lua_value \<Rightarrow> bytes) \<Rightarrow> 'pk pkey_api \<Rightarrow> lua_value list \<Rightarrow> 'pk key_store
    \<Rightarrow> ('pk key_store \<times> lua_value list) outcome" where
  "Limport_private_pem num2str api args st =
     (if \<not> bio_new api then Inl (LuaError ''not enough memory'')
      else bind_outcome (luaL_checkstring num2str args 1) (\<lambda>data.
        case read_privkey api data of
          None \<Rightarrow> Inr (st, [LNil])
        | Some pk \<Rightarrow> Inr (push_pkey pk (pkey_id api pk) True st)))"

definition Limport_public_pem ::
  "(lua_value \<Rightarrow> bytes) \<Rightarrow> 'pk pkey_api \<Rightarrow> lua_value list \<Rightarrow> 'pk key_store
    \<Rightarrow> ('pk key_store \<times> lua_value list) outcome" where
  "Limport_public_pem num2str api args st =
     (if \<not> bio_new api then Inl (LuaError ''not enough memory'')
      else bind_outcome (luaL_checkstring num2str args 1) (\<lambda>data.
        case read_pubkey api data of
          None \<Rightarrow> Inr (st, [LNil])
        | Some pk \<Rightarrow> Inr (push_pkey pk (pkey_id api pk) False st)))"

definition Limport_public_ec_raw ::
  "(lua_value \<Rightarrow> bytes) \<Rightarrow> 'pk pkey_api \<Rightarrow> lua_value list \<Rightarrow> 'pk key_store
    \<Rightarrow> ('pk key_store \<times> lua_value list) outcome" where
  "Limport_public_ec_raw num2str api args st =
     bind_outcome (luaL_checkstring num2str args 1) (\<lambda>pub.
     bind_outcome (luaL_checkstring num2str args 2) (\<lambda>curve.
       if \<not> param_bld api (c_str curve) pub then Inr (st, [LNil])
       else if \<not> ec_ctx api then Inr (st, [LNil])
       else if \<not> fromdata_init api then Inr (st, [LNil])
       else case fromdata api (c_str curve) pub of
              None \<Rightarrow> Inr (st, [LNil])
            | Some pk \<Rightarrow> Inr (push_pkey pk (pkey_id api pk) False st)))"

section \<open>Ciphers\<close>

datatype cipher = EVP_aes_128_gcm | EVP_aes_256_gcm | EVP_aes_256_ctr

text \<open>
  The functions of OpenSSL on a cipher context, with the key and the initialisation vector as
  arguments. Lengths are passed as the \<^verbatim>\<open>int\<close> that they are converted to. \<open>dec_final\<close> gets the
  data and the expected tag.
\<close>

record cipher_api =
  cipher_ctx_new :: bool
  enc_init :: "cipher \<Rightarrow> bool"
  enc_key :: "cipher \<Rightarrow> bytes \<Rightarrow> bytes \<Rightarrow> bool"
  enc_update :: "cipher \<Rightarrow> bytes \<Rightarrow> bytes \<Rightarrow> bytes \<Rightarrow> int \<Rightarrow> bytes option"
  enc_final :: "cipher \<Rightarrow> bytes \<Rightarrow> bytes \<Rightarrow> bytes \<Rightarrow> bytes option"
  get_tag :: "cipher \<Rightarrow> bytes \<Rightarrow> bytes \<Rightarrow> bytes \<Rightarrow> nat \<Rightarrow> bytes option"
  dec_init :: "cipher \<Rightarrow> bool"
  dec_key :: "cipher \<Rightarrow> bytes \<Rightarrow> bytes \<Rightarrow> bool"
  dec_update :: "cipher \<Rightarrow> bytes \<Rightarrow> bytes \<Rightarrow> bytes \<Rightarrow> int \<Rightarrow> bytes option"
  set_tag :: "cipher \<Rightarrow> bytes \<Rightarrow> bool"
  dec_final :: "cipher \<Rightarrow> bytes \<Rightarrow> bytes \<Rightarrow> bytes \<Rightarrow> bytes option \<Rightarrow> bytes option"

definition Levp_encrypt ::
  "(lua_value \<Rightarrow> bytes) \<Rightarrow> cipher_api \<Rightarrow> cipher \<Rightarrow> nat \<Rightarrow> nat \<Rightarrow> nat \<Rightarrow> lua_value list \<Rightarrow> lua_value list outcome" where
  "Levp_encrypt num2str api c expected_key_len expected_iv_len tag_len args =
     bind_outcome (luaL_checkstring num2str args 1) (\<lambda>key.
     bind_outcome (luaL_checkstring num2str args 2) (\<lambda>iv.
     bind_outcome (luaL_checkstring num2str args 3) (\<lambda>plaintext.
       if length key \<noteq> expected_key_len then Inl (LuaError ''key must be %d bytes'')
       else if length iv \<noteq> expected_iv_len then Inl (LuaError ''iv must be %d bytes'')
       else if length args > 3 then Inl (LuaError ''Expected 3 arguments, got %d'')
       else if \<not> cipher_ctx_new api then Inl (LuaError ''not enough memory'')
       else if \<not> enc_init api c then Inl (LuaError ''Error while initializing encryption engine'')
       else if \<not> enc_key api c key iv then Inl (LuaError ''Error while initializing key/iv'')
       else case enc_update api c key iv plaintext (to_int (int (length plaintext))) of
              None \<Rightarrow> Inl (LuaError ''Error while encrypting data'')
            | Some ciphertext \<Rightarrow>
                if length ciphertext > length plaintext + tag_len then Inl (Undefined ''ciphertext buffer'')
                else case enc_final api c key iv plaintext of
                       None \<Rightarrow> Inl (LuaError ''Error while encrypting final data'')
                     | Some fin \<Rightarrow>
                         if fin \<noteq> [] then Inl (LuaError ''Non-zero final data'')
                         else if tag_len > 0 then
                           if length ciphertext > length plaintext then Inl (Undefined ''ciphertext buffer'')
                           else (case get_tag api c key iv plaintext tag_len of
                                   None \<Rightarrow> Inl (LuaError ''Unable to read AEAD tag of encrypted data'')
                                 | Some tag \<Rightarrow> Inr [LStr (ciphertext @ tag)])
                         else Inr [LStr ciphertext])))"

definition Levp_decrypt ::
  "(lua_value \<Rightarrow> bytes) \<Rightarrow> cipher_api \<Rightarrow> cipher \<Rightarrow> nat \<Rightarrow> nat \<Rightarrow> nat \<Rightarrow> lua_value list \<Rightarrow> lua_value list outcome" where
  "Levp_decrypt num2str api c expected_key_len expected_iv_len tag_len args =
     bind_outcome (luaL_checkstring num2str args 1) (\<lambda>key.
     bind_outcome (luaL_checkstring num2str args 2) (\<lambda>iv.
     bind_outcome (luaL_checkstring num2str args 3) (\<lambda>ciphertext.
       if length key \<noteq> expected_key_len then Inl (LuaError ''key must be %d bytes'')
       else if length iv \<noteq> expected_iv_len then Inl (LuaError ''iv must be %d bytes'')
       else if length ciphertext \<le> tag_len
       then Inl (LuaError ''ciphertext must be at least %d bytes (including tag)'')
       else if length args > 3 then Inl (LuaError ''Expected 3 arguments, got %d'')
       else if \<not> cipher_ctx_new api then Inl (LuaError ''not enough memory'')
       else if \<not> dec_init api c then Inl (LuaError ''Error while initializing decryption engine'')
       else if \<not> dec_key api c key iv then Inl (LuaError ''Error while initializing key/iv'')
       else
         let data = take (length ciphertext - tag_len) ciphertext;
             tag = drop (length ciphertext - tag_len) ciphertext in
         case dec_update api c key iv data (to_int (int (length ciphertext - tag_len))) of
           None \<Rightarrow> Inl (LuaError ''Error while decrypting data'')
         | Some plaintext \<Rightarrow>
             if tag_len > 0 \<and> \<not> set_tag api c tag then Inl (LuaError ''Error while processing authentication tag'')
             else case dec_final api c key iv data (if tag_len > 0 then Some tag else None) of
                    None \<Rightarrow> Inr [LNil, LStr (ascii ''verify-failed'')]
                  | Some fin \<Rightarrow>
                      if length plaintext + length fin > length ciphertext then Inl (Undefined ''plaintext buffer'')
                      else Inr [LStr (plaintext @ fin)])))"

text \<open>The lengths of key, initialisation vector and tag that the exported functions use.\<close>

fun cipher_lengths :: "cipher \<Rightarrow> nat \<times> nat \<times> nat" where
  "cipher_lengths EVP_aes_128_gcm = (16, 12, 16)"
| "cipher_lengths EVP_aes_256_gcm = (32, 12, 16)"
| "cipher_lengths EVP_aes_256_ctr = (32, 16, 0)"

definition Laes_encrypt :: "(lua_value \<Rightarrow> bytes) \<Rightarrow> cipher_api \<Rightarrow> cipher \<Rightarrow> lua_value list \<Rightarrow> lua_value list outcome" where
  "Laes_encrypt num2str api c args =
     (case cipher_lengths c of (kl, il, tgl) \<Rightarrow> Levp_encrypt num2str api c kl il tgl args)"

definition Laes_decrypt :: "(lua_value \<Rightarrow> bytes) \<Rightarrow> cipher_api \<Rightarrow> cipher \<Rightarrow> lua_value list \<Rightarrow> lua_value list outcome" where
  "Laes_decrypt num2str api c args =
     (case cipher_lengths c of (kl, il, tgl) \<Rightarrow> Levp_decrypt num2str api c kl il tgl args)"

section \<open>ECDSA signatures\<close>

definition MAX_ECDSA_SIG_INT_BYTES :: nat where "MAX_ECDSA_SIG_INT_BYTES = 66"

record ecdsa_api =
  d2i_ECDSA_SIG :: "bytes \<Rightarrow> (nat \<times> nat) option"
  i2d_ECDSA_SIG :: "nat \<Rightarrow> nat \<Rightarrow> bytes"
  BN_bn2binpad :: "nat \<Rightarrow> nat \<Rightarrow> bytes option"
  BN_bin2bn :: "bytes \<Rightarrow> nat"

definition Lparse_ecdsa_signature ::
  "(lua_value \<Rightarrow> bytes) \<Rightarrow> (bytes \<Rightarrow> int option) \<Rightarrow> ecdsa_api \<Rightarrow> lua_value list \<Rightarrow> lua_value list outcome" where
  "Lparse_ecdsa_signature num2str str2int api args =
     bind_outcome (luaL_checkstring num2str args 1) (\<lambda>sig_der.
     bind_outcome (luaL_checkinteger str2int args 2) (\<lambda>n.
       let sig_int_bytes = to_usize n in
       if sig_int_bytes > MAX_ECDSA_SIG_INT_BYTES
       then Inl (LuaError ''requested signature size exceeds supported limit'')
       else case d2i_ECDSA_SIG api sig_der of
              None \<Rightarrow> Inr [LNil]
            | Some (r, s) \<Rightarrow>
                (case (BN_bn2binpad api r sig_int_bytes, BN_bn2binpad api s sig_int_bytes) of
                   (Some rb, Some sb) \<Rightarrow> Inr [LStr rb, LStr sb]
                 | _ \<Rightarrow> Inl (LuaError ''encoded integers exceed requested size''))))"

text \<open>
  The space that \<^verbatim>\<open>luaL_prepbuffsize\<close> promises, and at least the array inside the buffer object.
  The result is undefined when the encoding needs more.
\<close>

definition prepbuffsize :: "nat \<Rightarrow> nat" where
  "prepbuffsize sz = max LUAL_BUFFERSIZE sz"

definition Lbuild_ecdsa_signature ::
  "(lua_value \<Rightarrow> bytes) \<Rightarrow> ecdsa_api \<Rightarrow> lua_value list \<Rightarrow> lua_value list outcome" where
  "Lbuild_ecdsa_signature num2str api args =
     bind_outcome (luaL_checkstring num2str args 1) (\<lambda>rbin.
     bind_outcome (luaL_checkstring num2str args 2) (\<lambda>sbin.
       let der = i2d_ECDSA_SIG api (BN_bin2bn api rbin) (BN_bin2bn api sbin) in
       if length der > prepbuffsize ((length rbin + 1) + (length sbin + 1) + 7)
       then Inl (Undefined ''sigbuf'')
       else Inr [LStr der]))"

section \<open>Who may sign\<close>

text \<open>One call that changes the set of key objects; collection of an object is \<open>finalize\<close>.\<close>

inductive key_step :: "'pk pkey_api \<Rightarrow> 'pk key_store \<Rightarrow> 'pk key_store \<Rightarrow> bool" for api where
  gen_ed25519: "Lgenerate_ed25519_keypair k st = Inr (st', r) \<Longrightarrow> key_step api st st'"
| gen_p256: "Lgenerate_p256_keypair k st = (st', r) \<Longrightarrow> key_step api st st'"
| import_private: "Limport_private_pem n2s api args st = Inr (st', r) \<Longrightarrow> key_step api st st'"
| import_public: "Limport_public_pem n2s api args st = Inr (st', r) \<Longrightarrow> key_step api st st'"
| import_ec_raw: "Limport_public_ec_raw n2s api args st = Inr (st', r) \<Longrightarrow> key_step api st st'"
| finalize: "Lpkey_finalizer args st = Inr (st', r) \<Longrightarrow> key_step api st st'"

text \<open>An object that exists stays what it is until it is collected.\<close>

definition key_kept :: "nat \<Rightarrow> 'pk lua_key \<Rightarrow> 'pk key_store \<Rightarrow> bool" where
  "key_kept u k st \<longleftrightarrow> u < next_key st \<and> (keys st u = Some k \<or> keys st u = None)"

lemma push_pkey_kept:
  "key_kept u k st \<Longrightarrow> push_pkey pk ty p st = (st', r) \<Longrightarrow> key_kept u k st'"
  by (auto simp: key_kept_def push_pkey_def)

lemma key_step_kept:
  assumes "key_step api st st'" and "key_kept u k st"
  shows "key_kept u k st'"
  using assms(1)
proof (cases rule: key_step.cases)
  case (finalize args r)
  then show ?thesis using assms(2)
    by (auto simp: Lpkey_finalizer_def bind_outcome_Inr_iff key_kept_def split: option.splits lua_value.splits if_splits)
qed (use assms(2) in \<open>auto simp: Lgenerate_ed25519_keypair_def Lgenerate_p256_keypair_def Limport_private_pem_def
    Limport_public_pem_def Limport_public_ec_raw_def bind_outcome_Inr_iff
    split: option.splits if_splits intro: push_pkey_kept\<close>)

interpretation keyp: preserved "key_step api" "key_kept u k" for api u k
  by unfold_locales (rule key_step_kept)

lemma import_public_kept:
  assumes "Limport_public_pem n2s api args st = Inr (st1, [LUserdata u]) \<or>
    Limport_public_ec_raw n2s api args st = Inr (st1, [LUserdata u])"
  shows "\<exists>k. key_kept u k st1 \<and> \<not> key_private k"
  using assms by (auto simp: Limport_public_pem_def Limport_public_ec_raw_def bind_outcome_Inr_iff
      push_pkey_def key_kept_def split: option.splits if_splits)

lemma private_refused:
  assumes "key_kept u k st" and "\<not> key_private k"
  shows "\<exists>m. pkey_from_arg st (LUserdata u # args) 1 ty True = Inl (ArgError 1 m)"
  using assms by (auto simp: pkey_from_arg_def key_kept_def)

text \<open>
  C9: A key imported as a public key, from a PEM file or as the raw point of a curve, never signs and is
  never exported as a private key: whatever other keys are generated, imported or collected in between, every sign
  function and \<^verbatim>\<open>private_pem\<close> refuse the object with an error about argument 1.
\<close>

theorem public_key_never_signs:
  assumes "Limport_public_pem n2s api imp st = Inr (st1, [LUserdata u]) \<or>
      Limport_public_ec_raw n2s api imp st = Inr (st1, [LUserdata u])"
    and "(key_step api)\<^sup>*\<^sup>* st1 st2" and "(name, ty, md) \<in> set sign_algorithms"
  shows "(\<exists>m. base_evp_sign n2s api ty md (LUserdata u # args) st2 = Inl (ArgError 1 m)) \<and>
    (\<exists>m. Lpkey_meth_private_pem api (LUserdata u # args) st2 = Inl (ArgError 1 m))"
proof -
  obtain k where "key_kept u k st1" "\<not> key_private k" using import_public_kept[OF assms(1)] by blast
  then have "\<exists>m. pkey_from_arg st2 (LUserdata u # args) 1 t True = Inl (ArgError 1 m)" for t
    using keyp.steps_keep[OF assms(2)] private_refused by blast
  then show ?thesis
    unfolding base_evp_sign_def Lpkey_meth_private_pem_def by (metis bind_outcome_simps(1))
qed

text \<open>
  C38: A key from \<^verbatim>\<open>generate_p256_keypair\<close> can neither sign nor verify: its object carries the
  number of the curve as its type, while the ECDSA functions require the number of elliptic
  curve keys. Exporting it as PEM and importing it again gives an object that they accept.
\<close>

theorem generated_p256_key_rejected:
  assumes "Lgenerate_p256_keypair (Some pk) st = (st1, [LUserdata u])"
    and "bio_new api" and "write_privkey api pk = Some pem" and "pem \<noteq> []"
    and "read_privkey api pem = Some pk" and "pkey_id api pk = NID_X9_62_id_ecPublicKey"
  shows "base_evp_sign n2s api NID_X9_62_id_ecPublicKey (Some md) [LUserdata u, LStr msg] st1 =
      Inl (ArgError 1 ''unexpected key type'') \<and>
    base_evp_verify n2s api NID_X9_62_id_ecPublicKey (Some md) [LUserdata u, LStr msg, LStr sig] st1 =
      Inl (ArgError 1 ''unexpected key type'') \<and>
    Lpkey_meth_private_pem api [LUserdata u] st1 = Inr [LStr pem] \<and>
    (\<exists>st2 v. Limport_private_pem n2s api [LStr pem] st1 = Inr (st2, [LUserdata v]) \<and>
       pkey_from_arg st2 [LUserdata v, LStr msg] 1 (required_type NID_X9_62_id_ecPublicKey) True = Inr pk)"
  using assms
  by (auto simp: Lgenerate_p256_keypair_def push_pkey_def pkey_from_arg_def base_evp_sign_def base_evp_verify_def
      required_type_def nid_defs Lpkey_meth_private_pem_def push_pem_def Limport_private_pem_def luaL_checkstring_def)

text \<open>RSA signatures longer than the buffer of 1024 bytes, from keys of more than 8192 bits.\<close>

lemma long_rsa_signature_overflows:
  assumes "pkey_from_arg st args 1 (required_type ty) True = Inr pk" and "md_ctx_alloc api" and "sign_init api pk md"
    and "\<And>m. sign_len api pk md (ty = NID_rsassaPss) m = Some n" and "n > 1024"
  shows "base_evp_sign n2s api ty md args st = Inl (Undefined ''sigbuf'')"
  using assms by (simp add: base_evp_sign_def Let_def LUAL_BUFFERSIZE_def)

text \<open>Keys that are numbers, all of the type for elliptic curves.\<close>

definition sample_pkey_api :: "nat pkey_api" where
  "sample_pkey_api =
     \<lparr>bio_new = True, md_ctx_alloc = True, pkey_id = (\<lambda>_. NID_X9_62_id_ecPublicKey), nid2sn = (\<lambda>_. []),
      derive_ctx = (\<lambda>_. True), derive_begin = (\<lambda>_. True), set_peer = (\<lambda>_ _. True), derive_len = (\<lambda>_ _. Some 32),
      buf_grow = (\<lambda>_. True), derive_key = (\<lambda>_ _. None), sign_init = (\<lambda>_ _. True), sign_len = (\<lambda>_ _ _ _. Some 64),
      sign = (\<lambda>k _ _ m. Some m), verify_init = (\<lambda>_ _. True), verify = (\<lambda>k _ _ s m. if s = m then 1 else 0),
      todata = (\<lambda>_. None), write_pubkey = (\<lambda>k. Some [of_nat k]), write_privkey = (\<lambda>k. Some [of_nat k]),
      read_pubkey = (\<lambda>d. Some (unat (hd d))), read_privkey = (\<lambda>d. Some (unat (hd d))),
      param_bld = (\<lambda>_ _. True), ec_ctx = True, fromdata_init = True, fromdata = (\<lambda>_ p. Some (unat (hd p)))\<rparr>"

definition no_keys :: "nat key_store" where "no_keys = \<lparr>keys = Map.empty, next_key = 0\<rparr>"

theorem public_key_never_signs_witness:
  "\<exists>st1. Limport_public_ec_raw (\<lambda>_. []) sample_pkey_api [LStr [5], LStr []] no_keys = Inr (st1, [LUserdata 0]) \<and>
    (\<exists>m. base_evp_sign (\<lambda>_. []) sample_pkey_api NID_ED25519 None [LUserdata 0, LStr []] st1 = Inl (ArgError 1 m))"
proof -
  have i: "Limport_public_ec_raw (\<lambda>_. []) sample_pkey_api [LStr [5], LStr []] no_keys =
      Inr (fst (push_pkey 5 NID_X9_62_id_ecPublicKey False no_keys), [LUserdata 0])"
    by (simp add: Limport_public_ec_raw_def luaL_checkstring_def sample_pkey_api_def push_pkey_def no_keys_def)
  show ?thesis
    using i public_key_never_signs[OF disjI2[OF i] rtranclp.rtrancl_refl, of "''ed25519''" NID_ED25519 None "[LStr []]"]
    by (auto simp: sign_algorithms_def Led25519_def)
qed

theorem generated_p256_key_rejected_witness:
  "\<exists>st1. Lgenerate_p256_keypair (Some 5) no_keys = (st1, [LUserdata 0]) \<and>
    base_evp_sign (\<lambda>_. []) sample_pkey_api NID_X9_62_id_ecPublicKey (Some EVP_sha256) [LUserdata 0, LStr []] st1 =
      Inl (ArgError 1 ''unexpected key type'')"
proof -
  let ?st = "fst (push_pkey (5 :: nat) NID_X9_62_prime256v1 True no_keys)"
  have g: "Lgenerate_p256_keypair (Some 5) no_keys = (?st, [LUserdata 0])"
    by (simp add: Lgenerate_p256_keypair_def push_pkey_def no_keys_def)
  from generated_p256_key_rejected[OF g, of sample_pkey_api "[5]" "\<lambda>_. []" EVP_sha256 "[]" "[]"] g show ?thesis
    by (auto simp: sample_pkey_api_def)
qed

section \<open>Encryption and decryption\<close>

definition tag_length :: "cipher \<Rightarrow> nat" where "tag_length c = snd (snd (cipher_lengths c))"

text \<open>
  What OpenSSL promises of the three ciphers for one key and initialisation vector: they
  encrypt byte by byte, by a function \<open>E\<close> that keeps lengths and can be inverted, and leave nothing
  for the final call. The authenticated ones, and only they, have a tag \<open>T\<close> of 16 bytes: it can be read after
  an encryption, and must be set before the final call of a decryption, which compares it.
\<close>

definition cipher_ok :: "cipher_api \<Rightarrow> cipher \<Rightarrow> bytes \<Rightarrow> bytes \<Rightarrow> (bytes \<Rightarrow> bytes) \<Rightarrow> (bytes \<Rightarrow> bytes) \<Rightarrow> bool" where
  "cipher_ok api c k iv E T \<longleftrightarrow>
     cipher_ctx_new api \<and> enc_init api c \<and> enc_key api c k iv \<and> dec_init api c \<and> dec_key api c k iv \<and>
     bij E \<and> (\<forall>p. length (E p) = length p) \<and> (\<forall>p. length (T p) = 16) \<and>
     (\<forall>p. length p < 2 ^ 31 \<longrightarrow>
        enc_update api c k iv p (int (length p)) = Some (E p) \<and> enc_final api c k iv p = Some [] \<and>
        dec_update api c k iv (E p) (int (length p)) = Some p \<and>
        (if tag_length c = 0 then dec_final api c k iv (E p) None = Some []
         else get_tag api c k iv p 16 = Some (T p) \<and>
           (\<forall>t. length t = 16 \<longrightarrow> set_tag api c t \<and>
              dec_final api c k iv (E p) (Some t) = (if t = T p then Some [] else None))))"

definition sizes_ok :: "cipher \<Rightarrow> bytes \<Rightarrow> bytes \<Rightarrow> bool" where
  "sizes_ok c k iv \<longleftrightarrow> length k = fst (cipher_lengths c) \<and> length iv = fst (snd (cipher_lengths c))"

lemma int_length_ok: "length (p :: bytes) < 2 ^ 31 \<Longrightarrow> to_int (int (length p)) = int (length p)"
  by (simp add: to_int_range)

lemma aes_encrypt_eq:
  assumes "cipher_ok api c k iv E T" and "sizes_ok c k iv" and "length p < 2 ^ 31"
  shows "Laes_encrypt n2s api c [LStr k, LStr iv, LStr p] = Inr [LStr (E p @ (if tag_length c = 0 then [] else T p))]"
  using assms int_length_ok[OF assms(3)]
  by (cases c) (simp_all add: Laes_encrypt_def Levp_encrypt_def luaL_checkstring_def cipher_ok_def sizes_ok_def tag_length_def)

lemma aes_decrypt_eq:
  assumes "cipher_ok api c k iv E T" and "sizes_ok c k iv" and "length p < 2 ^ 31" and "p \<noteq> []" and "length t = tag_length c"
  shows "Laes_decrypt n2s api c [LStr k, LStr iv, LStr (E p @ t)] =
    (if tag_length c = 0 \<or> t = T p then Inr [LStr p] else Inr [LNil, LStr (ascii ''verify-failed'')])"
  using assms int_length_ok[OF assms(3)]
  by (cases c) (simp_all add: Laes_decrypt_def Levp_decrypt_def luaL_checkstring_def cipher_ok_def sizes_ok_def
      tag_length_def Let_def)

lemma aes_decrypt_short:
  assumes "sizes_ok c k iv" and "length ct \<le> tag_length c"
  shows "Laes_decrypt n2s api c [LStr k, LStr iv, LStr ct] =
    Inl (LuaError ''ciphertext must be at least %d bytes (including tag)'')"
  using assms by (cases c) (simp_all add: Laes_decrypt_def Levp_decrypt_def luaL_checkstring_def sizes_ok_def tag_length_def)

text \<open>
  C5: \<^verbatim>\<open>decrypt\<close> returns a plaintext exactly when it is not empty and \<^verbatim>\<open>encrypt\<close> turns it into
  that ciphertext, so what was encrypted is recovered and with GCM nothing else is accepted:
  every other string that is long enough gives \<^verbatim>\<open>verify-failed\<close>.
\<close>

theorem decrypt_iff_encrypt:
  assumes ok: "cipher_ok api c k iv E T" and sz: "sizes_ok c k iv" and len: "length ct < 2 ^ 31"
  shows "(Laes_decrypt n2s api c [LStr k, LStr iv, LStr ct] = Inr [LStr p] \<longleftrightarrow>
      p \<noteq> [] \<and> length p < 2 ^ 31 \<and> Laes_encrypt n2s api c [LStr k, LStr iv, LStr p] = Inr [LStr ct]) \<and>
    (tag_length c < length ct \<longrightarrow>
      Laes_decrypt n2s api c [LStr k, LStr iv, LStr ct] \<in> {Inr [LNil, LStr (ascii ''verify-failed'')]} \<union> range (\<lambda>p. Inr [LStr p]))"
proof (cases "tag_length c < length ct")
  case False
  moreover have "length ct = length p + tag_length c"
    if "length p < 2 ^ 31" "Laes_encrypt n2s api c [LStr k, LStr iv, LStr p] = Inr [LStr ct]"
    using aes_encrypt_eq[OF ok sz that(1), of n2s] that(2) ok by (cases c) (auto simp: cipher_ok_def tag_length_def)
  ultimately show ?thesis using aes_decrypt_short[OF sz, of ct n2s api] by auto
next
  case True
  define d where "d = take (length ct - tag_length c) ct"
  define t where "t = drop (length ct - tag_length c) ct"
  have "bij E" and El: "\<And>q. length (E q) = length q" and Tl: "\<And>q. length (T q) = 16" using ok by (auto simp: cipher_ok_def)
  then obtain q where q: "E q = d" by (metis bij_pointE)
  have ct: "ct = E q @ t" and tl: "length t = tag_length c" using True q by (simp_all add: d_def t_def)
  then have "q \<noteq> []" "length q < 2 ^ 31" using El[of q] True len by auto
  then have dec: "Laes_decrypt n2s api c [LStr k, LStr iv, LStr ct] =
      (if tag_length c = 0 \<or> t = T q then Inr [LStr q] else Inr [LNil, LStr (ascii ''verify-failed'')])"
    using aes_decrypt_eq[OF ok sz, of q t n2s] tl ct by simp
  have "Laes_encrypt n2s api c [LStr k, LStr iv, LStr p] = Inr [LStr ct] \<longleftrightarrow> p = q \<and> (tag_length c = 0 \<or> t = T q)"
    if "length p < 2 ^ 31" for p
  proof -
    have "length (if tag_length c = 0 then [] else T p) = tag_length c" using Tl by (cases c) (auto simp: tag_length_def)
    then have "E p @ (if tag_length c = 0 then [] else T p) = E q @ t \<longleftrightarrow> E p = E q \<and> (if tag_length c = 0 then [] else T p) = t"
      using tl by (intro append_eq_append_conv) simp
    then show ?thesis using aes_encrypt_eq[OF ok sz that, of n2s] ct \<open>bij E\<close> tl by (auto simp: bij_def inj_eq)
  qed
  then show ?thesis using dec \<open>q \<noteq> []\<close> \<open>length q < 2 ^ 31\<close> by auto
qed

text \<open>
  The empty string can be encrypted with each of the three ciphers but not decrypted
  again: \<^verbatim>\<open>decrypt\<close> requires more bytes than the tag has, though its message says that as many
  are enough.
\<close>

theorem empty_plaintext_not_recovered:
  assumes "cipher_ok api c k iv E T" and "sizes_ok c k iv"
  shows "\<exists>ct. Laes_encrypt n2s api c [LStr k, LStr iv, LStr []] = Inr [LStr ct] \<and> length ct = tag_length c \<and>
    Laes_decrypt n2s api c [LStr k, LStr iv, LStr ct] =
      Inl (LuaError ''ciphertext must be at least %d bytes (including tag)'')"
proof -
  let ?ct = "E [] @ (if tag_length c = 0 then [] else T [])"
  have l: "length ?ct = tag_length c" using assms(1) by (cases c) (simp_all add: cipher_ok_def tag_length_def)
  then show ?thesis using aes_encrypt_eq[OF assms, of "[]" n2s] aes_decrypt_short[OF assms(2), of ?ct n2s api] by simp
qed

text \<open>
  Ciphers that add one to each byte, with the length of the text as the tag of the authenticated
  ones. Without a tag these refuse the final call, and the others know no tags.
\<close>

definition sample_cipher_api :: cipher_api where
  "sample_cipher_api =
     \<lparr>cipher_ctx_new = True, enc_init = (\<lambda>_. True), enc_key = (\<lambda>_ _ _. True),
      enc_update = (\<lambda>_ _ _ p _. Some (map (\<lambda>b. b + 1) p)), enc_final = (\<lambda>_ _ _ _. Some []),
      get_tag = (\<lambda>c _ _ p n. if tag_length c = 0 then None else Some (replicate n (of_nat (length p)))),
      dec_init = (\<lambda>_. True), dec_key = (\<lambda>_ _ _. True), dec_update = (\<lambda>_ _ _ d _. Some (map (\<lambda>b. b - 1) d)),
      set_tag = (\<lambda>c _. tag_length c \<noteq> 0),
      dec_final = (\<lambda>c _ _ d t. if t = (if tag_length c = 0 then None else Some (replicate 16 (of_nat (length d))))
                               then Some [] else None)\<rparr>"

lemma sample_cipher_ok:
  "cipher_ok sample_cipher_api c k iv (map (\<lambda>b. b + 1)) (\<lambda>p. replicate 16 (of_nat (length p)))"
proof -
  have "bij (map (\<lambda>b :: byte. b + 1))"
    by (rule bij_betw_byWitness[where f' = "map (\<lambda>b. b - 1)"]) (auto simp: comp_def)
  then show ?thesis by (simp add: cipher_ok_def sample_cipher_api_def comp_def)
qed

theorem decrypt_iff_encrypt_witness:
  "Laes_decrypt (\<lambda>_. []) sample_cipher_api EVP_aes_128_gcm
     [LStr (replicate 16 0), LStr (replicate 12 0), LStr ([2, 3] @ replicate 16 2)] = Inr [LStr [1, 2]]"
proof -
  have "sizes_ok EVP_aes_128_gcm (replicate 16 0) (replicate 12 0)" by (simp add: sizes_ok_def)
  note eq = aes_encrypt_eq[OF sample_cipher_ok this, of "[1, 2]" "\<lambda>_. []"]
    and iff = decrypt_iff_encrypt[OF sample_cipher_ok this, of "[2, 3] @ replicate 16 2" "\<lambda>_. []" "[1, 2]"]
  show ?thesis using eq iff by (simp add: tag_length_def)
qed

theorem empty_plaintext_not_recovered_witness:
  "\<exists>ct. Laes_encrypt (\<lambda>_. []) sample_cipher_api EVP_aes_256_ctr [LStr (replicate 32 0), LStr (replicate 16 0), LStr []] =
      Inr [LStr ct] \<and>
    Laes_decrypt (\<lambda>_. []) sample_cipher_api EVP_aes_256_ctr [LStr (replicate 32 0), LStr (replicate 16 0), LStr ct] =
      Inl (LuaError ''ciphertext must be at least %d bytes (including tag)'')"
proof -
  have "sizes_ok EVP_aes_256_ctr (replicate 32 0) (replicate 16 0)" by (simp add: sizes_ok_def)
  from empty_plaintext_not_recovered[OF sample_cipher_ok this, of "\<lambda>_. []"] show ?thesis by blast
qed

section \<open>The size of a DER signature\<close>

text \<open>The value of a big-endian number.\<close>

fun be_value :: "nat \<Rightarrow> bytes \<Rightarrow> nat" where
  "be_value a [] = a"
| "be_value a (c # cs) = be_value (a * 256 + unat c) cs"

lemma be_value_bounds: "a * 256 ^ length cs \<le> be_value a cs \<and> be_value a cs < (a + 1) * 256 ^ length cs"
proof (induction cs arbitrary: a)
  case (Cons c cs)
  let ?v = "a * 256 + unat c"
  have "(?v + 1) * 256 ^ length cs \<le> ((a + 1) * 256) * 256 ^ length cs"
    using unat_byte[of c] by (intro mult_right_mono) (auto simp del: add_mult_distrib)
  moreover have "(a * 256) * 256 ^ length cs \<le> ?v * 256 ^ length cs"
    by (intro mult_right_mono) auto
  ultimately have "(a * 256) * 256 ^ length cs \<le> be_value ?v cs \<and> be_value ?v cs < ((a + 1) * 256) * 256 ^ length cs"
    using Cons[of ?v] order_trans order_less_le_trans by blast
  then show ?case by (simp only: be_value.simps length_Cons power_Suc mult.assoc)
qed simp

text \<open>
  X.690: an integer has the fewest bytes that leave room for a sign bit; a length below 128
  takes one byte, a longer one a byte for its own length and then its bytes.
\<close>

definition der_int :: "nat \<Rightarrow> nat" where "der_int n = floorlog 2 n div 8 + 1"

definition der_tlv :: "nat \<Rightarrow> nat" where
  "der_tlv len = (if len < 128 then 2 else if len < 256 then 3 else if len < 65536 then 4 else 5) + len"

definition der_sig_len :: "nat \<Rightarrow> nat \<Rightarrow> nat" where
  "der_sig_len r s = der_tlv (der_tlv (der_int r) + der_tlv (der_int s))"

lemma der_int_le:
  assumes "n < 256 ^ k"
  shows "der_int n \<le> k + 1"
proof -
  have "n < 2 ^ (8 * k)" using assms by (simp add: power_mult)
  then have "floorlog 2 n \<le> 8 * k" by (simp add: floorlog_leI)
  then show ?thesis by (simp add: der_int_def)
qed

lemma der_int_top:
  assumes "128 * 256 ^ k \<le> n"
  shows "k + 2 \<le> der_int n"
proof -
  have "(2 :: nat) ^ (8 * k + 7) \<le> n" using assms by (simp add: power_add power_mult)
  then have "8 * k + 8 \<le> floorlog 2 n" by (intro floorlog_geI) (simp_all add: add.commute)
  then show ?thesis by (simp add: der_int_def)
qed

lemma be_value_less: "be_value 0 cs < 256 ^ length cs"
  using be_value_bounds[of 0 cs] by simp

lemma der_sig_len_small:
  assumes "length rb \<le> 120" "length sb \<le> 120"
  shows "der_sig_len (be_value 0 rb) (be_value 0 sb) \<le> (length rb + 1) + (length sb + 1) + 7"
  using der_int_le[OF be_value_less[of rb]] der_int_le[OF be_value_less[of sb]] assms
  by (simp add: der_sig_len_def der_tlv_def)

text \<open>
  C14: For \<open>r\<close> and \<open>s\<close> of the same length \<open>n\<close>, at most the 66 bytes that curves of 521 bits need, the signature that
  \<^verbatim>\<open>build_ecdsa_signature\<close> makes fits into the space computed for it, and
  \<^verbatim>\<open>parse_ecdsa_signature\<close> gives \<open>r\<close> and \<open>s\<close> back, with their leading zeros.
\<close>

theorem ecdsa_build_parse:
  assumes der: "d2i_ECDSA_SIG api (i2d_ECDSA_SIG api (be_value 0 rb) (be_value 0 sb)) = Some (be_value 0 rb, be_value 0 sb)"
    and size: "length (i2d_ECDSA_SIG api (be_value 0 rb) (be_value 0 sb)) = der_sig_len (be_value 0 rb) (be_value 0 sb)"
    and bn: "\<And>bs. BN_bin2bn api bs = be_value 0 bs" "\<And>bs. BN_bn2binpad api (be_value 0 bs) (length bs) = Some bs"
    and len: "length rb = n" "length sb = n" "n \<le> 66"
  shows "\<exists>der. Lbuild_ecdsa_signature n2s api [LStr rb, LStr sb] = Inr [LStr der] \<and>
    length der \<le> (length rb + 1) + (length sb + 1) + 7 \<and>
    Lparse_ecdsa_signature n2s s2i api [LStr der, LInt (int n)] = Inr [LStr rb, LStr sb]"
proof -
  let ?der = "i2d_ECDSA_SIG api (be_value 0 rb) (be_value 0 sb)"
  have l: "length ?der \<le> (length rb + 1) + (length sb + 1) + 7"
    using der_sig_len_small[of rb sb] size len by simp
  have "to_usize (int n) = n" using len(3) by (simp add: to_usize_nonneg)
  then show ?thesis
    using l der bn len bn(2)[of rb] bn(2)[of sb]
    by (intro exI[of _ ?der])
      (auto simp: Lbuild_ecdsa_signature_def Lparse_ecdsa_signature_def luaL_checkstring_def luaL_checkinteger_def
        prepbuffsize_def MAX_ECDSA_SIG_INT_BYTES_def Let_def)
qed

text \<open>
  The space that \<^verbatim>\<open>build_ecdsa_signature\<close> computes is too small for long numbers: the seven
  bytes are not enough when the lengths themselves need more than one byte, so strings of
  512 bytes or more whose first bit is set make OpenSSL write behind the space asked for.
\<close>

theorem ecdsa_build_overflows:
  assumes "length rb = n" and "length sb = n" and "511 \<le> n" and "n \<le> 30000"
    and "128 \<le> unat r0" and "128 \<le> unat s0"
    and "length (i2d_ECDSA_SIG api (be_value 0 (r0 # rb)) (be_value 0 (s0 # sb))) =
      der_sig_len (be_value 0 (r0 # rb)) (be_value 0 (s0 # sb))"
    and "\<And>bs. BN_bin2bn api bs = be_value 0 bs"
  shows "Lbuild_ecdsa_signature n2s api [LStr (r0 # rb), LStr (s0 # sb)] = Inl (Undefined ''sigbuf'')"
proof -
  have "128 * 256 ^ n \<le> be_value 0 (c # cs)" if "128 \<le> unat c" "length cs = n" for c cs
  proof -
    have "128 * 256 ^ n \<le> unat c * 256 ^ length cs" using that by simp
    also have "\<dots> \<le> be_value (unat c) cs" using be_value_bounds by blast
    finally show ?thesis by simp
  qed
  note top = der_int_top[OF this]
  have bound: "der_int (be_value 0 (c # cs)) \<le> n + 2" if "length cs = n" for c cs
    using der_int_le[OF be_value_less[of "c # cs"]] that by simp
  have "der_int (be_value 0 (r0 # rb)) = n + 2" "der_int (be_value 0 (s0 # sb)) = n + 2"
    using top[OF assms(5,1)] top[OF assms(6,2)] bound[OF assms(1), of r0] bound[OF assms(2), of s0] by simp_all
  then have "der_sig_len (be_value 0 (r0 # rb)) (be_value 0 (s0 # sb)) = 4 + 2 * (n + 6)"
    using assms(3,4) by (simp add: der_sig_len_def der_tlv_def)
  then show ?thesis
    using assms by (simp add: Lbuild_ecdsa_signature_def luaL_checkstring_def prepbuffsize_def LUAL_BUFFERSIZE_def Let_def)
qed

text \<open>
  Stand-ins for the functions on numbers: an encoding of the right length that holds one
  signature, and the padding to a given length.
\<close>

fun be_bytes :: "nat \<Rightarrow> nat \<Rightarrow> bytes" where
  "be_bytes 0 n = []"
| "be_bytes (Suc k) n = be_bytes k (n div 256) @ [of_nat (n mod 256)]"

lemma be_value_append: "be_value a (xs @ [c]) = be_value a xs * 256 + unat c"
  by (induction xs arbitrary: a) auto

lemma be_bytes_value: "be_bytes (length bs) (be_value 0 bs) = bs"
proof (induction bs rule: rev_induct)
  case (snoc c cs)
  have "unat c < 256" by (rule unat_byte)
  then have "(be_value 0 cs * 256 + unat c) div 256 = be_value 0 cs" "(be_value 0 cs * 256 + unat c) mod 256 = unat c"
    by (simp_all add: div_add1_eq)
  then show ?case using snoc by (simp add: be_value_append)
qed simp

definition sample_ecdsa_api :: "nat \<Rightarrow> nat \<Rightarrow> ecdsa_api" where
  "sample_ecdsa_api r0 s0 =
     \<lparr>d2i_ECDSA_SIG = (\<lambda>_. Some (r0, s0)), i2d_ECDSA_SIG = (\<lambda>r s. replicate (der_sig_len r s) 0),
      BN_bn2binpad = (\<lambda>n k. if n < 256 ^ k then Some (be_bytes k n) else None), BN_bin2bn = be_value 0\<rparr>"

theorem ecdsa_build_parse_witness:
  "\<exists>der. Lbuild_ecdsa_signature (\<lambda>_. []) (sample_ecdsa_api 7 8) [LStr [0, 7], LStr [0, 8]] = Inr [LStr der] \<and>
    Lparse_ecdsa_signature (\<lambda>_. []) (\<lambda>_. None) (sample_ecdsa_api 7 8) [LStr der, LInt 2] = Inr [LStr [0, 7], LStr [0, 8]]"
proof -
  have "BN_bn2binpad (sample_ecdsa_api 7 8) (be_value 0 bs) (length bs) = Some bs" for bs
    using be_value_less[of bs] by (simp add: sample_ecdsa_api_def be_bytes_value)
  then show ?thesis
    using ecdsa_build_parse[of "sample_ecdsa_api 7 8" "[0, 7]" "[0, 8]" 2 "\<lambda>_. []" "\<lambda>_. None"]
    by (auto simp: sample_ecdsa_api_def)
qed

theorem ecdsa_build_overflows_witness:
  "Lbuild_ecdsa_signature (\<lambda>_. []) (sample_ecdsa_api 0 0)
     [LStr (255 # replicate 1199 0), LStr (255 # replicate 1199 0)] = Inl (Undefined ''sigbuf'')"
  by (rule ecdsa_build_overflows[where n = 1199]) (simp_all add: sample_ecdsa_api_def del: be_value.simps)

end
