(* ===== verification/Net.thy ===== *)
theory Net
  imports Lua_Args
begin

text \<open>
  \<^verbatim>\<open>util-src/net.c\<close>: the addresses of the local interfaces, and the conversion between the
  binary and the text form of addresses. \<^verbatim>\<open>getifaddrs\<close>, \<^verbatim>\<open>inet_ntop\<close> and \<^verbatim>\<open>inet_pton\<close> are
  parameters; addresses are byte strings in network order.
\<close>

section \<open>Interfaces\<close>

datatype family = AF_INET | AF_INET6

datatype sockaddr = Sin bytes | Sin6 bytes | Sother nat

record ifaddr =
  ifa_flags :: "32 word"
  ifa_addr :: "sockaddr option"

definition IFF_LOOPBACK :: "32 word" where "IFF_LOOPBACK = 8"

text \<open>
  The 32-bit number of four bytes in network order. The C code compares such numbers as they lie
  in memory, with constants that went through \<^verbatim>\<open>htonl\<close>; the order of the bytes does not matter
  for the comparison and the mask.
\<close>

definition net32 :: "bytes \<Rightarrow> nat \<Rightarrow> 32 word" where
  "net32 a i = push_bit 24 (ucast (a ! i)) OR push_bit 16 (ucast (a ! (i + 1))) OR
     push_bit 8 (ucast (a ! (i + 2))) OR ucast (a ! (i + 3))"

definition ip4_linklocal :: "32 word" where "ip4_linklocal = 0xa9fe0000"
definition ip4_mask :: "32 word" where "ip4_mask = 0xffff0000"

definition is_ip4_linklocal :: "bytes \<Rightarrow> bool" where
  "is_ip4_linklocal a \<longleftrightarrow> net32 a 0 AND ip4_mask = ip4_linklocal"

text \<open>The macros of \<^verbatim>\<open>netinet/in.h\<close>.\<close>

definition IN6_IS_ADDR_LINKLOCAL :: "bytes \<Rightarrow> bool" where
  "IN6_IS_ADDR_LINKLOCAL a \<longleftrightarrow> net32 a 0 AND 0xffc00000 = 0xfe800000"

definition IN6_IS_ADDR_V4MAPPED :: "bytes \<Rightarrow> bool" where
  "IN6_IS_ADDR_V4MAPPED a \<longleftrightarrow> net32 a 0 = 0 \<and> net32 a 4 = 0 \<and> net32 a 8 = 0xffff"

definition IN6_IS_ADDR_V4COMPAT :: "bytes \<Rightarrow> bool" where
  "IN6_IS_ADDR_V4COMPAT a \<longleftrightarrow> net32 a 0 = 0 \<and> net32 a 4 = 0 \<and> net32 a 8 = 0 \<and> net32 a 12 > 1"

section \<open>The operations\<close>

definition type_strings :: "string list" where "type_strings = [''both'', ''ipv4'', ''ipv6'']"

text \<open>The address of one interface, \<open>None\<close> when it is passed over.\<close>

definition ifa_string ::
  "(family \<Rightarrow> bytes \<Rightarrow> bytes option) \<Rightarrow> bool \<Rightarrow> bool \<Rightarrow> bool \<Rightarrow> ifaddr \<Rightarrow> bytes option" where
  "ifa_string inet_ntop ipv4 ipv6 link_local a =
     (case ifa_addr a of
        None \<Rightarrow> None
      | Some sa \<Rightarrow>
          if ifa_flags a AND IFF_LOOPBACK \<noteq> 0 then None
          else case sa of
                 Sin addr \<Rightarrow>
                   if ipv4 then
                     if \<not> link_local \<and> is_ip4_linklocal addr then None else inet_ntop AF_INET addr
                   else None
               | Sin6 addr \<Rightarrow>
                   if ipv6 then
                     if \<not> link_local \<and> IN6_IS_ADDR_LINKLOCAL addr then None
                     else if IN6_IS_ADDR_V4MAPPED addr \<or> IN6_IS_ADDR_V4COMPAT addr then None
                     else inet_ntop AF_INET6 addr
                   else None
               | Sother f \<Rightarrow> None)"

text \<open>The loop over the list of interfaces; \<open>t\<close> is the table, its entries from 1 on.\<close>

fun ifaddrs_loop ::
  "(family \<Rightarrow> bytes \<Rightarrow> bytes option) \<Rightarrow> bool \<Rightarrow> bool \<Rightarrow> bool \<Rightarrow> ifaddr list \<Rightarrow> bytes list \<Rightarrow> bytes list" where
  "ifaddrs_loop inet_ntop ipv4 ipv6 link_local [] t = t"
| "ifaddrs_loop inet_ntop ipv4 ipv6 link_local (a # as) t =
     (case ifa_string inet_ntop ipv4 ipv6 link_local a of
        None \<Rightarrow> ifaddrs_loop inet_ntop ipv4 ipv6 link_local as t
      | Some s \<Rightarrow> ifaddrs_loop inet_ntop ipv4 ipv6 link_local as (t @ [c_str s]))"

text \<open>The result is the table of addresses, or the two values of a failure.\<close>

definition lc_local_addresses ::
  "(errno \<Rightarrow> bytes) \<Rightarrow> (family \<Rightarrow> bytes \<Rightarrow> bytes option) \<Rightarrow> errno + ifaddr list \<Rightarrow> lua_value list
    \<Rightarrow> (lua_value list + bytes list) outcome" where
  "lc_local_addresses message inet_ntop getifaddrs args =
     bind_outcome (luaL_checkoption args 1 (Some ''both'') type_strings) (\<lambda>ty.
       let link_local = lua_toboolean (lua_arg args 2);
           ipv4 = (ty = 0 \<or> ty = 1);
           ipv6 = (ty = 0 \<or> ty = 2) in
       case getifaddrs of
         Inl e \<Rightarrow> Inr (Inl [LNil, LStr (message e)])
       | Inr addrs \<Rightarrow> Inr (Inr (ifaddrs_loop inet_ntop ipv4 ipv6 link_local addrs [])))"

text \<open>On Windows the interfaces are not asked for.\<close>

definition lc_local_addresses_win32 :: "lua_value list \<Rightarrow> bytes list outcome" where
  "lc_local_addresses_win32 args =
     bind_outcome (luaL_checkoption args 1 (Some ''both'') type_strings) (\<lambda>ty.
       Inr ((if ty = 0 \<or> ty = 1 then [ascii ''0.0.0.0''] else []) @ (if ty = 0 \<or> ty = 2 then [ascii ''::''] else [])))"

text \<open>\<open>inet_pton\<close> gives its return value, the error number and the bytes it stored.\<close>

definition lc_pton ::
  "(lua_value \<Rightarrow> bytes) \<Rightarrow> (errno \<Rightarrow> bytes) \<Rightarrow> (family \<Rightarrow> bytes \<Rightarrow> int \<times> errno \<times> bytes) \<Rightarrow> lua_value list
    \<Rightarrow> lua_value list outcome" where
  "lc_pton num2str strerror inet_pton args =
     bind_outcome (luaL_checkstring num2str args 1) (\<lambda>ipaddr.
       let fam = (if strchr (c_str ipaddr) (of_char CHR '':'') \<noteq> None then AF_INET6 else AF_INET) in
       case inet_pton fam (c_str ipaddr) of
         (ret, e, buf) \<Rightarrow>
           if ret = 1 then Inr [LStr (take (if fam = AF_INET6 then 16 else 4) buf)]
           else if ret = - 1 then Inr (fail_errno strerror e)
           else Inr (fail_errno strerror 22))"

definition EAFNOSUPPORT :: errno where "EAFNOSUPPORT = 97"

definition lc_ntop ::
  "(lua_value \<Rightarrow> bytes) \<Rightarrow> (errno \<Rightarrow> bytes) \<Rightarrow> (family \<Rightarrow> bytes \<Rightarrow> errno + bytes) \<Rightarrow> lua_value list
    \<Rightarrow> lua_value list outcome" where
  "lc_ntop num2str strerror inet_ntop args =
     bind_outcome (luaL_checkstring num2str args 1) (\<lambda>ipaddr.
       if length ipaddr \<noteq> 16 \<and> length ipaddr \<noteq> 4 then Inr (fail_errno strerror EAFNOSUPPORT)
       else case inet_ntop (if length ipaddr = 16 then AF_INET6 else AF_INET) ipaddr of
              Inl e \<Rightarrow> Inr (fail_errno strerror e)
            | Inr s \<Rightarrow> Inr [LStr (c_str s)])"

section \<open>Prefixes\<close>

text \<open>The number of an address, and membership in a prefix of \<open>len\<close> bits, as a specification.\<close>

definition addr_value :: "bytes \<Rightarrow> nat" where
  "addr_value a = foldl (\<lambda>n c. n * 256 + unat c) 0 a"

definition in_prefix :: "bytes \<Rightarrow> nat \<Rightarrow> nat \<Rightarrow> bool" where
  "in_prefix a p len \<longleftrightarrow> addr_value a div 2 ^ (8 * length a - len) = p"

lemma bit_byte_less: "bit (c :: byte) n \<Longrightarrow> n < 8"
  using bit_imp_le_length[of c n] by simp

lemma unat_net32: "unat (net32 a i) =
    unat (a ! i) * 2 ^ 24 + unat (a ! (i + 1)) * 2 ^ 16 + unat (a ! (i + 2)) * 2 ^ 8 + unat (a ! (i + 3))"
proof -
  have sh: "unat (push_bit k (ucast (c :: byte)) :: 32 word) = unat c * 2 ^ k" if "k \<le> 24" for k c
  proof -
    have "unat c * 2 ^ k < 2 ^ 8 * 2 ^ 24"
      using unat_byte[of c] power_increasing[OF that, of "2 :: nat"] by (intro mult_less_le_imp_less) auto
    then show ?thesis
      by (simp only: unsigned_push_bit_eq) (simp add: push_bit_eq_mult take_bit_eq_mod mod_less)
  qed
  have dis: "w OR v = w + v" if "w AND v = 0" for w v :: "32 word"
    using that by (simp add: disjunctive_add_eq_or)
  define b0 b1 b2 b3 :: "32 word" where "b0 = ucast (a ! i)" "b1 = ucast (a ! (i + 1))"
    "b2 = ucast (a ! (i + 2))" "b3 = ucast (a ! (i + 3))"
  have z: "push_bit 24 b0 AND push_bit 16 b1 = 0" "(push_bit 24 b0 OR push_bit 16 b1) AND push_bit 8 b2 = 0"
    "((push_bit 24 b0 OR push_bit 16 b1) OR push_bit 8 b2) AND b3 = 0"
    using bit_byte_less by (fastforce intro!: bit_eqI simp: bit_simps b0_b1_b2_b3_def)+
  have "net32 a i = ((push_bit 24 b0 OR push_bit 16 b1) OR push_bit 8 b2) OR b3"
    by (simp add: net32_def b0_b1_b2_b3_def or.assoc)
  also have "\<dots> = push_bit 24 b0 + push_bit 16 b1 + push_bit 8 b2 + b3"
    by (subst dis[OF z(3)], subst dis[OF z(2)], subst dis[OF z(1)]) (rule refl)
  finally show ?thesis
    using sh[of 24 "a ! i"] sh[of 16 "a ! (i + 1)"] sh[of 8 "a ! (i + 2)"] unat_byte[of "a ! i"] unat_byte[of "a ! (i + 1)"]
      unat_byte[of "a ! (i + 2)"] unat_byte[of "a ! (i + 3)"]
    by (simp add: unat_word_ariths b0_b1_b2_b3_def)
qed

lemma unat_32_less: "unat (w :: 32 word) < 2 ^ 32"
proof -
  have "unat w < 2 ^ LENGTH(32)" by (rule unsigned_less)
  then show ?thesis by simp
qed

lemma word_prefix:
  fixes w :: "32 word"
  assumes "k < 32" and "c < 2 ^ (32 - k)"
  shows "w AND NOT (mask k) = of_nat (c * 2 ^ k) \<longleftrightarrow> unat w div 2 ^ k = c"
proof -
  have lt: "c * 2 ^ k < 2 ^ 32"
  proof -
    have "c * 2 ^ k < 2 ^ (32 - k) * 2 ^ k" using assms(2) by simp
    also have "\<dots> = (2 :: nat) ^ 32" using assms(1) by (simp flip: power_add)
    finally show ?thesis .
  qed
  have "w AND NOT (mask k) = push_bit k (drop_bit k w)"
    by (rule bit_eqI) (auto simp: bit_simps)
  moreover have "unat (push_bit k (drop_bit k w)) = unat w div 2 ^ k * 2 ^ k"
  proof -
    have w: "unat w < 2 ^ 32" by (rule unat_32_less)
    have "unat w div 2 ^ k * 2 ^ k \<le> unat w" by simp
    also note w
    finally show ?thesis
      using w by (simp only: unsigned_push_bit_eq unsigned_drop_bit_eq)
        (simp add: push_bit_eq_mult drop_bit_eq_div take_bit_eq_mod mod_less unsigned_take_bit_eq)
  qed
  moreover have "unat (of_nat (c * 2 ^ k) :: 32 word) = c * 2 ^ k"
    using lt by (simp add: unsigned_of_nat take_bit_eq_mod mod_less del: of_nat_mult)
  ultimately show ?thesis by (simp only: word_unat_eq_iff[of "w AND NOT (mask k)"]) simp
qed

lemma length_16E:
  assumes "length a = 16"
  obtains b0 b1 b2 b3 b4 b5 b6 b7 b8 b9 b10 b11 b12 b13 b14 b15
  where "a = [b0, b1, b2, b3, b4, b5, b6, b7, b8, b9, b10, b11, b12, b13, b14, b15]"
  using assms by (auto simp: numeral_eq_Suc length_Suc_conv)

lemma addr_value_16:
  assumes "length a = 16"
  shows "addr_value a = ((unat (net32 a 0) * 2 ^ 32 + unat (net32 a 4)) * 2 ^ 32 + unat (net32 a 8)) * 2 ^ 32 + unat (net32 a 12)"
  using assms by (elim length_16E) (simp add: addr_value_def unat_net32)

lemma addr_value_4: "length a = 4 \<Longrightarrow> addr_value a = unat (net32 a 0)"
  by (auto simp: numeral_eq_Suc length_Suc_conv) (simp add: addr_value_def unat_net32)

lemma mask_constants: "(- 65536 :: 32 word) = 4294901760" "(- 4194304 :: 32 word) = 4290772992"
  by simp_all

lemma ip4_linklocal_prefix: "length a = 4 \<Longrightarrow> is_ip4_linklocal a \<longleftrightarrow> in_prefix a 0xa9fe 16"
  using word_prefix[of 16 "0xa9fe" "net32 a 0"]
  by (simp add: is_ip4_linklocal_def ip4_mask_def ip4_linklocal_def in_prefix_def addr_value_4 mask_eq_exp_minus_1 mask_constants)

lemma top_part: "n < 2 ^ 96 \<Longrightarrow> (x * 2 ^ 96 + n) div 2 ^ (96 + k) = x div 2 ^ k" for x n :: nat
  by (simp add: power_add div_mult2_eq)

lemma div_mod_low: "n < 2 ^ 32 \<Longrightarrow> (x * 2 ^ 32 + n) div 2 ^ 32 = x \<and> (x * 2 ^ 32 + n) mod 2 ^ 32 = n" for x n :: nat
  by simp

lemma quad_parts:
  fixes a :: bytes
  assumes "length a = 16"
  shows "\<exists>n < 2 ^ 96. addr_value a = unat (net32 a 0) * 2 ^ 96 + n"
    and "addr_value a div 2 ^ 32 = (unat (net32 a 0) * 2 ^ 32 + unat (net32 a 4)) * 2 ^ 32 + unat (net32 a 8)"
    and "addr_value a mod 2 ^ 32 = unat (net32 a 12)"
proof -
  have lt: "unat (net32 a i) < 2 ^ 32" for i by (rule unat_32_less)
  let ?n = "(unat (net32 a 4) * 2 ^ 32 + unat (net32 a 8)) * 2 ^ 32 + unat (net32 a 12)"
  have "?n < 2 ^ 96" using lt[of 4] lt[of 8] lt[of 12] by simp
  then show "\<exists>n < 2 ^ 96. addr_value a = unat (net32 a 0) * 2 ^ 96 + n"
    by (intro exI[of _ ?n]) (simp add: addr_value_16[OF assms])
  show "addr_value a div 2 ^ 32 = (unat (net32 a 0) * 2 ^ 32 + unat (net32 a 4)) * 2 ^ 32 + unat (net32 a 8)"
    "addr_value a mod 2 ^ 32 = unat (net32 a 12)"
    unfolding addr_value_16[OF assms] using div_mod_low[OF lt[of 12]] by blast+
qed

lemma ip6_linklocal_prefix:
  assumes "length a = 16"
  shows "IN6_IS_ADDR_LINKLOCAL a \<longleftrightarrow> in_prefix a 0x3fa 10"
proof -
  obtain n where n: "n < 2 ^ 96" "addr_value a = unat (net32 a 0) * 2 ^ 96 + n" using quad_parts(1)[OF assms] by blast
  then have "addr_value a div 2 ^ 118 = unat (net32 a 0) div 2 ^ 22" using top_part[of n "unat (net32 a 0)" 22] by simp
  then show ?thesis
    using word_prefix[of 22 "0x3fa" "net32 a 0"] assms
    by (simp add: IN6_IS_ADDR_LINKLOCAL_def in_prefix_def mask_eq_exp_minus_1 mask_constants)
qed

lemma three_words:
  fixes c :: "32 word"
  assumes "length a = 16"
  shows "in_prefix a (unat c) 96 \<longleftrightarrow> net32 a 0 = 0 \<and> net32 a 4 = 0 \<and> net32 a 8 = c"
proof -
  have lt: "unat c < 2 ^ 32" by (rule unat_32_less)
  have "in_prefix a (unat c) 96 \<longleftrightarrow>
      (unat (net32 a 0) * 2 ^ 32 + unat (net32 a 4)) * 2 ^ 32 + unat (net32 a 8) = unat c"
    using quad_parts(2)[OF assms] assms by (simp add: in_prefix_def)
  also have "\<dots> \<longleftrightarrow> unat (net32 a 0) = 0 \<and> unat (net32 a 4) = 0 \<and> unat (net32 a 8) = unat c"
    using lt by (cases "unat (net32 a 0) = 0"; cases "unat (net32 a 4) = 0") auto
  also have "\<dots> \<longleftrightarrow> net32 a 0 = 0 \<and> net32 a 4 = 0 \<and> net32 a 8 = c"
    by (simp add: unat_eq_0 flip: word_unat_eq_iff)
  finally show ?thesis .
qed

lemma ip6_v4_prefixes:
  assumes "length a = 16"
  shows "IN6_IS_ADDR_V4MAPPED a \<longleftrightarrow> in_prefix a 0xffff 96"
    and "IN6_IS_ADDR_V4COMPAT a \<longleftrightarrow> in_prefix a 0 96 \<and> addr_value a > 1"
proof -
  show "IN6_IS_ADDR_V4MAPPED a \<longleftrightarrow> in_prefix a 0xffff 96"
    using three_words[OF assms, of "0xffff"] by (simp add: IN6_IS_ADDR_V4MAPPED_def)
  have "addr_value a = unat (net32 a 12)" if "in_prefix a 0 96"
    using that quad_parts(3)[OF assms] assms div_mult_mod_eq[of "addr_value a" "2 ^ 32"] by (simp add: in_prefix_def)
  then show "IN6_IS_ADDR_V4COMPAT a \<longleftrightarrow> in_prefix a 0 96 \<and> addr_value a > 1"
    using three_words[OF assms, of 0] by (auto simp: IN6_IS_ADDR_V4COMPAT_def word_less_nat_alt)
qed

text \<open>
  Which addresses are wanted: not those of loopback interfaces, only the families asked for, no
  link-local ones (169.254.0.0/16 and fe80::/10) unless asked for, and no IPv4 addresses in
  IPv6 form (::ffff:0:0/96, and ::/96 apart from the two addresses :: and ::1).
\<close>

definition wanted :: "nat \<Rightarrow> bool \<Rightarrow> ifaddr \<Rightarrow> (family \<times> bytes) option" where
  "wanted ty link_local a =
     (if ifa_flags a AND IFF_LOOPBACK \<noteq> 0 then None
      else case ifa_addr a of
             Some (Sin addr) \<Rightarrow>
               if ty \<in> {0, 1} \<and> (link_local \<or> \<not> in_prefix addr 0xa9fe 16) then Some (AF_INET, addr) else None
           | Some (Sin6 addr) \<Rightarrow>
               if ty \<in> {0, 2} \<and> (link_local \<or> \<not> in_prefix addr 0x3fa 10) \<and> \<not> in_prefix addr 0xffff 96 \<and>
                  \<not> (in_prefix addr 0 96 \<and> addr_value addr > 1)
               then Some (AF_INET6, addr) else None
           | _ \<Rightarrow> None)"

definition wf_ifaddr :: "ifaddr \<Rightarrow> bool" where
  "wf_ifaddr a \<longleftrightarrow>
     (case ifa_addr a of
        Some (Sin addr) \<Rightarrow> length addr = 4 | Some (Sin6 addr) \<Rightarrow> length addr = 16 | _ \<Rightarrow> True)"

lemma ifa_string_wanted:
  assumes "wf_ifaddr a"
  shows "ifa_string inet_ntop (ty = 0 \<or> ty = 1) (ty = 0 \<or> ty = 2) link_local a =
    Option.bind (wanted ty link_local a) (\<lambda>(f, addr). inet_ntop f addr)"
  using assms
  by (auto simp: ifa_string_def wanted_def wf_ifaddr_def ip4_linklocal_prefix ip6_linklocal_prefix ip6_v4_prefixes
      split: option.splits sockaddr.splits)

lemma ifaddrs_loop_filter:
  "ifaddrs_loop inet_ntop v4 v6 ll as t = t @ map c_str (List.map_filter (ifa_string inet_ntop v4 v6 ll) as)"
  by (induction as arbitrary: t) (simp_all add: List.map_filter_simps split: option.splits)

text \<open>
  C12: \<^verbatim>\<open>local_addresses\<close> returns the text of exactly the wanted addresses, in the order of the
  interfaces: the comparisons with masks in network order select the prefixes 169.254.0.0/16,
  fe80::/10, ::ffff:0:0/96 and ::/96.
\<close>

theorem local_addresses_selects_prefixes:
  assumes "list_all wf_ifaddr addrs" and "ty < length type_strings"
  shows "lc_local_addresses message inet_ntop (Inr addrs) [LStr (ascii (type_strings ! ty)), LBool link_local] =
    Inr (Inr (map c_str (List.map_filter (\<lambda>a. Option.bind (wanted ty link_local a) (\<lambda>(f, addr). inet_ntop f addr)) addrs)))"
proof -
  have ty: "ty = 0 \<or> ty = 1 \<or> ty = 2" using assms(2) by (auto simp: type_strings_def)
  have opt: "luaL_checkoption [LStr (ascii (type_strings ! ty)), LBool link_local] 1 (Some ''both'') type_strings = Inr ty"
    using assms(2) ty by (intro checkoption_nth) (auto simp: type_strings_def ascii_def c_str_def)
  have "List.map_filter (ifa_string inet_ntop (ty = 0 \<or> ty = 1) (ty = 0 \<or> ty = 2) link_local) addrs =
      List.map_filter (\<lambda>a. Option.bind (wanted ty link_local a) (\<lambda>(f, addr). inet_ntop f addr)) addrs"
    using assms(1) by (induction addrs) (simp_all add: List.map_filter_simps ifa_string_wanted del: One_nat_def split: option.split)
  then show ?thesis
    using opt by (simp add: lc_local_addresses_def ifaddrs_loop_filter Let_def del: One_nat_def)
qed

theorem local_addresses_selects_prefixes_witness:
  "lc_local_addresses (\<lambda>_. []) (\<lambda>f a. Some a)
     (Inr [\<lparr>ifa_flags = 0, ifa_addr = Some (Sin [169, 254, 1, 1])\<rparr>, \<lparr>ifa_flags = 0, ifa_addr = Some (Sin [10, 1, 1, 1])\<rparr>])
     [LStr (ascii ''both''), LBool False] = Inr (Inr [[10, 1, 1, 1]])"
proof -
  let ?as = "[\<lparr>ifa_flags = 0, ifa_addr = Some (Sin [169, 254, 1, 1])\<rparr>, \<lparr>ifa_flags = 0, ifa_addr = Some (Sin [10, 1, 1, 1])\<rparr>]"
  have "list_all wf_ifaddr ?as" "0 < length type_strings" by (simp_all add: wf_ifaddr_def type_strings_def)
  from local_addresses_selects_prefixes[OF this, of "\<lambda>_. []" "\<lambda>f a. Some a" False] show ?thesis
    by (simp add: type_strings_def wanted_def in_prefix_def addr_value_def List.map_filter_simps c_str_def)
qed

text \<open>\<^verbatim>\<open>pton\<close> undoes \<^verbatim>\<open>ntop\<close> where the C functions do and only IPv6 texts have colons.\<close>

lemma pton_ntop:
  assumes "length a = 4 \<or> length a = 16"
    and "inet_ntop (if length a = 16 then AF_INET6 else AF_INET) a = Inr s" and "0 \<notin> set s"
    and "of_char CHR '':'' \<in> set s \<longleftrightarrow> length a = 16"
    and "inet_pton (if length a = 16 then AF_INET6 else AF_INET) s = (1, e, a @ rest)"
  shows "lc_ntop n2s strerror inet_ntop [LStr a] = Inr [LStr s] \<and> lc_pton n2s strerror inet_pton [LStr s] = Inr [LStr a]"
proof -
  have "c_str s = s" using assms(3) by (induction s) (auto simp: c_str_def)
  then show ?thesis
    using assms by (auto simp: lc_ntop_def lc_pton_def luaL_checkstring_def strchr_eq_None)
qed

end
