(* ===== verification/Crand.thy ===== *)
theory Crand
  imports Lua_Args
begin

text \<open>
  \<^verbatim>\<open>util-src/crand.c\<close>: random bytes, from one of three sources that the build chooses:
  getrandom(2), arc4random or OpenSSL. The source is a parameter with an arbitrary state. The
  loop around getrandom may in principle not end, so it is a partial function; \<open>None\<close> is a loop
  that does not end.
\<close>

section \<open>The loop around getrandom\<close>

text \<open>
  \<open>src\<close> gets the number of bytes asked for and gives an error number or the bytes it stored.
  \<open>buf\<close> are the bytes stored so far in the buffer of \<open>len\<close> bytes. \<^verbatim>\<open>left\<close> is an \<^verbatim>\<open>int\<close>, which
  becomes a \<^verbatim>\<open>size_t\<close> in the call. Writing behind the buffer and an overflow of \<^verbatim>\<open>left\<close> are undefined.
\<close>

partial_function (option) random_loop ::
  "(nat \<Rightarrow> 'k \<Rightarrow> 'k \<times> (errno + bytes)) \<Rightarrow> nat \<Rightarrow> 'k \<Rightarrow> int \<Rightarrow> bytes \<Rightarrow> ('k \<times> bytes outcome) option" where
  "random_loop src len k left buf =
     (case src (to_usize left) k of
        (k', Inl e) \<Rightarrow> Some (k', Inl (LuaError ''getrandom failed''))
      | (k', Inr bs) \<Rightarrow>
          if length buf + length bs > len then Some (k', Inl (Undefined ''write behind the buffer''))
          else if left - to_int (int (length bs)) < - (2 ^ 31) then Some (k', Inl (Undefined ''signed overflow''))
          else if left - to_int (int (length bs)) > 0
          then random_loop src len k' (left - to_int (int (length bs))) (buf @ bs)
          else Some (k', Inr (buf @ bs)))"

text \<open>Returning bytes of the buffer that were never stored is undefined.\<close>

definition push_random :: "nat \<Rightarrow> bytes outcome \<Rightarrow> lua_value list outcome" where
  "push_random len r =
     bind_outcome r (\<lambda>buf. if length buf < len then Inl (Undefined ''uninitialised bytes'') else Inr [LStr (take len buf)])"

definition Lrandom ::
  "(bytes \<Rightarrow> int option) \<Rightarrow> (nat \<Rightarrow> 'k \<Rightarrow> 'k \<times> (errno + bytes)) \<Rightarrow> lua_value list \<Rightarrow> 'k
    \<Rightarrow> ('k \<times> lua_value list outcome) option" where
  "Lrandom str2int src args k =
     (case luaL_checkinteger str2int args 1 of
        Inl e \<Rightarrow> Some (k, Inl e)
      | Inr l \<Rightarrow>
          if \<not> l \<ge> 0 then Some (k, Inl (ArgError 1 ''must be > 0''))
          else if l = 0 then Some (k, Inr [LStr []])
          else map_option (\<lambda>(k', r). (k', push_random (nat l) r)) (random_loop src (nat l) k (to_int l) []))"

section \<open>The other sources\<close>

definition Lrandom_arc4random ::
  "(bytes \<Rightarrow> int option) \<Rightarrow> (nat \<Rightarrow> 'k \<Rightarrow> 'k \<times> bytes) \<Rightarrow> lua_value list \<Rightarrow> 'k \<Rightarrow> 'k \<times> lua_value list outcome" where
  "Lrandom_arc4random str2int arc4random_buf args k =
     (case luaL_checkinteger str2int args 1 of
        Inl e \<Rightarrow> (k, Inl e)
      | Inr l \<Rightarrow>
          if \<not> l \<ge> 0 then (k, Inl (ArgError 1 ''must be > 0''))
          else if l = 0 then (k, Inr [LStr []])
          else case arc4random_buf (nat l) k of (k', bs) \<Rightarrow> (k', push_random (nat l) (Inr bs)))"

text \<open>OpenSSL gets the length as an \<^verbatim>\<open>int\<close>; \<open>None\<close> is a result other than 1.\<close>

definition Lrandom_openssl ::
  "(bytes \<Rightarrow> int option) \<Rightarrow> bool \<Rightarrow> (int \<Rightarrow> 'k \<Rightarrow> 'k \<times> bytes option) \<Rightarrow> lua_value list \<Rightarrow> 'k \<Rightarrow> 'k \<times> lua_value list outcome" where
  "Lrandom_openssl str2int rand_status rand_bytes args k =
     (case luaL_checkinteger str2int args 1 of
        Inl e \<Rightarrow> (k, Inl e)
      | Inr l \<Rightarrow>
          if \<not> l \<ge> 0 then (k, Inl (ArgError 1 ''must be > 0''))
          else if l = 0 then (k, Inr [LStr []])
          else if \<not> rand_status then (k, Inl (LuaError ''OpenSSL PRNG not seeded''))
          else case rand_bytes (to_int l) k of
                 (k', None) \<Rightarrow> (k', Inl (LuaError ''RAND_bytes() failed''))
               | (k', Some bs) \<Rightarrow> (k', push_random (nat l) (Inr bs)))"

section \<open>What getrandom delivers\<close>

text \<open>
  A source that works: asked for at least one byte it stores between one and that many, though
  never more than 33554431, which is the limit of Linux; the bytes are the next ones of a stream.
\<close>

definition getrandom_ok :: "(nat \<Rightarrow> nat \<Rightarrow> nat \<times> (errno + bytes)) \<Rightarrow> (nat \<Rightarrow> byte) \<Rightarrow> bool" where
  "getrandom_ok src stream \<longleftrightarrow>
     (\<forall>n k. \<exists>c. c \<le> n \<and> c \<le> 33554431 \<and> (0 < n \<longrightarrow> 0 < c) \<and> src n k = (k + c, Inr (map stream [k..<k + c])))"

lemma random_loop_fills:
  assumes "getrandom_ok src stream"
  shows "0 < left \<Longrightarrow> left < 2 ^ 31 \<Longrightarrow> length buf + nat left = len \<Longrightarrow>
    random_loop src len k left buf = Some (k + nat left, Inr (buf @ map stream [k..<k + nat left]))"
proof (induction "nat left" arbitrary: left k buf rule: less_induct)
  case less
  have sz: "to_usize left = nat left" using less.prems by (simp add: to_usize_nonneg)
  from assms obtain c where c: "c \<le> nat left" "0 < c" "c \<le> 33554431"
    and src: "src (nat left) k = (k + c, Inr (map stream [k..<k + c]))"
    using less.prems(1) unfolding getrandom_ok_def by (metis zero_less_nat_eq)
  have ci: "to_int (int c) = int c" using c(3) by (simp add: to_int_range)
  have step: "random_loop src len k left buf =
      (if left - int c > 0 then random_loop src len (k + c) (left - int c) (buf @ map stream [k..<k + c])
       else Some (k + c, Inr (buf @ map stream [k..<k + c])))"
    using less.prems c by (subst random_loop.simps) (simp add: sz src ci)
  show ?case
  proof (cases "left - int c > 0")
    case True
    have sum: "k + c + nat (left - int c) = k + nat left" using c(1) by linarith
    have split: "[k..<k + nat left] = [k..<k + c] @ [k + c..<k + c + nat (left - int c)]"
      using upt_add_eq_append[of k "k + c" "nat (left - int c)"] unfolding sum by simp
    have "random_loop src len (k + c) (left - int c) (buf @ map stream [k..<k + c]) =
        Some (k + c + nat (left - int c), Inr ((buf @ map stream [k..<k + c]) @ map stream [k + c..<k + c + nat (left - int c)]))"
      using less.prems c True by (intro less.hyps) (auto simp: nat_diff_distrib)
    then show ?thesis using step True split unfolding sum by simp
  next
    case False
    then have "c = nat left" using c(1) by linarith
    then show ?thesis using step False by simp
  qed
qed

text \<open>
  C13: Asked for a positive number of bytes below 2147483648, \<^verbatim>\<open>bytes\<close> comes to an end and returns
  that many bytes, the next ones of the source in their order, however few the source delivers
  in one call.
\<close>

theorem random_returns_bytes:
  assumes "getrandom_ok src stream" and "0 < l" and "l < 2 ^ 31"
  shows "Lrandom str2int src [LInt l] k = Some (k + nat l, Inr [LStr (map stream [k..<k + nat l])])"
proof -
  have "to_int l = l" using assms(2,3) by (simp add: to_int_range)
  then show ?thesis
    using random_loop_fills[OF assms, of "[]" "nat l" k] assms(2)
    by (simp add: Lrandom_def luaL_checkinteger_def push_random_def)
qed

text \<open>
  Asked for 2147483648 bytes or more, up to 4294967296, \<^verbatim>\<open>bytes\<close> calls the source only once,
  because the number kept in an \<^verbatim>\<open>int\<close> is not positive, and returns a string of which only the first
  bytes were stored; the rest is memory that was never written.
\<close>

theorem random_large_uninitialised:
  assumes "getrandom_ok src stream" and "2 ^ 31 \<le> l" and "l \<le> 2 ^ 32"
  shows "\<exists>c m. c \<le> 33554431 \<and> Lrandom str2int src [LInt l] k = Some (k + c, Inl (Undefined m))"
proof -
  have left: "to_int l = l - 2 ^ 32"
  proof -
    have "(l + 2 ^ 31) mod 2 ^ 32 = (l - 2 ^ 31 + 2 ^ 32) mod 2 ^ 32" by (simp add: algebra_simps)
    also have "\<dots> = (l - 2 ^ 31) mod 2 ^ 32" by (rule mod_add_self2)
    also have "\<dots> = l - 2 ^ 31" using assms(2,3) by (intro mod_pos_pos_trivial) auto
    finally show ?thesis by (simp add: to_int_def)
  qed
  from assms(1) obtain c where c: "c \<le> 33554431" and src: "src (to_usize (l - 2 ^ 32)) k = (k + c, Inr (map stream [k..<k + c]))"
    unfolding getrandom_ok_def by blast
  have "to_int (int c) = int c" using c by (simp add: to_int_range)
  then have "random_loop src (nat l) k (to_int l) [] = Some (k + c, Inl (Undefined ''signed overflow'')) \<or>
      random_loop src (nat l) k (to_int l) [] = Some (k + c, Inr (map stream [k..<k + c]))"
    using left c assms(2,3) src by (subst (1 2) random_loop.simps) auto
  then show ?thesis
    using c assms(2) by (intro exI[of _ c]) (auto simp: Lrandom_def luaL_checkinteger_def push_random_def)
qed

text \<open>A source that delivers at most seven bytes at a time.\<close>

definition slow_source :: "nat \<Rightarrow> nat \<Rightarrow> nat \<times> (errno + bytes)" where
  "slow_source n k = (k + min 7 n, Inr (map of_nat [k..<k + min 7 n]))"

lemma slow_source_ok: "getrandom_ok slow_source of_nat"
  by (auto simp: getrandom_ok_def slow_source_def intro!: exI[of _ "min 7 _"])

theorem random_returns_bytes_witness:
  "Lrandom (\<lambda>_. None) slow_source [LInt 100] 0 = Some (100, Inr [LStr (map of_nat [0..<100])])"
  using random_returns_bytes[OF slow_source_ok, of 100 "\<lambda>_. None" 0] by simp

theorem random_large_uninitialised_witness:
  "\<exists>c m. Lrandom (\<lambda>_. None) slow_source [LInt (2 ^ 31 + 9)] 0 = Some (c, Inl (Undefined m))"
proof -
  obtain c m where "Lrandom (\<lambda>_. None) slow_source [LInt (2 ^ 31 + 9)] 0 = Some (0 + c, Inl (Undefined m))"
    using random_large_uninitialised[OF slow_source_ok, of "2 ^ 31 + 9" "\<lambda>_. None" 0] by auto
  then show ?thesis by blast
qed

end
