(* ===== verification/Compat.thy ===== *)
theory Compat
  imports Prelude
begin

text \<open>
  \<^verbatim>\<open>util-src/compat.c\<close>: \<^verbatim>\<open>xpcall\<close> with arguments, on an explicit Lua stack. The protected call
  is a parameter: it gets the function, the message handler and the arguments and gives the
  results, or \<open>Inl\<close> of the value that the handler made of an error.
\<close>

definition lua_pushvalue :: "nat \<Rightarrow> lua_value list \<Rightarrow> lua_value list" where
  "lua_pushvalue i st = st @ [st ! (i - 1)]"

definition lua_replace :: "nat \<Rightarrow> lua_value list \<Rightarrow> lua_value list" where
  "lua_replace i st = (butlast st)[i - 1 := last st]"

text \<open>
  \<^verbatim>\<open>lua_pcall(L, nargs, LUA_MULTRET, 1)\<close> takes the arguments and the function from the stack and
  pushes the results or the error value; it also returns whether it succeeded.
\<close>

definition lua_pcall ::
  "(lua_value \<Rightarrow> lua_value \<Rightarrow> lua_value list \<Rightarrow> lua_value + lua_value list) \<Rightarrow> nat \<Rightarrow> lua_value list
    \<Rightarrow> bool \<times> lua_value list" where
  "lua_pcall pcall nargs st =
     (let base = length st - nargs - 1 in
      case pcall (st ! base) (st ! 0) (drop (base + 1) st) of
        Inl v \<Rightarrow> (False, take base st @ [v])
      | Inr rs \<Rightarrow> (True, take base st @ rs))"

definition lc_xpcall ::
  "(lua_value \<Rightarrow> lua_value \<Rightarrow> lua_value list \<Rightarrow> lua_value + lua_value list) \<Rightarrow> lua_value list
    \<Rightarrow> lua_value list outcome" where
  "lc_xpcall pcall args =
     (let n_arg = length args in
      if \<not> n_arg \<ge> 2 then Inl (ArgError 2 ''value expected'')
      else
        let st = lua_replace 2 (lua_replace 1 (lua_pushvalue 2 (lua_pushvalue 1 args))) in
        case lua_pcall pcall (n_arg - 2) st of
          (ok, st') \<Rightarrow> Inr (lua_replace 1 (st' @ [LBool ok])))"

lemma swap_two: "lua_replace 2 (lua_replace 1 (lua_pushvalue 2 (lua_pushvalue 1 (f # h # as)))) = h # f # as"
  by (simp add: lua_pushvalue_def lua_replace_def butlast_append)

text \<open>
  \<^verbatim>\<open>xpcall(f, msgh, ...)\<close> calls \<open>f\<close> with the remaining arguments and \<open>msgh\<close> as the handler, and
  returns true and the results, or false and what the handler returned.
\<close>

lemma xpcall_correct:
  "lc_xpcall pcall (f # h # as) =
     Inr (case pcall f h as of Inl v \<Rightarrow> [LBool False, v] | Inr rs \<Rightarrow> LBool True # rs)"
  unfolding lc_xpcall_def Let_def swap_two
  by (auto simp: lua_pcall_def lua_replace_def butlast_append split: sum.splits)

end
