(* ===== verification/Clock.thy ===== *)
theory Clock
  imports Prelude
begin

text \<open>
  \<^verbatim>\<open>util-src/time.c\<close>: the clocks as floating point numbers. Rounding to a \<^verbatim>\<open>double\<close> is a
  parameter, as is the \<^verbatim>\<open>double\<close> that stands for 1e-9.
\<close>

record timespec =
  tv_sec :: int
  tv_nsec :: int

definition tv2number :: "(rat \<Rightarrow> rat) \<Rightarrow> rat \<Rightarrow> timespec \<Rightarrow> rat" where
  "tv2number rnd nano tv = rnd (rnd (of_int (tv_sec tv)) + rnd (rnd (of_int (tv_nsec tv)) * nano))"

definition lc_time_realtime :: "(rat \<Rightarrow> rat) \<Rightarrow> rat \<Rightarrow> timespec \<Rightarrow> lua_value list" where
  "lc_time_realtime rnd nano t = [LNum (tv2number rnd nano t)]"

definition lc_time_monotonic :: "(rat \<Rightarrow> rat) \<Rightarrow> rat \<Rightarrow> timespec \<Rightarrow> lua_value list" where
  "lc_time_monotonic rnd nano t = [LNum (tv2number rnd nano t)]"

definition earlier :: "timespec \<Rightarrow> timespec \<Rightarrow> bool" where
  "earlier a b \<longleftrightarrow> tv_sec a < tv_sec b \<or> tv_sec a = tv_sec b \<and> tv_nsec a \<le> tv_nsec b"

definition wf_timespec :: "timespec \<Rightarrow> bool" where
  "wf_timespec t \<longleftrightarrow> 0 \<le> tv_sec t \<and> tv_sec t < 2 ^ 53 \<and> 0 \<le> tv_nsec t \<and> tv_nsec t < 10 ^ 9"

text \<open>
  The conversion keeps the order of readings, so a clock that does not go back does not go back
  in Lua either, for every rounding that keeps order and is exact on integers below 2^53.
\<close>

lemma tv2number_mono:
  assumes mono: "mono rnd" and exact: "\<And>i. 0 \<le> i \<Longrightarrow> i < 2 ^ 53 \<Longrightarrow> rnd (of_int i) = of_int i"
    and nano: "0 \<le> nano" "(10 ^ 9 - 1) * nano \<le> 1"
    and "wf_timespec a" "wf_timespec b" "earlier a b"
  shows "tv2number rnd nano a \<le> tv2number rnd nano b"
proof -
  let ?f = "\<lambda>t. rnd (rnd (of_int (tv_nsec t)) * nano)"
  have r01: "rnd 0 = 0" "rnd 1 = 1" using exact[of 0] exact[of 1] by simp_all
  have ns: "rnd (of_int (tv_nsec t)) = of_int (tv_nsec t)" "rnd (of_int (tv_sec t)) = of_int (tv_sec t)"
    if "wf_timespec t" for t using that by (auto simp: wf_timespec_def intro!: exact)
  have low: "0 \<le> ?f t" if "wf_timespec t" for t
    using that nano(1) ns[OF that] monoD[OF mono, of 0] by (simp add: r01 wf_timespec_def)
  have "rat_of_int (tv_nsec a) \<le> 10 ^ 9 - 1"
    using assms(5) by (simp add: wf_timespec_def)
  then have "of_int (tv_nsec a) * nano \<le> 1"
    using mult_right_mono[OF _ nano(1)] nano(2) order_trans by blast
  then have high: "?f a \<le> 1" using monoD[OF mono, of _ 1] ns[OF assms(5)] by (simp add: r01)
  have "rnd (of_int (tv_sec a)) + ?f a \<le> rnd (of_int (tv_sec b)) + ?f b"
  proof (cases "tv_sec a < tv_sec b")
    case True
    then have "rat_of_int (tv_sec a) + 1 \<le> of_int (tv_sec b)" by (metis add1_zle_eq of_int_1 of_int_add of_int_le_iff)
    then show ?thesis using high low[OF assms(6)] ns[OF assms(5)] ns[OF assms(6)] by simp
  next
    case False
    then have "tv_sec a = tv_sec b" "tv_nsec a \<le> tv_nsec b" using assms(7) by (auto simp: earlier_def)
    then have "?f a \<le> ?f b"
      using ns[OF assms(5)] ns[OF assms(6)] nano(1) by (intro monoD[OF mono]) (simp add: mult_right_mono)
    then show ?thesis using \<open>tv_sec a = tv_sec b\<close> by simp
  qed
  then show ?thesis unfolding tv2number_def by (rule monoD[OF mono])
qed

end
