(* ===== verification/Lua_Modules.thy ===== *)
theory Lua_Modules
  imports Lua_Table Hashes Signals Poll_Common
begin

text \<open>
  Loading the modules: the functions \<^verbatim>\<open>luaopen_prosody_util_*\<close> of all files of \<^verbatim>\<open>util-src\<close>, which
  build the tables that Lua programs see, and the part of the Lua registry that they use. The
  result is the table of the module.
\<close>

section \<open>Tables, functions and the registry\<close>

text \<open>
  The values of Lua that loading touches: the tables, and the tables that the registry holds under
  a name. \<open>addr\<close> gives the Lua value of a C function as a reference.
\<close>

record lua_world =
  wheap :: lua_heap
  registry :: "bytes \<rightharpoonup> nat"

definition newtable :: "lua_world \<Rightarrow> lua_world \<times> nat" where
  "newtable w = (case lua_createtable (wheap w) of (h, a) \<Rightarrow> (w\<lparr>wheap := h\<rparr>, a))"

definition setfield :: "nat \<Rightarrow> string \<Rightarrow> lua_value \<Rightarrow> lua_world \<Rightarrow> lua_world" where
  "setfield a k v w = w\<lparr>wheap := lua_setfield (wheap w) a (ascii k) v\<rparr>"

definition getfield :: "lua_world \<Rightarrow> nat \<Rightarrow> bytes \<Rightarrow> lua_value" where
  "getfield w a k = str_part (tables (wheap w) a) k"

definition luaL_setfuncs :: "('f \<Rightarrow> nat) \<Rightarrow> nat \<Rightarrow> (string \<times> 'f) list \<Rightarrow> lua_world \<Rightarrow> lua_world" where
  "luaL_setfuncs addr a regs w = fold (\<lambda>(n, f). setfield a n (LFunction (addr f))) regs w"

text \<open>The table that is in the registry under the name, or a new one; the flag tells whether it is new.\<close>

definition luaL_newmetatable :: "string \<Rightarrow> lua_world \<Rightarrow> lua_world \<times> nat \<times> bool" where
  "luaL_newmetatable tname w =
     (case registry w (ascii tname) of
        Some a \<Rightarrow> (w, a, False)
      | None \<Rightarrow>
          (case newtable w of (w1, a) \<Rightarrow>
             (let w2 = setfield a ''__name'' (LStr (ascii tname)) w1 in
              (w2\<lparr>registry := (registry w2)(ascii tname \<mapsto> a)\<rparr>, a, True))))"

text \<open>A table of functions, as \<^verbatim>\<open>luaL_newlib\<close> makes it.\<close>

definition newlib :: "('f \<Rightarrow> nat) \<Rightarrow> (string \<times> 'f) list \<Rightarrow> lua_world \<Rightarrow> lua_world \<times> nat" where
  "newlib addr regs w = (case newtable w of (w1, a) \<Rightarrow> (luaL_setfuncs addr a regs w1, a))"

section \<open>The modules\<close>

definition ringbuffer_methods :: "(string \<times> string) list" where
  "ringbuffer_methods =
     [(''find'', ''rb_find''), (''discard'', ''rb_discard''), (''read'', ''rb_read''),
      (''readuntil'', ''rb_readuntil''), (''write'', ''rb_write''), (''size'', ''rb_size''),
      (''length'', ''rb_length''), (''sub'', ''rb_sub''), (''byte'', ''rb_byte''), (''free'', ''rb_free'')]"

definition luaopen_ringbuffer :: "(string \<Rightarrow> nat) \<Rightarrow> lua_world \<Rightarrow> lua_world \<times> nat" where
  "luaopen_ringbuffer addr w =
     (case luaL_newmetatable ''ringbuffer_mt'' w of (w, mt, fresh) \<Rightarrow>
      let w = (if fresh
               then case newlib addr ringbuffer_methods
                           (luaL_setfuncs addr mt [(''__tostring'', ''rb_tostring''), (''__len'', ''rb_length'')] w) of
                      (w, index) \<Rightarrow> setfield mt ''__index'' (LTable index) w
               else w) in
      newlib addr [(''new'', ''rb_new'')] w)"

text \<open>\<^verbatim>\<open>encodings.c\<close>; \<open>icu\<close> tells which library the module is built with.\<close>

definition Reg_base64 :: "(string \<times> string) list" where
  "Reg_base64 = [(''encode'', ''Lbase64_encode''), (''decode'', ''Lbase64_decode'')]"

definition Reg_utf8 :: "(string \<times> string) list" where
  "Reg_utf8 = [(''valid'', ''Lutf8_valid''), (''length'', ''Lutf8_length'')]"

definition Reg_stringprep :: "(string \<times> string) list" where
  "Reg_stringprep =
     [(''nameprep'', ''Lstringprep_nameprep''), (''nodeprep'', ''Lstringprep_nodeprep''),
      (''resourceprep'', ''Lstringprep_resourceprep''), (''saslprep'', ''Lstringprep_saslprep'')]"

definition Reg_idna :: "(string \<times> string) list" where
  "Reg_idna = [(''to_ascii'', ''Lidna_to_ascii''), (''to_unicode'', ''Lidna_to_unicode'')]"

definition sublib :: "(string \<Rightarrow> nat) \<Rightarrow> nat \<Rightarrow> string \<Rightarrow> (string \<times> string) list \<Rightarrow> lua_world \<Rightarrow> lua_world" where
  "sublib addr a name regs w = (case newlib addr regs w of (w, b) \<Rightarrow> setfield a name (LTable b) w)"

definition luaopen_encodings :: "bool \<Rightarrow> (string \<Rightarrow> nat) \<Rightarrow> lua_world \<Rightarrow> lua_world \<times> nat" where
  "luaopen_encodings icu addr w =
     (case newtable w of (w, a) \<Rightarrow>
      let w = sublib addr a ''base64'' Reg_base64 w;
          w = sublib addr a ''stringprep'' Reg_stringprep w;
          w = sublib addr a ''idna'' Reg_idna w;
          w = sublib addr a ''utf8'' Reg_utf8 w;
          w = (if icu then sublib addr a ''confusable'' [(''skeleton'', ''Lskeleton'')] w else w) in
      (setfield a ''version'' (LStr (ascii ''-3.14'')) w, a))"

definition thislib_struct :: "(string \<times> string) list" where
  "thislib_struct = [(''pack'', ''b_pack''), (''unpack'', ''b_unpack''), (''size'', ''b_size'')]"

definition luaopen_struct :: "(string \<Rightarrow> nat) \<Rightarrow> lua_world \<Rightarrow> lua_world \<times> nat" where
  "luaopen_struct addr w = newlib addr thislib_struct w"

definition luaopen_strbitop :: "(string \<Rightarrow> nat) \<Rightarrow> lua_world \<Rightarrow> lua_world \<times> nat" where
  "luaopen_strbitop addr w =
     newlib addr [(''sand'', ''strop_and''), (''sor'', ''strop_or''), (''sxor'', ''strop_xor''),
       (''common_prefix_bits'', ''strop_common_prefix_bits'')] w"

definition luaopen_table :: "(string \<Rightarrow> nat) \<Rightarrow> lua_world \<Rightarrow> lua_world \<times> nat" where
  "luaopen_table addr w =
     newlib addr [(''create'', ''Lcreate_table''), (''pack'', ''Lpack''), (''move'', ''Lmove'')] w"

text \<open>\<^verbatim>\<open>poll.c\<close>; the back end is chosen when the module is compiled.\<close>

datatype poll_backend = Epoll | Poll | Select

fun POLL_BACKEND :: "poll_backend \<Rightarrow> string" where
  "POLL_BACKEND Epoll = ''epoll''"
| "POLL_BACKEND Poll = ''poll''"
| "POLL_BACKEND Select = ''select''"

definition STATE_MT :: "poll_backend \<Rightarrow> string" where
  "STATE_MT b = ''util.poll<'' @ POLL_BACKEND b @ ''>''"

text \<open>\<open>ptr\<close> is the text that \<^verbatim>\<open>%p\<close> makes of the address.\<close>

definition poll_Ltos :: "poll_backend \<Rightarrow> bytes \<Rightarrow> lua_value list" where
  "poll_Ltos b ptr = [LStr (ascii (STATE_MT b) @ ascii '': '' @ ptr)]"

definition poll_methods :: "poll_backend \<Rightarrow> (string \<times> string) list" where
  "poll_methods b =
     [(''add'', ''Ladd''), (''set'', ''Lset''), (''del'', ''Ldel''), (''wait'', ''Lwait'')] @
     (if b = Epoll then [(''getfd'', ''Lgetfd'')] else [])"

definition luaopen_poll :: "poll_backend \<Rightarrow> (string \<Rightarrow> nat) \<Rightarrow> lua_world \<Rightarrow> lua_world \<times> nat" where
  "luaopen_poll b addr w =
     (case luaL_newmetatable (STATE_MT b) w of (w, mt, _) \<Rightarrow>
      let w = setfield mt ''__name'' (LStr (ascii (STATE_MT b))) w;
          w = luaL_setfuncs addr mt [(''__tostring'', ''Ltos'')] w in
      case newlib addr (poll_methods b) w of (w, index) \<Rightarrow>
      let w = setfield mt ''__index'' (LTable index) w;
          w = (if b = Epoll then luaL_setfuncs addr mt [(''__gc'', ''Lgc'')] w else w) in
      case newlib addr [(''new'', ''Lnew'')] w of (w, a) \<Rightarrow>
      let w = setfield a ''EEXIST'' (LInt EEXIST) w;
          w = setfield a ''EMFILE'' (LInt EMFILE) w;
          w = setfield a ''ENOENT'' (LInt ENOENT) w in
      (setfield a ''api'' (LStr (ascii (POLL_BACKEND b))) w, a))"

text \<open>
  \<^verbatim>\<open>signal.c\<close> on Linux: the names of the signals go into the table of the module and into a table of
  the registry, which also holds the Lua functions, under the numbers of their signals.
\<close>

definition lsignal_lib :: "(string \<times> string) list" where
  "lsignal_lib = [(''signal'', ''l_signal''), (''raise'', ''l_raise''), (''kill'', ''l_kill''), (''signalfd'', ''l_signalfd'')]"

definition signalfd_methods :: "(string \<times> string) list" where
  "signalfd_methods =
     [(''getfd'', ''l_signalfd_getfd''), (''read'', ''l_signalfd_read''), (''close'', ''l_signalfd_close'')]"

definition LUA_SIGNAL :: string where "LUA_SIGNAL = ''lua_signal''"

definition luaopen_signal :: "(string \<Rightarrow> nat) \<Rightarrow> lua_world \<Rightarrow> lua_world \<times> nat" where
  "luaopen_signal addr w =
     (case luaL_newmetatable ''signalfd'' w of (w, mt, _) \<Rightarrow>
      let w = luaL_setfuncs addr mt [(''__gc'', ''l_signalfd_close'')] w in
      case newlib addr signalfd_methods w of (w, index) \<Rightarrow>
      let w = setfield mt ''__index'' (LTable index) w in
      case newlib addr lsignal_lib w of (w, a) \<Rightarrow>
      case newtable w of (w, reg) \<Rightarrow>
      let w = fold (\<lambda>(name, sig) w. setfield a name (LInt sig) (setfield reg name (LInt sig) w)) lua_signals w in
      (w\<lparr>registry := (registry w)(ascii LUA_SIGNAL \<mapsto> reg)\<rparr>, a))"

text \<open>\<^verbatim>\<open>pposix.c\<close>; the flag is \<^verbatim>\<open>WITH_MALLINFO\<close>.\<close>

definition exports_pposix :: "bool \<Rightarrow> (string \<times> string) list" where
  "exports_pposix mallinfo =
     [(''abort'', ''lc_abort''), (''daemonize'', ''lc_daemonize''),
      (''syslog_open'', ''lc_syslog_open''), (''syslog_close'', ''lc_syslog_close''),
      (''syslog_log'', ''lc_syslog_log''), (''syslog_setminlevel'', ''lc_syslog_setmask''),
      (''getpid'', ''lc_getpid''), (''getuid'', ''lc_getuid''), (''getgid'', ''lc_getgid''),
      (''setuid'', ''lc_setuid''), (''setgid'', ''lc_setgid''), (''initgroups'', ''lc_initgroups''),
      (''umask'', ''lc_umask''), (''mkdir'', ''lc_mkdir''), (''pipe'', ''lc_pipe''), (''fdopen'', ''lc_fdopen''),
      (''setrlimit'', ''lc_setrlimit''), (''getrlimit'', ''lc_getrlimit''), (''uname'', ''lc_uname''),
      (''setenv'', ''lc_setenv'')] @
     (if mallinfo then [(''meminfo'', ''lc_meminfo'')] else []) @
     [(''atomic_append'', ''lc_atomic_append''), (''remove_blocks'', ''lc_remove_blocks''), (''isatty'', ''lc_isatty'')]"

definition luaopen_pposix :: "bool \<Rightarrow> (string \<Rightarrow> nat) \<Rightarrow> lua_world \<Rightarrow> lua_world \<times> nat" where
  "luaopen_pposix mallinfo addr w =
     (case newlib addr (exports_pposix mallinfo) w of (w, a) \<Rightarrow>
      let w = setfield a ''ENOENT'' (LInt ENOENT) w;
          w = setfield a ''_NAME'' (LStr (ascii ''pposix'')) w in
      (setfield a ''_VERSION'' (LStr (ascii ''0.4.1'')) w, a))"

text \<open>\<open>libcrypto\<close> is the text of \<^verbatim>\<open>OpenSSL_version\<close>, absent when the macro is not defined.\<close>

definition libcrypto_version :: "bytes option \<Rightarrow> nat \<Rightarrow> lua_world \<Rightarrow> lua_world" where
  "libcrypto_version libcrypto a w =
     (case libcrypto of None \<Rightarrow> w | Some v \<Rightarrow> setfield a ''_LIBCRYPTO_VERSION'' (LStr v) w)"

definition luaopen_hashes :: "bytes option \<Rightarrow> (hash_fun \<Rightarrow> nat) \<Rightarrow> lua_world \<Rightarrow> lua_world \<times> nat" where
  "luaopen_hashes libcrypto addr w =
     (case newlib addr Reg_hashes w of (w, a) \<Rightarrow>
      let w = setfield a ''version'' (LStr (ascii ''-3.14'')) w in
      (libcrypto_version libcrypto a w, a))"

definition REG_SIGN_VERIFY :: "string \<Rightarrow> string \<Rightarrow> (string \<times> string) list" where
  "REG_SIGN_VERIFY algorithm digest =
     (let n = algorithm @ ''_'' @ digest in
      [(n @ ''_sign'', ''L'' @ n @ ''_sign''), (n @ ''_verify'', ''L'' @ n @ ''_verify'')])"

definition Reg_crypto :: "(string \<times> string) list" where
  "Reg_crypto =
     [(''ed25519_sign'', ''Led25519_sign''), (''ed25519_verify'', ''Led25519_verify'')] @
     REG_SIGN_VERIFY ''ecdsa'' ''sha256'' @ REG_SIGN_VERIFY ''ecdsa'' ''sha384'' @ REG_SIGN_VERIFY ''ecdsa'' ''sha512'' @
     REG_SIGN_VERIFY ''rsassa_pkcs1'' ''sha256'' @ REG_SIGN_VERIFY ''rsassa_pkcs1'' ''sha384'' @
     REG_SIGN_VERIFY ''rsassa_pkcs1'' ''sha512'' @
     REG_SIGN_VERIFY ''rsassa_pss'' ''sha256'' @ REG_SIGN_VERIFY ''rsassa_pss'' ''sha384'' @
     REG_SIGN_VERIFY ''rsassa_pss'' ''sha512'' @
     [(''aes_128_gcm_encrypt'', ''Laes_128_gcm_encrypt''), (''aes_128_gcm_decrypt'', ''Laes_128_gcm_decrypt''),
      (''aes_256_gcm_encrypt'', ''Laes_256_gcm_encrypt''), (''aes_256_gcm_decrypt'', ''Laes_256_gcm_decrypt''),
      (''aes_256_ctr_encrypt'', ''Laes_256_ctr_encrypt''), (''aes_256_ctr_decrypt'', ''Laes_256_ctr_decrypt''),
      (''generate_ed25519_keypair'', ''Lgenerate_ed25519_keypair''),
      (''generate_p256_keypair'', ''Lgenerate_p256_keypair''),
      (''import_private_pem'', ''Limport_private_pem''), (''import_public_pem'', ''Limport_public_pem''),
      (''import_public_ec_raw'', ''Limport_public_ec_raw''),
      (''parse_ecdsa_signature'', ''Lparse_ecdsa_signature''),
      (''build_ecdsa_signature'', ''Lbuild_ecdsa_signature'')]"

definition KeyMethods :: "(string \<times> string) list" where
  "KeyMethods =
     [(''private_pem'', ''Lpkey_meth_private_pem''), (''public_pem'', ''Lpkey_meth_public_pem''),
      (''public_raw'', ''Lpkey_meth_public_raw''), (''get_type'', ''Lpkey_meth_get_type''),
      (''derive'', ''Lpkey_meth_derive'')]"

definition KeyMetatable :: "(string \<times> string) list" where
  "KeyMetatable = [(''__gc'', ''Lpkey_finalizer'')]"

definition luaopen_crypto :: "bytes option \<Rightarrow> (string \<Rightarrow> nat) \<Rightarrow> lua_world \<Rightarrow> lua_world \<times> nat" where
  "luaopen_crypto libcrypto addr w =
     (case luaL_newmetatable ''util.crypto key'' w of (w, mt, _) \<Rightarrow>
      case newlib addr KeyMethods (luaL_setfuncs addr mt KeyMetatable w) of (w, index) \<Rightarrow>
      let w = setfield mt ''__index'' (LTable index) w in
      case newlib addr Reg_crypto w of (w, a) \<Rightarrow>
      let w = setfield a ''version'' (LStr (ascii ''-3.14'')) w in
      (libcrypto_version libcrypto a w, a))"

definition luaopen_net :: "(string \<Rightarrow> nat) \<Rightarrow> lua_world \<Rightarrow> lua_world \<times> nat" where
  "luaopen_net addr w =
     newlib addr [(''local_addresses'', ''lc_local_addresses''), (''pton'', ''lc_pton''), (''ntop'', ''lc_ntop'')] w"

datatype random_source = Getrandom | Arc4random | OpenSSL_RAND

fun source_name :: "random_source \<Rightarrow> string" where
  "source_name Getrandom = ''Linux''"
| "source_name Arc4random = ''arc4random()''"
| "source_name OpenSSL_RAND = ''OpenSSL''"

definition luaopen_crand :: "random_source \<Rightarrow> (string \<Rightarrow> nat) \<Rightarrow> lua_world \<Rightarrow> lua_world \<times> nat" where
  "luaopen_crand src addr w =
     (case newlib addr [(''bytes'', ''Lrandom'')] w of (w, a) \<Rightarrow>
      (setfield a ''_source'' (LStr (ascii (source_name src))) w, a))"

definition luaopen_compat :: "(string \<Rightarrow> nat) \<Rightarrow> lua_world \<Rightarrow> lua_world \<times> nat" where
  "luaopen_compat addr w = newlib addr [(''xpcall'', ''lc_xpcall'')] w"

definition luaopen_time :: "(string \<Rightarrow> nat) \<Rightarrow> lua_world \<Rightarrow> lua_world \<times> nat" where
  "luaopen_time addr w = newlib addr [(''now'', ''lc_time_realtime''), (''monotonic'', ''lc_time_monotonic'')] w"

definition luaopen_windows :: "(string \<Rightarrow> nat) \<Rightarrow> lua_world \<Rightarrow> lua_world \<times> nat" where
  "luaopen_windows addr w =
     (case newlib addr [(''get_nameservers'', ''Lget_nameservers''), (''get_consolecolor'', ''Lget_consolecolor''),
        (''set_consolecolor'', ''Lset_consolecolor'')] w of (w, a) \<Rightarrow>
      (setfield a ''version'' (LStr (ascii ''-3.14'')) w, a))"

section \<open>What a table holds\<close>

named_theorems world_simps \<open>reading fields after the steps of loading\<close>

lemma getfield_setfield:
  "getfield (setfield a n v w) b k = (if b = a \<and> k = ascii n then v else getfield w b k)"
  by (simp add: getfield_def setfield_def lua_setfield_def)

lemma setfield_frame [world_simps]:
  "registry (setfield a n v w) = registry w" "next_addr (wheap (setfield a n v w)) = next_addr (wheap w)"
  by (simp_all add: setfield_def lua_setfield_def)

lemma setfuncs_frame [world_simps]:
  "registry (luaL_setfuncs addr a regs w) = registry w"
  "next_addr (wheap (luaL_setfuncs addr a regs w)) = next_addr (wheap w)"
  by (induction regs arbitrary: w) (auto simp: luaL_setfuncs_def world_simps)

lemma getfield_setfuncs:
  "distinct (map fst regs) \<Longrightarrow>
    getfield (luaL_setfuncs addr a regs w) b k =
      (if b = a then (case map_of (map (\<lambda>(n, f). (ascii n, f)) regs) k of
                        Some f \<Rightarrow> LFunction (addr f) | None \<Rightarrow> getfield w a k)
       else getfield w b k)"
proof (induction regs arbitrary: w)
  case (Cons r regs)
  obtain n f where r: "r = (n, f)" by fastforce
  have "map_of (map (\<lambda>(n, f). (ascii n, f)) regs) (ascii n) = None"
    using Cons.prems by (force simp: r map_of_eq_None_iff inj_ascii)
  moreover have "luaL_setfuncs addr a (r # regs) w = luaL_setfuncs addr a regs (setfield a n (LFunction (addr f)) w)"
    by (simp add: luaL_setfuncs_def r)
  ultimately show ?case
    using Cons by (auto simp: r getfield_setfield split: option.splits)
qed (simp add: luaL_setfuncs_def)

text \<open>The names that a module table holds.\<close>

definition exports :: "lua_world \<times> nat \<Rightarrow> bytes set" where
  "exports wa = {k. getfield (fst wa) (snd wa) k \<noteq> LNil}"

lemma newtable_eqs [world_simps]:
  "snd (newtable w) = next_addr (wheap w)" "registry (fst (newtable w)) = registry w"
  "next_addr (wheap (fst (newtable w))) = Suc (next_addr (wheap w))"
  "getfield (fst (newtable w)) b k = (if b = next_addr (wheap w) then LNil else getfield w b k)"
  by (simp_all add: newtable_def lua_createtable_def getfield_def empty_table_def)

lemma newlib_eqs [world_simps]:
  "snd (newlib addr regs w) = next_addr (wheap w)" "registry (fst (newlib addr regs w)) = registry w"
  "next_addr (wheap (fst (newlib addr regs w))) = Suc (next_addr (wheap w))"
  by (simp_all add: newlib_def case_prod_beta world_simps)

lemma getfield_newlib:
  "distinct (map fst regs) \<Longrightarrow>
    getfield (fst (newlib addr regs w)) b k =
      (if b = next_addr (wheap w) then (case map_of (map (\<lambda>(n, f). (ascii n, f)) regs) k of
         Some f \<Rightarrow> LFunction (addr f) | None \<Rightarrow> LNil)
       else getfield w b k)"
  by (simp add: newlib_def case_prod_beta getfield_setfuncs world_simps split: option.splits)

lemma map_of_ascii_None: "map_of (map (\<lambda>(n, f). (ascii n, f)) regs) k = None \<longleftrightarrow> k \<notin> ascii ` set (map fst regs)"
  by (force simp: map_of_eq_None_iff)

lemma exports_newlib:
  "distinct (map fst regs) \<Longrightarrow> exports (newlib addr regs w) = ascii ` set (map fst regs)"
proof -
  assume d: "distinct (map fst regs)"
  have "getfield (fst (newlib addr regs w)) (snd (newlib addr regs w)) k \<noteq> LNil \<longleftrightarrow>
      map_of (map (\<lambda>(n, f). (ascii n, f)) regs) k \<noteq> None" for k
    using getfield_newlib[OF d, of addr w "next_addr (wheap w)" k] by (simp add: world_simps split: option.splits)
  then show ?thesis unfolding exports_def map_of_ascii_None by blast
qed

lemma exports_setfield:
  "v \<noteq> LNil \<Longrightarrow> exports (setfield a n v w, a) = insert (ascii n) (exports (w, a))"
  by (auto simp: exports_def getfield_setfield)

lemma exports_sublib:
  assumes "distinct (map fst regs)" "a < next_addr (wheap w)"
  shows "exports (sublib addr a n regs w, a) = insert (ascii n) (exports (w, a))"
    and "next_addr (wheap (sublib addr a n regs w)) = Suc (next_addr (wheap w))"
  using assms by (auto simp: sublib_def case_prod_beta world_simps exports_def getfield_setfield getfield_newlib
      split: option.splits)

lemma exports_newtable:
  "exports (newtable w) = {}" "exports (fst (newtable w), next_addr (wheap w)) = {}"
  by (simp_all add: exports_def world_simps)

lemma exports_libcrypto: "exports (libcrypto_version (Some v) a w, a) = insert (ascii ''_LIBCRYPTO_VERSION'') (exports (w, a))"
  by (simp add: libcrypto_version_def exports_setfield)

lemma newlib_pair: "newlib addr regs w = (fst (newlib addr regs w), next_addr (wheap w))"
  by (metis newlib_eqs(1) prod.collapse)

section \<open>The declared interfaces\<close>

text \<open>
  The type declarations of the modules, \<^verbatim>\<open>teal-src/prosody/util/*.d.tl\<close>: the names of the fields
  of each record.
\<close>

definition declared_ringbuffer :: "string list \<times> string list" where
  "declared_ringbuffer =
     ([''new''],
      [''find'', ''discard'', ''read'', ''readuntil'', ''write'', ''size'', ''length'', ''sub'', ''byte'', ''free''])"

definition declared_poll :: "string list \<times> string list" where
  "declared_poll = ([''new'', ''EEXIST'', ''EMFILE'', ''ENOENT'', ''api''], [''add'', ''set'', ''del'', ''wait'', ''getfd''])"

definition declared_strbitop :: "string list" where
  "declared_strbitop = [''sand'', ''sor'', ''sxor'', ''common_prefix_bits'']"

definition declared_struct :: "string list" where
  "declared_struct = [''pack'', ''unpack'', ''size'']"

definition declared_signals :: "string list" where
  "declared_signals =
     [''SIGABRT'', ''SIGALRM'', ''SIGBUS'', ''SIGCHLD'', ''SIGCLD'', ''SIGCONT'', ''SIGFPE'', ''SIGHUP'', ''SIGILL'',
      ''SIGINT'', ''SIGIO'', ''SIGIOT'', ''SIGKILL'', ''SIGPIPE'', ''SIGPOLL'', ''SIGPROF'', ''SIGQUIT'', ''SIGSEGV'',
      ''SIGSTKFLT'', ''SIGSTOP'', ''SIGSYS'', ''SIGTERM'', ''SIGTRAP'', ''SIGTTIN'', ''SIGTTOU'', ''SIGURG'',
      ''SIGUSR1'', ''SIGUSR2'', ''SIGVTALRM'', ''SIGWINCH'', ''SIGXCPU'', ''SIGXFSZ'']"

definition declared_signal :: "string list" where
  "declared_signal = [''signal'', ''raise'', ''kill'', ''signalfd'']"

definition declared_pposix :: "string list" where
  "declared_pposix =
     [''abort'', ''daemonize'', ''syslog_open'', ''syslog_close'', ''syslog_log'', ''syslog_setminlevel'', ''getpid'',
      ''getuid'', ''getgid'', ''setuid'', ''setgid'', ''initgroups'', ''umask'', ''mkdir'', ''pipe'', ''fdopen'',
      ''setrlimit'', ''getrlimit'', ''uname'', ''setenv'', ''meminfo'', ''atomic_append'', ''remove_blocks'',
      ''isatty'', ''ENOENT'', ''_NAME'', ''_VERSION'']"

definition declared_table :: "string list" where
  "declared_table = [''create'', ''pack'', ''move'']"

definition declared_net :: "string list" where
  "declared_net = [''local_addresses'', ''pton'', ''ntop'']"

definition declared_crypto :: "string list \<times> string list" where
  "declared_crypto =
     ([''ed25519_sign'', ''ed25519_verify'', ''ecdsa_sha256_sign'', ''ecdsa_sha256_verify'', ''ecdsa_sha384_sign'',
       ''ecdsa_sha384_verify'', ''ecdsa_sha512_sign'', ''ecdsa_sha512_verify'', ''rsassa_pkcs1_sha256_sign'',
       ''rsassa_pkcs1_sha256_verify'', ''rsassa_pkcs1_sha384_sign'', ''rsassa_pkcs1_sha384_verify'',
       ''rsassa_pkcs1_sha512_sign'', ''rsassa_pkcs1_sha512_verify'', ''rsassa_pss_sha256_sign'',
       ''rsassa_pss_sha256_verify'', ''rsassa_pss_sha384_sign'', ''rsassa_pss_sha384_verify'',
       ''rsassa_pss_sha512_sign'', ''rsassa_pss_sha512_verify'', ''aes_128_gcm_encrypt'', ''aes_128_gcm_decrypt'',
       ''aes_256_gcm_encrypt'', ''aes_256_gcm_decrypt'', ''aes_256_ctr_encrypt'', ''aes_256_ctr_decrypt'',
       ''generate_ed25519_keypair'', ''generate_p256_keypair'', ''import_private_pem'', ''import_public_pem'',
       ''import_public_ec_raw'', ''parse_ecdsa_signature'', ''build_ecdsa_signature'', ''version'',
       ''_LIBCRYPTO_VERSION''],
      [''private_pem'', ''public_pem'', ''public_raw'', ''get_type'', ''derive''])"

definition declared_encodings :: "(string \<times> string list) list \<times> string list" where
  "declared_encodings =
     ([(''base64'', [''encode'', ''decode'']),
       (''stringprep'', [''nameprep'', ''nodeprep'', ''resourceprep'', ''saslprep'']),
       (''idna'', [''to_ascii'', ''to_unicode'']),
       (''utf8'', [''valid'', ''length'']),
       (''confusable'', [''skeleton''])],
      [''version''])"

definition declared_hashes :: "string list" where
  "declared_hashes =
     [''sha1'', ''sha224'', ''sha256'', ''sha384'', ''sha512'', ''md5'', ''sha3_256'', ''sha3_512'', ''blake2s256'',
      ''blake2b512'', ''hmac_sha1'', ''hmac_sha224'', ''hmac_sha256'', ''hmac_sha384'', ''hmac_sha512'', ''hmac_md5'',
      ''hmac_sha3_256'', ''hmac_sha3_512'', ''hmac_blake2s256'', ''hmac_blake2b512'', ''scram_Hi_sha1'',
      ''pbkdf2_hmac_sha1'', ''pbkdf2_hmac_sha256'', ''hkdf_hmac_sha256'', ''hkdf_hmac_sha384'', ''equals'',
      ''version'', ''_LIBCRYPTO_VERSION'']"

definition declared_time :: "string list" where "declared_time = [''now'', ''monotonic'']"

definition declared_compat :: "string list" where "declared_compat = [''xpcall'']"

definition declared_crand :: "string list" where "declared_crand = [''bytes'', ''_source'']"

text \<open>The methods that an object finds through the \<^verbatim>\<open>__index\<close> field of its metatable.\<close>

definition methods :: "string \<Rightarrow> lua_world \<Rightarrow> bytes set" where
  "methods tname w =
     (case registry w (ascii tname) of
        None \<Rightarrow> {}
      | Some mt \<Rightarrow> (case getfield w mt (ascii ''__index'') of LTable i \<Rightarrow> exports (w, i) | _ \<Rightarrow> {}))"

lemma exports_ringbuffer: "exports (luaopen_ringbuffer addr w) = ascii ` set (fst declared_ringbuffer)"
  by (simp add: luaopen_ringbuffer_def case_prod_beta Let_def exports_newlib declared_ringbuffer_def)

lemma exports_simple:
  "exports (luaopen_struct addr w) = ascii ` set declared_struct"
  "exports (luaopen_strbitop addr w) = ascii ` set declared_strbitop"
  "exports (luaopen_table addr w) = ascii ` set declared_table"
  "exports (luaopen_net addr w) = ascii ` set declared_net"
  "exports (luaopen_compat addr w) = ascii ` set declared_compat"
  "exports (luaopen_time addr w) = ascii ` set declared_time"
  "exports (luaopen_crand src addr w) = ascii ` set declared_crand"
  by (simp_all add: luaopen_struct_def luaopen_strbitop_def luaopen_table_def luaopen_net_def luaopen_compat_def
      luaopen_time_def luaopen_crand_def exports_newlib exports_setfield case_prod_beta thislib_struct_def
      declared_struct_def declared_strbitop_def declared_table_def declared_net_def declared_compat_def
      declared_time_def declared_crand_def insert_commute)

lemma exports_poll: "exports (luaopen_poll b addr w) = ascii ` set (fst declared_poll)"
  by (simp add: luaopen_poll_def case_prod_beta Let_def exports_setfield exports_newlib declared_poll_def insert_commute)

text \<open>The fields of a table that a field of a module refers to.\<close>

definition subfields :: "lua_world \<times> nat \<Rightarrow> string \<Rightarrow> bytes set" where
  "subfields wa n = (case getfield (fst wa) (snd wa) (ascii n) of LTable b \<Rightarrow> exports (fst wa, b) | _ \<Rightarrow> {})"

definition refs_ok :: "lua_world \<Rightarrow> nat \<Rightarrow> bool" where
  "refs_ok w a \<longleftrightarrow> a < next_addr (wheap w) \<and>
     (\<forall>k b. getfield w a k = LTable b \<longrightarrow> b < next_addr (wheap w) \<and> b \<noteq> a)"

lemma getfield_sublib:
  "distinct (map fst regs) \<Longrightarrow> a < next_addr (wheap w) \<Longrightarrow>
    getfield (sublib addr a n regs w) b k =
      (if b = a \<and> k = ascii n then LTable (next_addr (wheap w))
       else if b = next_addr (wheap w) then (case map_of (map (\<lambda>(n, f). (ascii n, f)) regs) k of
         Some f \<Rightarrow> LFunction (addr f) | None \<Rightarrow> LNil)
       else getfield w b k)"
  by (simp add: sublib_def case_prod_beta world_simps getfield_setfield getfield_newlib)

lemma subfields_newtable:
  "refs_ok (fst (newtable w)) (next_addr (wheap w))" "subfields (fst (newtable w), next_addr (wheap w)) m = {}"
  by (simp_all add: refs_ok_def subfields_def world_simps)

lemma subfields_sublib:
  assumes "distinct (map fst regs)" and "refs_ok w a"
  shows "refs_ok (sublib addr a n regs w) a"
    and "subfields (sublib addr a n regs w, a) m = (if m = n then ascii ` set (map fst regs) else subfields (w, a) m)"
proof -
  have a: "a < next_addr (wheap w)" using assms(2) by (simp add: refs_ok_def)
  note get = getfield_sublib[OF assms(1) a]
  show "refs_ok (sublib addr a n regs w) a"
    using assms(2) exports_sublib(2)[OF assms(1) a, of addr n] by (auto simp: refs_ok_def get less_SucI)
  have new: "exports (sublib addr a n regs w, next_addr (wheap w)) = ascii ` set (map fst regs)"
  proof -
    have "getfield (sublib addr a n regs w) (next_addr (wheap w)) k \<noteq> LNil \<longleftrightarrow>
        map_of (map (\<lambda>(n, f). (ascii n, f)) regs) k \<noteq> None" for k
      using a by (auto simp: get split: option.splits)
    then show ?thesis unfolding exports_def map_of_ascii_None by auto
  qed
  have "exports (sublib addr a n regs w, b) = exports (w, b)" if "getfield w a (ascii m) = LTable b" for b
    using that assms(2) by (auto simp: exports_def get refs_ok_def)
  then show "subfields (sublib addr a n regs w, a) m = (if m = n then ascii ` set (map fst regs) else subfields (w, a) m)"
    using a new by (auto simp: subfields_def get inj_ascii split: lua_value.splits)
qed

lemma subfields_setfield:
  assumes "refs_ok w a"
  shows "subfields (setfield a n (LStr v) w, a) m = (if m = n then {} else subfields (w, a) m)"
proof -
  have "exports (setfield a n (LStr v) w, b) = exports (w, b)" if "getfield w a (ascii m) = LTable b" for b
    using that assms by (auto simp: exports_def getfield_setfield refs_ok_def)
  then show ?thesis by (auto simp: subfields_def getfield_setfield inj_ascii split: lua_value.splits)
qed

lemma exports_encodings:
  "exports (luaopen_encodings icu addr w) =
     ascii ` (set (map fst (fst declared_encodings)) \<union> set (snd declared_encodings) - (if icu then {} else {''confusable''}))"
  "(n, fs) \<in> set (fst declared_encodings) \<Longrightarrow> icu \<or> n \<noteq> ''confusable'' \<Longrightarrow>
     subfields (luaopen_encodings icu addr w) n = ascii ` set fs"
proof -
  note regs = Reg_base64_def Reg_stringprep_def Reg_idna_def Reg_utf8_def declared_encodings_def
  have x: "exports (luaopen_encodings icu addr w) =
      ascii ` ({''base64'', ''stringprep'', ''idna'', ''utf8'', ''version''} \<union> (if icu then {''confusable''} else {}))"
    by (cases icu) (auto simp: luaopen_encodings_def case_prod_beta Let_def exports_setfield exports_sublib world_simps
        exports_newtable Reg_base64_def Reg_stringprep_def Reg_idna_def Reg_utf8_def)
  have n: "set (map fst (fst declared_encodings)) \<union> set (snd declared_encodings) - (if icu then {} else {''confusable''}) =
      {''base64'', ''stringprep'', ''idna'', ''utf8'', ''version''} \<union> (if icu then {''confusable''} else {})"
    by (auto simp: declared_encodings_def)
  show "exports (luaopen_encodings icu addr w) =
     ascii ` (set (map fst (fst declared_encodings)) \<union> set (snd declared_encodings) - (if icu then {} else {''confusable''}))"
    unfolding x n by (rule refl)
  let ?a = "next_addr (wheap w)"
  have d: "distinct (map fst Reg_base64)" "distinct (map fst Reg_stringprep)" "distinct (map fst Reg_idna)"
    "distinct (map fst Reg_utf8)" "distinct (map fst [(''skeleton'', ''Lskeleton'')])" by (simp_all add: regs)
  define w1 where "w1 = sublib addr ?a ''base64'' Reg_base64 (fst (newtable w))"
  define w2 where "w2 = sublib addr ?a ''stringprep'' Reg_stringprep w1"
  define w3 where "w3 = sublib addr ?a ''idna'' Reg_idna w2"
  define w4 where "w4 = sublib addr ?a ''utf8'' Reg_utf8 w3"
  define w5 where "w5 = (if icu then sublib addr ?a ''confusable'' [(''skeleton'', ''Lskeleton'')] w4 else w4)"
  note f1 = subfields_sublib[OF d(1) subfields_newtable(1), of addr w "''base64''", folded w1_def]
  note f2 = subfields_sublib[OF d(2) f1(1), of addr "''stringprep''", folded w2_def]
  note f3 = subfields_sublib[OF d(3) f2(1), of addr "''idna''", folded w3_def]
  note f4 = subfields_sublib[OF d(4) f3(1), of addr "''utf8''", folded w4_def]
  note f5 = subfields_sublib[OF d(5) f4(1), of addr "''confusable''"]
  have w5: "refs_ok w5 ?a" "subfields (w5, ?a) m = (if icu \<and> m = ''confusable'' then ascii ` {''skeleton''} else subfields (w4, ?a) m)" for m
    using f4(1) f5 by (simp_all add: w5_def)
  have "luaopen_encodings icu addr w = (setfield ?a ''version'' (LStr (ascii ''-3.14'')) w5, ?a)"
    by (simp add: luaopen_encodings_def case_prod_beta Let_def world_simps w1_def w2_def w3_def w4_def w5_def)
  then have all: "subfields (luaopen_encodings icu addr w) n = (if n = ''version'' then {} else
      if icu \<and> n = ''confusable'' then ascii ` {''skeleton''} else if n = ''utf8'' then ascii ` set (map fst Reg_utf8) else
      if n = ''idna'' then ascii ` set (map fst Reg_idna) else if n = ''stringprep'' then ascii ` set (map fst Reg_stringprep) else
      if n = ''base64'' then ascii ` set (map fst Reg_base64) else {})"
    by (simp only: subfields_setfield[OF w5(1)] w5(2) f4(2) f3(2) f2(2) f1(2) subfields_newtable(2))
  assume n: "(n, fs) \<in> set (fst declared_encodings)" "icu \<or> n \<noteq> ''confusable''"
  have "fst declared_encodings = [(''base64'', map fst Reg_base64), (''stringprep'', map fst Reg_stringprep),
      (''idna'', map fst Reg_idna), (''utf8'', map fst Reg_utf8), (''confusable'', [''skeleton''])]"
    by (simp add: regs)
  from n(1)[unfolded this] have "n = ''base64'' \<and> fs = map fst Reg_base64 \<or> n = ''stringprep'' \<and> fs = map fst Reg_stringprep \<or>
      n = ''idna'' \<and> fs = map fst Reg_idna \<or> n = ''utf8'' \<and> fs = map fst Reg_utf8 \<or> n = ''confusable'' \<and> fs = [''skeleton'']"
    by (simp only: list.set insert_iff prod.inject empty_iff simp_thms)
  then show "subfields (luaopen_encodings icu addr w) n = ascii ` set fs"
    unfolding all using n(2) by (elim disjE conjE) simp_all
qed

lemma exports_pposix:
  "exports (luaopen_pposix True addr w) = ascii ` set declared_pposix"
  "exports (luaopen_pposix False addr w) = ascii ` set (removeAll ''meminfo'' declared_pposix)"
proof -
  have d: "distinct (map fst (exports_pposix m))" for m by (simp add: exports_pposix_def)
  have e: "set declared_pposix = set (map fst (exports_pposix True)) \<union> {''ENOENT'', ''_NAME'', ''_VERSION''}"
    "set (removeAll ''meminfo'' declared_pposix) = set (map fst (exports_pposix False)) \<union> {''ENOENT'', ''_NAME'', ''_VERSION''}"
    by (simp_all add: declared_pposix_def exports_pposix_def insert_commute)
  have x: "exports (luaopen_pposix m addr w) = ascii ` (set (map fst (exports_pposix m)) \<union> {''ENOENT'', ''_NAME'', ''_VERSION''})" for m
    by (auto simp: luaopen_pposix_def case_prod_beta Let_def exports_setfield exports_newlib[OF d])
  show "exports (luaopen_pposix True addr w) = ascii ` set declared_pposix"
    "exports (luaopen_pposix False addr w) = ascii ` set (removeAll ''meminfo'' declared_pposix)"
    unfolding x e by (rule refl)+
qed

lemma distinct_Reg: "distinct (map fst Reg_hashes)" "distinct (map fst Reg_crypto)" "distinct (map fst KeyMethods)"
  by (simp_all add: Reg_hashes_def Reg_crypto_def KeyMethods_def REG_SIGN_VERIFY_def)

lemma exports_hashes: "exports (luaopen_hashes (Some v) addr w) = ascii ` set declared_hashes"
proof -
  have e: "set declared_hashes = set (map fst Reg_hashes) \<union> {''version'', ''_LIBCRYPTO_VERSION''}"
    by (simp add: declared_hashes_def Reg_hashes_def insert_commute)
  show ?thesis
    unfolding e by (auto simp: luaopen_hashes_def case_prod_beta Let_def exports_libcrypto exports_setfield
        exports_newlib[OF distinct_Reg(1)])
qed

lemma exports_crypto: "exports (luaopen_crypto (Some v) addr w) = ascii ` set (fst declared_crypto)"
proof -
  have e: "set (fst declared_crypto) = set (map fst Reg_crypto) \<union> {''version'', ''_LIBCRYPTO_VERSION''}"
    by (simp add: declared_crypto_def Reg_crypto_def REG_SIGN_VERIFY_def insert_commute)
  show ?thesis
    unfolding e by (auto simp: luaopen_crypto_def case_prod_beta Let_def exports_libcrypto exports_setfield
        exports_newlib[OF distinct_Reg(2)])
qed

text \<open>The two tables that \<^verbatim>\<open>luaopen_prosody_util_signal\<close> fills with the names of the signals.\<close>

definition fill_names :: "nat \<Rightarrow> nat \<Rightarrow> (string \<times> int) list \<Rightarrow> lua_world \<Rightarrow> lua_world" where
  "fill_names a reg = fold (\<lambda>(name, sig) w. setfield a name (LInt sig) (setfield reg name (LInt sig) w))"

lemma fill_names_eqs:
  "registry (fill_names a reg xs w) = registry w"
  "int_part (tables (wheap (fill_names a reg xs w)) b) = int_part (tables (wheap w) b)"
  by (induction xs arbitrary: w) (auto simp: fill_names_def setfield_def lua_setfield_def)

lemma fill_names_frame:
  "b \<noteq> a \<Longrightarrow> b \<noteq> reg \<Longrightarrow> getfield (fill_names a reg xs w) b k = getfield w b k"
  by (induction xs arbitrary: w) (auto simp: fill_names_def getfield_setfield)

lemma getfield_fill_names:
  "distinct (map fst xs) \<Longrightarrow> b = a \<or> b = reg \<Longrightarrow>
    getfield (fill_names a reg xs w) b k =
      (case map_of (map (\<lambda>(n, s). (ascii n, s)) xs) k of Some s \<Rightarrow> LInt s | None \<Rightarrow> getfield w b k)"
proof (induction xs arbitrary: w)
  case (Cons x xs)
  obtain n s where x: "x = (n, s)" by fastforce
  have "map_of (map (\<lambda>(n, s). (ascii n, s)) xs) (ascii n) = None"
    using Cons.prems by (force simp: x map_of_eq_None_iff inj_ascii)
  moreover have "fill_names a reg (x # xs) w = fill_names a reg xs (setfield a n (LInt s) (setfield reg n (LInt s) w))"
    by (simp add: fill_names_def x)
  ultimately show ?case using Cons by (auto simp: x getfield_setfield split: option.splits)
qed (simp add: fill_names_def)

lemma distinct_lua_signals: "distinct (map fst lua_signals)"
  by (simp add: lua_signals_def)

lemma exports_fill_names:
  assumes "distinct (map fst xs)"
  shows "exports (fill_names a reg xs w, a) = ascii ` set (map fst xs) \<union> exports (w, a)"
proof -
  have "getfield (fill_names a reg xs w) a k \<noteq> LNil \<longleftrightarrow>
      map_of (map (\<lambda>(n, s). (ascii n, s)) xs) k \<noteq> None \<or> getfield w a k \<noteq> LNil" for k
    using getfield_fill_names[OF assms, of a a reg w k] by (auto split: option.splits)
  then show ?thesis unfolding exports_def map_of_ascii_None by auto
qed

lemma newmetatable_registry:
  "registry (fst (luaL_newmetatable n w)) k = (if k = ascii n then Some (fst (snd (luaL_newmetatable n w))) else registry w k)"
  by (auto simp: luaL_newmetatable_def case_prod_beta Let_def world_simps split: option.splits)

text \<open>The world in which the table of the registry is made, and the table of the module in it.\<close>

lemma luaopen_signal_parts:
  obtains w1 a where "snd (luaopen_signal addr w) = a" "Suc a = next_addr (wheap w1)"
    "registry w1 (ascii LUA_SIGNAL) = registry w (ascii LUA_SIGNAL)"
    "exports (w1, a) = ascii ` set (map fst lsignal_lib)"
    "fst (luaopen_signal addr w) =
       (let w2 = fill_names a (next_addr (wheap w1)) lua_signals (fst (newtable w1)) in
        w2\<lparr>registry := (registry w2)(ascii LUA_SIGNAL \<mapsto> next_addr (wheap w1))\<rparr>)"
proof -
  define w0 where "w0 = (case luaL_newmetatable ''signalfd'' w of (w, mt, _) \<Rightarrow>
      let w = luaL_setfuncs addr mt [(''__gc'', ''l_signalfd_close'')] w in
      case newlib addr signalfd_methods w of (w, index) \<Rightarrow> setfield mt ''__index'' (LTable index) w)"
  let ?w1 = "fst (newlib addr lsignal_lib w0)"
  have open_signal: "luaopen_signal addr w =
      (let w2 = fill_names (next_addr (wheap w0)) (next_addr (wheap ?w1)) lua_signals (fst (newtable ?w1)) in
       (w2\<lparr>registry := (registry w2)(ascii LUA_SIGNAL \<mapsto> next_addr (wheap ?w1))\<rparr>, next_addr (wheap w0)))"
    by (simp add: luaopen_signal_def w0_def case_prod_beta Let_def fill_names_def world_simps)
  have "exports (newlib addr lsignal_lib w0) = ascii ` set (map fst lsignal_lib)"
    by (rule exports_newlib) (simp add: lsignal_lib_def)
  moreover have "newlib addr lsignal_lib w0 = (?w1, next_addr (wheap w0))" by (rule newlib_pair)
  ultimately have "exports (?w1, next_addr (wheap w0)) = ascii ` set (map fst lsignal_lib)" by metis
  moreover have "registry ?w1 (ascii LUA_SIGNAL) = registry w (ascii LUA_SIGNAL)"
    by (simp add: w0_def case_prod_beta Let_def world_simps newmetatable_registry inj_ascii LUA_SIGNAL_def)
  ultimately show ?thesis
    by (intro that[of "next_addr (wheap w0)" ?w1]) (simp_all add: open_signal Let_def world_simps)
qed

lemma exports_signal: "exports (luaopen_signal addr w) = ascii ` set (declared_signal @ declared_signals)"
proof -
  obtain w1 a where a: "snd (luaopen_signal addr w) = a" "Suc a = next_addr (wheap w1)"
    and e: "exports (w1, a) = ascii ` set (map fst lsignal_lib)"
    and o: "fst (luaopen_signal addr w) = (let w2 = fill_names a (next_addr (wheap w1)) lua_signals (fst (newtable w1)) in
        w2\<lparr>registry := (registry w2)(ascii LUA_SIGNAL \<mapsto> next_addr (wheap w1))\<rparr>)"
    by (rule luaopen_signal_parts)
  let ?f = "fill_names a (next_addr (wheap w1)) lua_signals (fst (newtable w1))"
  have "exports (luaopen_signal addr w) = exports (?f, a)"
    using a(1) o by (simp add: exports_def getfield_def Let_def)
  also have "\<dots> = ascii ` set (map fst lua_signals) \<union> exports (w1, a)"
    using a(2) by (simp add: exports_fill_names[OF distinct_lua_signals]) (simp add: exports_def world_simps)
  also have "set (map fst lua_signals) = set declared_signals"
    by (simp add: lua_signals_def declared_signals_def insert_commute)
  finally show ?thesis by (auto simp: e lsignal_lib_def declared_signal_def)
qed

text \<open>The tables in the registry exist.\<close>

definition world_ok :: "lua_world \<Rightarrow> bool" where
  "world_ok w \<longleftrightarrow> (\<forall>n a. registry w n = Some a \<longrightarrow> a < next_addr (wheap w))"

lemma newmetatable_addr:
  "world_ok w \<Longrightarrow> fst (snd (luaL_newmetatable n w)) < next_addr (wheap (fst (luaL_newmetatable n w)))"
  by (auto simp: luaL_newmetatable_def case_prod_beta Let_def world_simps world_ok_def split: option.splits)

lemma newmetatable_fresh:
  "snd (snd (luaL_newmetatable n w)) \<longleftrightarrow> registry w (ascii n) = None"
  by (auto simp: luaL_newmetatable_def case_prod_beta Let_def split: option.splits)

text \<open>
  An object finds its methods in the index table if the metatable refers to it and nothing is stored in
  either afterwards.
\<close>

lemma methodsI:
  assumes "registry w (ascii n) = Some mt" and "getfield w mt (ascii ''__index'') = LTable i"
    and "\<And>k. getfield w i k = getfield w0 i k" and "exports (w0, i) = names"
  shows "methods n w = names"
  using assms by (simp add: methods_def exports_def)

lemma exports_newlib_at:
  "distinct (map fst regs) \<Longrightarrow> exports (fst (newlib addr regs w), next_addr (wheap w)) = ascii ` set (map fst regs)"
  using exports_newlib[of regs addr w] newlib_pair[of addr regs w] by simp

lemma methods_poll:
  assumes "world_ok w"
  shows "methods (STATE_MT b) (fst (luaopen_poll b addr w)) = ascii ` set (map fst (poll_methods b))"
proof -
  obtain w1 mt fresh where mt: "luaL_newmetatable (STATE_MT b) w = (w1, mt, fresh)" by (metis prod.exhaust)
  have r: "registry w1 (ascii (STATE_MT b)) = Some mt" "mt < next_addr (wheap w1)"
    using newmetatable_registry[of "STATE_MT b" w] newmetatable_addr[OF assms, of "STATE_MT b"] by (simp_all add: mt)
  let ?w2 = "luaL_setfuncs addr mt [(''__tostring'', ''Ltos'')] (setfield mt ''__name'' (LStr (ascii (STATE_MT b))) w1)"
  let ?w3 = "fst (newlib addr (poll_methods b) ?w2)"
  have d: "distinct (map fst (poll_methods b))" by (simp add: poll_methods_def)
  let ?W = "fst (luaopen_poll b addr w)" and ?i = "next_addr (wheap w1)"
  have names: "exports (?w3, ?i) = ascii ` set (map fst (poll_methods b))"
    using exports_newlib_at[OF d, of addr ?w2] by (simp add: world_simps)
  have "registry ?W (ascii (STATE_MT b)) = Some mt" "getfield ?W mt (ascii ''__index'') = LTable ?i"
    "getfield ?W ?i k = getfield ?w3 ?i k" for k
    using r by (auto simp add: luaopen_poll_def mt case_prod_beta Let_def world_simps getfield_setfield getfield_newlib
        getfield_setfuncs inj_ascii split: option.splits)
  from methodsI[OF this names] show ?thesis .
qed

lemma methods_crypto:
  assumes "world_ok w"
  shows "methods ''util.crypto key'' (fst (luaopen_crypto v addr w)) = ascii ` set (map fst KeyMethods)"
proof -
  let ?n = "''util.crypto key''"
  obtain w1 mt fresh where mt: "luaL_newmetatable ?n w = (w1, mt, fresh)" by (metis prod.exhaust)
  have r: "registry w1 (ascii ?n) = Some mt" "mt < next_addr (wheap w1)"
    using newmetatable_registry[of ?n w] newmetatable_addr[OF assms, of ?n] by (simp_all add: mt)
  let ?w2 = "luaL_setfuncs addr mt KeyMetatable w1"
  let ?w3 = "fst (newlib addr KeyMethods ?w2)"
  let ?W = "fst (luaopen_crypto v addr w)" and ?i = "next_addr (wheap w1)"
  have names: "exports (?w3, ?i) = ascii ` set (map fst KeyMethods)"
    using exports_newlib_at[OF distinct_Reg(3), of addr ?w2] by (simp add: world_simps)
  have "registry ?W (ascii ?n) = Some mt" "getfield ?W mt (ascii ''__index'') = LTable ?i"
    "getfield ?W ?i k = getfield ?w3 ?i k" for k
    using r by (simp_all add: luaopen_crypto_def mt case_prod_beta Let_def world_simps getfield_setfield
        getfield_newlib[OF distinct_Reg(2)] libcrypto_version_def split: option.splits)
  from methodsI[OF this names] show ?thesis .
qed

lemma methods_ringbuffer:
  assumes "world_ok w" and "registry w (ascii ''ringbuffer_mt'') = None"
  shows "methods ''ringbuffer_mt'' (fst (luaopen_ringbuffer addr w)) = ascii ` set (map fst ringbuffer_methods)"
proof -
  let ?n = "''ringbuffer_mt''"
  obtain w1 mt where mt: "luaL_newmetatable ?n w = (w1, mt, True)"
    using newmetatable_fresh[of ?n w] assms(2) by (metis prod.collapse)
  have r: "registry w1 (ascii ?n) = Some mt" "mt < next_addr (wheap w1)"
    using newmetatable_registry[of ?n w] newmetatable_addr[OF assms(1), of ?n] by (simp_all add: mt)
  let ?w2 = "luaL_setfuncs addr mt [(''__tostring'', ''rb_tostring''), (''__len'', ''rb_length'')] w1"
  let ?w3 = "fst (newlib addr ringbuffer_methods ?w2)"
  have d: "distinct (map fst ringbuffer_methods)" by (simp add: ringbuffer_methods_def)
  let ?W = "fst (luaopen_ringbuffer addr w)" and ?i = "next_addr (wheap w1)"
  have names: "exports (?w3, ?i) = ascii ` set (map fst ringbuffer_methods)"
    using exports_newlib_at[OF d, of addr ?w2] by (simp add: world_simps)
  have "registry ?W (ascii ?n) = Some mt" "getfield ?W mt (ascii ''__index'') = LTable ?i"
    "getfield ?W ?i k = getfield ?w3 ?i k" for k
    using r by (simp_all add: luaopen_ringbuffer_def mt case_prod_beta Let_def world_simps getfield_setfield getfield_newlib)
  from methodsI[OF this names] show ?thesis .
qed

section \<open>The table of the signal module in the registry\<close>

definition signal_table :: "lua_world \<Rightarrow> nat option" where
  "signal_table w = registry w (ascii LUA_SIGNAL)"

text \<open>The functions and the numbers that \<^verbatim>\<open>signal.c\<close> looks up there, and the store of \<^verbatim>\<open>l_signal\<close>.\<close>

definition registered_handlers :: "lua_world \<Rightarrow> int \<rightharpoonup> nat" where
  "registered_handlers w sig =
     (case signal_table w of
        None \<Rightarrow> None
      | Some t \<Rightarrow> (case lua_rawgeti (wheap w) t sig of LFunction f \<Rightarrow> Some f | _ \<Rightarrow> None))"

definition registered_number :: "lua_world \<Rightarrow> bytes \<rightharpoonup> int" where
  "registered_number w n =
     (case signal_table w of None \<Rightarrow> None | Some t \<Rightarrow> (case getfield w t n of LInt i \<Rightarrow> Some i | _ \<Rightarrow> None))"

definition register_handler :: "int \<Rightarrow> nat \<Rightarrow> lua_world \<Rightarrow> lua_world" where
  "register_handler sig f w =
     (case signal_table w of None \<Rightarrow> w | Some t \<Rightarrow> w\<lparr>wheap := lua_rawseti (wheap w) t sig (LFunction f)\<rparr>)"

lemma signal_table_opened:
  "registered_handlers (fst (luaopen_signal addr w)) = Map.empty"
  "registered_number (fst (luaopen_signal addr w)) = signal_names"
  "signal_table (fst (luaopen_signal addr w)) \<noteq> None"
proof -
  obtain w1 a where o: "fst (luaopen_signal addr w) =
      (let w2 = fill_names a (next_addr (wheap w1)) lua_signals (fst (newtable w1)) in
       w2\<lparr>registry := (registry w2)(ascii LUA_SIGNAL \<mapsto> next_addr (wheap w1))\<rparr>)"
    by (rule luaopen_signal_parts)
  let ?t = "next_addr (wheap w1)"
  let ?w2 = "fill_names a ?t lua_signals (fst (newtable w1))"
  have t: "signal_table (fst (luaopen_signal addr w)) = Some ?t"
    by (simp add: signal_table_def o Let_def)
  then show "signal_table (fst (luaopen_signal addr w)) \<noteq> None" by simp
  have h: "wheap (fst (luaopen_signal addr w)) = wheap ?w2" by (simp add: o Let_def)
  have "int_part (tables (wheap (fst (newtable w1))) ?t) = (\<lambda>_. LNil)"
    by (simp add: newtable_def lua_createtable_def empty_table_def)
  then show "registered_handlers (fst (luaopen_signal addr w)) = Map.empty"
    by (simp add: fun_eq_iff registered_handlers_def t h lua_rawgeti_def fill_names_eqs)
  have "getfield ?w2 ?t n = (case signal_names n of Some i \<Rightarrow> LInt i | None \<Rightarrow> LNil)" for n
    using getfield_fill_names[OF distinct_lua_signals, of ?t a ?t "fst (newtable w1)" n]
    by (simp add: signal_names_def world_simps cong: option.case_cong)
  then show "registered_number (fst (luaopen_signal addr w)) = signal_names"
    by (auto simp: fun_eq_iff registered_number_def t h getfield_def split: option.split)
qed

lemma registered_handlers_register:
  "signal_table w \<noteq> None \<Longrightarrow> registered_handlers (register_handler sig f w) = (registered_handlers w)(sig \<mapsto> f)"
  by (auto simp: fun_eq_iff registered_handlers_def register_handler_def signal_table_def lua_rawgeti_def lua_rawseti_def)

text \<open>With no function registered, the next run of the hook ends in an error.\<close>

lemma sighook_no_function:
  assumes "handlers s = Map.empty" and "nsig s = 0"
  shows "snd (sighook runs (handle sig s)) = ([], False)"
proof -
  let ?s = "hook_restore (handle sig s)"
  have "0 < nsig ?s" "handlers ?s = Map.empty"
    using assms by (simp_all add: hook_restore_def lua_sethook_def handle_def Let_def MAX_PENDING_SIGNALS_def)
  then have "call_loop runs ?s 0 = ([], False)" by (simp add: call_loop.simps)
  then show ?thesis by (simp add: sighook_def Let_def)
qed

section \<open>Properties\<close>

text \<open>
  The table that each module returns has exactly the fields that the type declarations in
  \<^verbatim>\<open>teal-src\<close> give it, with their own fields for the tables of \<^verbatim>\<open>encodings\<close>, and the objects of the ring
  buffer, poll and crypto modules have the declared methods. There are four differences: without \<^verbatim>\<open>mallinfo2\<close> there is no
  \<^verbatim>\<open>meminfo\<close>, a build with libidn has no \<^verbatim>\<open>confusable\<close>, only epoll
  contexts have \<^verbatim>\<open>getfd\<close>, and the signal module has the names of the signals as fields, which the
  declaration knows only as the members of an enumeration. The crypto modules are built with a version of OpenSSL that
  tells its name.
\<close>

theorem modules_match_declarations:
  assumes "world_ok w" and "registry w (ascii ''ringbuffer_mt'') = None"
  shows "exports (luaopen_ringbuffer addr w) = ascii ` set (fst declared_ringbuffer) \<and>
    methods ''ringbuffer_mt'' (fst (luaopen_ringbuffer addr w)) = ascii ` set (snd declared_ringbuffer) \<and>
    exports (luaopen_poll b addr w) = ascii ` set (fst declared_poll) \<and>
    methods (STATE_MT b) (fst (luaopen_poll b addr w)) =
      ascii ` set (if b = Epoll then snd declared_poll else removeAll ''getfd'' (snd declared_poll)) \<and>
    exports (luaopen_crypto (Some v) addr w) = ascii ` set (fst declared_crypto) \<and>
    methods ''util.crypto key'' (fst (luaopen_crypto (Some v) addr w)) = ascii ` set (snd declared_crypto) \<and>
    exports (luaopen_hashes (Some v) haddr w) = ascii ` set declared_hashes \<and>
    exports (luaopen_encodings icu addr w) =
      ascii ` (set (map fst (fst declared_encodings)) \<union> set (snd declared_encodings) - (if icu then {} else {''confusable''})) \<and>
    (\<forall>(n, fs) \<in> set (fst declared_encodings). icu \<or> n \<noteq> ''confusable'' \<longrightarrow>
      subfields (luaopen_encodings icu addr w) n = ascii ` set fs) \<and>
    exports (luaopen_signal addr w) = ascii ` set declared_signal \<union> ascii ` set declared_signals \<and>
    exports (luaopen_pposix mallinfo addr w) =
      ascii ` set (if mallinfo then declared_pposix else removeAll ''meminfo'' declared_pposix) \<and>
    exports (luaopen_struct addr w) = ascii ` set declared_struct \<and>
    exports (luaopen_strbitop addr w) = ascii ` set declared_strbitop \<and>
    exports (luaopen_table addr w) = ascii ` set declared_table \<and>
    exports (luaopen_net addr w) = ascii ` set declared_net \<and>
    exports (luaopen_compat addr w) = ascii ` set declared_compat \<and>
    exports (luaopen_time addr w) = ascii ` set declared_time \<and>
    exports (luaopen_crand src addr w) = ascii ` set declared_crand"
proof -
  have m: "map fst (poll_methods b) = (if b = Epoll then snd declared_poll else removeAll ''getfd'' (snd declared_poll))"
    "map fst KeyMethods = snd declared_crypto" "map fst ringbuffer_methods = snd declared_ringbuffer"
    by (simp_all add: poll_methods_def declared_poll_def KeyMethods_def declared_crypto_def ringbuffer_methods_def
        declared_ringbuffer_def)
  note objects = methods_poll[OF assms(1), of b addr] methods_crypto[OF assms(1), of "Some v" addr]
    methods_ringbuffer[OF assms, of addr]
  have "\<forall>(n, fs) \<in> set (fst declared_encodings). icu \<or> n \<noteq> ''confusable'' \<longrightarrow>
      subfields (luaopen_encodings icu addr w) n = ascii ` set fs"
    using exports_encodings(2) by blast
  then show ?thesis
    by (intro conjI exports_ringbuffer exports_poll exports_crypto exports_hashes exports_encodings(1)
        exports_signal[unfolded set_append image_Un] exports_simple objects[unfolded m]) (simp_all add: exports_pposix)
qed

definition empty_world :: lua_world where
  "empty_world = \<lparr>wheap = \<lparr>tables = (\<lambda>_. empty_table), next_addr = 1\<rparr>, registry = Map.empty\<rparr>"

theorem modules_match_declarations_witness:
  "exports (luaopen_pposix False (\<lambda>_. 3) empty_world) = ascii ` set (removeAll ''meminfo'' declared_pposix) \<and>
   methods (STATE_MT Poll) (fst (luaopen_poll Poll (\<lambda>_. 3) empty_world)) = ascii ` {''add'', ''set'', ''del'', ''wait''}"
  using modules_match_declarations[where w = empty_world and addr = "\<lambda>_. 3" and b = Poll and mallinfo = False]
  by (simp add: world_ok_def empty_world_def declared_poll_def)

text \<open>
  After the signal module is loaded, the names of the registry table are the numbers of the signals
  and no function is registered; a function that is registered is found. Loading the module again, under
  the second of its names \<^verbatim>\<open>util.signal\<close> and \<^verbatim>\<open>prosody.util.signal\<close> (\<^verbatim>\<open>loader.lua\<close> avoids it), puts a new table in its place: every
  registered function is forgotten while its signal is still directed at the handler, and the next
  signal makes the hook raise an error instead of calling the function.
\<close>

theorem signal_table_replaced:
  assumes "w1 = register_handler sig f (fst (luaopen_signal addr w))" and "w2 = fst (luaopen_signal addr' w1)"
    and "handlers s = registered_handlers w2" and "nsig s = 0"
  shows "registered_number w1 = signal_names \<and> registered_handlers w1 = [sig \<mapsto> f] \<and>
    registered_handlers w2 = Map.empty \<and> snd (sighook runs (handle sig s)) = ([], False)"
proof -
  have "signal_table w1 = signal_table (fst (luaopen_signal addr w))"
    by (simp add: assms(1) register_handler_def signal_table_def split: option.split)
  then have "registered_number w1 = registered_number (fst (luaopen_signal addr w))"
    by (auto simp: assms(1) fun_eq_iff registered_number_def register_handler_def getfield_def lua_rawseti_def
        split: option.split)
  moreover have "registered_handlers w1 = [sig \<mapsto> f]"
    using registered_handlers_register signal_table_opened(1,3) by (simp add: assms(1))
  moreover have "registered_handlers w2 = Map.empty" by (simp add: assms(2) signal_table_opened(1))
  ultimately show ?thesis using sighook_no_function[of s runs sig] assms(3,4) signal_table_opened(2) by simp
qed

theorem signal_table_replaced_witness:
  "snd (sighook (\<lambda>_. True) (handle 15 (idle_state\<lparr>handlers := registered_handlers (fst (luaopen_signal (\<lambda>_. 3)
      (register_handler 15 7 (fst (luaopen_signal (\<lambda>_. 3) empty_world)))))\<rparr>))) = ([], False)"
proof -
  let ?h = "registered_handlers (fst (luaopen_signal (\<lambda>_. 3) (register_handler 15 7 (fst (luaopen_signal (\<lambda>_. 3) empty_world)))))"
  have "handlers (idle_state\<lparr>handlers := ?h\<rparr>) = ?h" "nsig (idle_state\<lparr>handlers := ?h\<rparr>) = 0"
    by (simp_all add: idle_state_def)
  from signal_table_replaced[OF refl refl this, of "\<lambda>_. True"] show ?thesis by blast
qed

end
