(* ===== verification/Windows.thy ===== *)
theory Windows
  imports Lua_Args
begin

text \<open>
  \<^verbatim>\<open>util-src/windows.c\<close>: the name servers of the system and the colour of the console. The
  functions of Windows are parameters; a status or error number stands for its message.
\<close>

section \<open>Name servers\<close>

definition dot :: bytes where "dot = [of_char CHR ''.'']"

text \<open>\<^verbatim>\<open>sprintf_s\<close> into 16 bytes calls the handler for invalid parameters when the text does not fit.\<close>

definition ip_str :: "32 word \<Rightarrow> bytes outcome" where
  "ip_str ip =
     (let s = decimal (unat (ip AND 255)) @ dot @ decimal (unat (drop_bit 8 ip AND 255)) @ dot @
              decimal (unat (drop_bit 16 ip AND 255)) @ dot @ decimal (unat (drop_bit 24 ip AND 255)) in
      if length s + 1 > 16 then Inl (Undefined ''ip_str'') else Inr s)"

fun nameservers_loop :: "32 word list \<Rightarrow> bytes list outcome" where
  "nameservers_loop [] = Inr []"
| "nameservers_loop (ip # ips) =
     bind_outcome (ip_str ip) (\<lambda>s. bind_outcome (nameservers_loop ips) (\<lambda>t. Inr (s # t)))"

text \<open>
  \<open>query\<close> is the status of \<^verbatim>\<open>DnsQueryConfig\<close>, or the addresses that it stored. The result is the
  table, or the two values of a failure.
\<close>

definition Lget_nameservers :: "(int \<Rightarrow> bytes) \<Rightarrow> int + 32 word list \<Rightarrow> (lua_value list + bytes list) outcome" where
  "Lget_nameservers message query =
     (case query of
        Inl status \<Rightarrow> Inr (Inl [LNil, LStr (message status)])
      | Inr ips \<Rightarrow> bind_outcome (nameservers_loop ips) (\<lambda>t. Inr (Inr t)))"

section \<open>Console\<close>

text \<open>\<open>message\<close> is the text that \<^verbatim>\<open>lerror\<close> makes of the name of a function and the last error.\<close>

definition lerror :: "(string \<Rightarrow> bytes) \<Rightarrow> string \<Rightarrow> lua_value list" where
  "lerror message name = [LNil, LStr (message name)]"

definition Lget_consolecolor :: "(string \<Rightarrow> bytes) \<Rightarrow> bool \<Rightarrow> bool \<Rightarrow> 16 word option \<Rightarrow> lua_value list" where
  "Lget_consolecolor message handle_ok info_ok attribute =
     (if \<not> handle_ok then lerror message ''GetStdHandle''
      else if \<not> info_ok then lerror message ''GetConsoleScreenBufferInfo''
      else case attribute of
             None \<Rightarrow> lerror message ''ReadConsoleOutputAttribute''
           | Some color \<Rightarrow> [LNum (of_nat (unat color))])"

definition Lset_consolecolor ::
  "(bytes \<Rightarrow> int option) \<Rightarrow> (string \<Rightarrow> bytes) \<Rightarrow> bool \<Rightarrow> (16 word \<Rightarrow> 'k \<Rightarrow> 'k \<times> bool) \<Rightarrow> lua_value list \<Rightarrow> 'k
    \<Rightarrow> ('k \<times> lua_value list) outcome" where
  "Lset_consolecolor str2int message handle_ok set_attribute args k =
     bind_outcome (luaL_checkinteger str2int args 1) (\<lambda>color.
       if \<not> handle_ok then Inr (k, lerror message ''GetStdHandle'')
       else case set_attribute (of_int (to_int color)) k of
              (k', False) \<Rightarrow> Inr (k', lerror message ''SetConsoleTextAttribute'')
            | (k', True) \<Rightarrow> Inr (k', [LBool True]))"

section \<open>The texts fit\<close>

lemma decimal_length: "n < 256 \<Longrightarrow> length (decimal n) \<le> 3"
proof -
  assume n: "n < 256"
  have "length (decimal m) = 1" if "m < 10" for m using that by (simp add: decimal.simps)
  then have "length (decimal m) \<le> 2" if "m < 100" for m
    using that by (subst decimal.simps) (auto simp: div_less_iff_less_mult)
  then show ?thesis using n by (subst decimal.simps) (auto simp: div_less_iff_less_mult)
qed

lemma unat_low_byte: "unat (w AND 255) < 256" for w :: "32 word"
proof -
  have "w AND 255 = take_bit 8 w" by (simp add: take_bit_eq_mask mask_eq_exp_minus_1)
  then have "unat (w AND 255) = unat w mod 256" by (simp only: unsigned_take_bit_eq) (simp add: take_bit_eq_mod)
  then show ?thesis by simp
qed

lemma ip_str_fits: "\<exists>s. ip_str ip = Inr s \<and> length s \<le> 15"
proof -
  have "length (decimal (unat (drop_bit k ip AND 255))) \<le> 3" for k by (rule decimal_length[OF unat_low_byte])
  from this[of 0] this[of 8] this[of 16] this[of 24] show ?thesis by (simp add: ip_str_def dot_def Let_def)
qed

text \<open>Every list of name servers is returned, one text for each, in order.\<close>

lemma nameservers_complete: "\<exists>t. Lget_nameservers message (Inr ips) = Inr (Inr t) \<and> length t = length ips"
proof -
  have "\<exists>t. nameservers_loop ips = Inr t \<and> length t = length ips"
  proof (induction ips)
    case (Cons ip ips)
    then obtain t where "nameservers_loop ips = Inr t" "length t = length ips" by blast
    moreover obtain s where "ip_str ip = Inr s" using ip_str_fits by blast
    ultimately show ?case by simp
  qed simp
  then show ?thesis by (auto simp: Lget_nameservers_def)
qed

end
