(* ===== verification/Spec2Isabelle.thy ===== *)
theory Spec2Isabelle
  imports Ringbuffer Base64 Utf8 Strbitop Struct_Pack Lua_Table Poll_Poll Poll_Select Poll_Epoll Signals Signals_Nested
    Pposix Stringprep Hashes Crypto Net Crand Compat Clock Lua_Modules Windows
begin

text \<open>
  Verification of the C modules of the Prosody XMPP server, \<^verbatim>\<open>src/util-src\<close>.

  \<^bold>\<open>The program.\<close> Prosody is a Lua program; what Lua cannot do, or not fast enough, is in C
  modules that the Lua code loads as \<^verbatim>\<open>prosody.util.<name>\<close>. Each module is a set of functions
  that take their arguments from the Lua stack and push results, with its state in userdata
  objects, in static variables or in the kernel. The event loop (\<^verbatim>\<open>net/server_epoll.lua\<close>)
  registers its sockets with \<^verbatim>\<open>util.poll\<close>, waits there, and gets signals through
  \<^verbatim>\<open>util.signal\<close>; the start-up code and the storage use \<^verbatim>\<open>util.pposix\<close>; the protocol code
  uses \<^verbatim>\<open>util.encodings\<close> for base64, UTF-8 and the preparation of addresses, \<^verbatim>\<open>util.hashes\<close> and
  \<^verbatim>\<open>util.strbitop\<close> for authentication, \<^verbatim>\<open>util.struct\<close> and \<^verbatim>\<open>util.strbitop\<close> for WebSocket
  frames and STUN, and \<^verbatim>\<open>util.crypto\<close> for tokens. Inside the C code the modules meet in
  \<^verbatim>\<open>encodings.c\<close>, where the functions of libidn and ICU are called behind the UTF-8 check, and
  in \<^verbatim>\<open>poll.c\<close>, where three back ends stand behind one interface.

  \<^bold>\<open>Conventions.\<close> A C function is a HOL function of the same name (\<^verbatim>\<open>Ladd\<close> of the poll(2) back
  end is \<open>poll_Ladd\<close>). Its result is the list of values it returns to Lua, together with the
  new state where it has one. Errors raised towards Lua and undefined behaviour of C (an access
  outside an object, a shift that is too wide, a signed overflow, reading uninitialised memory)
  are values of \<open>lua_error\<close>, so that a theorem that a call returns \<open>Inr\<close> also says that
  it is free of both. Integers are words of their width, or \<open>int\<close> and \<open>nat\<close> with the conversions
  of the theory Prelude (\<open>to_int\<close>, \<open>to_long\<close>, \<open>to_usize\<close>, \<open>usize_add\<close>, \<open>usize_sub\<close>), for LP64
  platforms; error numbers and constants of the system are those of Linux. System calls,
  OpenSSL, libidn, ICU, the conversions between numbers and text of Lua and the metamethods of
  tables are parameters, collected in records where there are many; what the code relies on is a
  named hypothesis (\<open>epoll_ctl_documented\<close> is an example) and every such property has an instance
  with a concrete parameter. The Lua stack has room for \<open>LUA_MINSTACK\<close> values, 20, when a function is
  called; \<^verbatim>\<open>unpack\<close> asks for more, which the platform may refuse, and \<^verbatim>\<open>byte\<close> of the ring buffer does not ask.

  \<^bold>\<open>The theories.\<close>
  \<^item> Prelude: bytes, Lua values, outcomes, C integers, C strings, sequences of operations, and
    the interfaces described below. Lua_Args: the argument functions of lauxlib.
  \<^item> Ringbuffer (\<^verbatim>\<open>ringbuffer.c\<close>): the record \<open>ringbuffer\<close> is the C struct with its array. Under the
    invariant \<open>rb_wf\<close> all operations refine a bounded queue of bytes; slices are those of the
    string library of Lua; \<^verbatim>\<open>readuntil\<close> returns the shortest prefix that ends in the pattern.
    The search loop can run forever, which is proved, and is a partial function.
  \<^item> Base64, Utf8, Stringprep (\<^verbatim>\<open>encodings.c\<close>): the round trip of base64, its alphabet and what the
    decoder rejects; UTF-8 validation against the encoding of scalar values, with the decoder
    at 32 bit; that only checked strings reach libidn.
  \<^item> Strbitop (\<^verbatim>\<open>strbitop.c\<close>): the operations on strings as lists of bits.
  \<^item> Struct_Pack (\<^verbatim>\<open>struct.c\<close>): format strings with alignment and byte order; packing and unpacking
    are inverse, sizes agree, and where unpacking stays inside the data and where it does not.
  \<^item> Lua_Table (\<^verbatim>\<open>table.c\<close>): \<^verbatim>\<open>pack\<close>, \<^verbatim>\<open>create\<close> and \<^verbatim>\<open>move\<close> on an explicit heap of tables, so that
    source and destination may be one table.
  \<^item> Poll_Common, Poll_Poll, Poll_Select, Poll_Epoll (\<^verbatim>\<open>poll.c\<close>): the registration operations
    of each back end refine a map of watched descriptors (\<open>interest_step\<close>); every ready
    descriptor is reported once; registrations and waits in any order are explained by that map
    with poll(2) and select(2), and with epoll as long as no descriptor is removed while an event
    for it waits.
  \<^item> Signals (\<^verbatim>\<open>signal.c\<close>): the queue between the C handler and the Lua hook; a step relation
    interleaves arriving signals with the steps of the hook, and its invariants say which signals
    are delivered, in which order, and when delivery stops. Signals_Nested has the C handler itself
    interrupted by signals, at each point between its accesses to the static variables; the runs
    form a tree, and away from the unprotected store they amount to runs one after the other. The
    relation \<open>full_step\<close> interleaves such trees with the steps of the hook; the order of delivery and its
    end after a failed function are proved for it.
  \<^item> Pposix (\<^verbatim>\<open>pposix.c\<close>): all wrappers; appending to a file is all or nothing, limits and the
    file mode mask survive a round trip.
  \<^item> Hashes, Crypto (\<^verbatim>\<open>hashes.c\<close>, \<^verbatim>\<open>crypto.c\<close>, \<^verbatim>\<open>managed_pointer.h\<close>): writes stay inside the arrays,
    contexts are counted, decryption inverts encryption and accepts nothing else, a public key
    is never used to sign, the space for DER signatures.
  \<^item> Net, Crand, Compat, Clock, Windows (\<^verbatim>\<open>net.c\<close>, \<^verbatim>\<open>crand.c\<close>, \<^verbatim>\<open>compat.c\<close>, \<^verbatim>\<open>time.c\<close>, \<^verbatim>\<open>windows.c\<close>):
    address selection against prefixes, the loop around getrandom(2), \<^verbatim>\<open>xpcall\<close> on an explicit
    stack, the clocks, name servers and console of Windows.
  \<^item> Lua_Modules (all files): loading. The functions \<^verbatim>\<open>luaopen_prosody_util_*\<close> fill tables of an explicit Lua
    heap and registry; the tables are compared with the type declarations in \<^verbatim>\<open>teal-src\<close>, and the
    registry table of the signal module with the tables that the model of \<^verbatim>\<open>signal.c\<close> uses.

  \<^bold>\<open>Interfaces.\<close> The locale \<open>simulation\<close> is the contract between a component and its abstract
  specification; it is interpreted for the ring buffer. The locale \<open>watch_backend\<close> extends it to
  the contract of a poll back end with the event loop: the specification is the interest map.
  It is interpreted for poll(2) and select(2), and holds for epoll for every kernel that follows
  the manual. What the event loop may rely on is proved in it once. The locale \<open>wait_backend\<close> adds \<^verbatim>\<open>wait\<close>: what a
  call returns is watched, and the registrations stay as they are; in it the results of whole event
  loops are explained, and poll(2) and select(2) interpret it. Below, it shows that the back
  ends are interchangeable. The locale \<open>preserved\<close> (a predicate that a step relation keeps) is
  interpreted for key objects and for the blocked signal queue, the locale \<open>codec\<close> for base64,
  hexadecimal digits and UTF-8.

  \<^bold>\<open>Termination.\<close> Loops are structural recursion or functions with a proved measure. Two loops may
  run forever, \<^verbatim>\<open>find\<close> of the ring buffer and the one around getrandom(2): they are partial
  functions with \<open>None\<close> for not returning, and that they return is part of the properties. No
  definition uses fuel; the number given to \<open>drain\<close> and \<open>epoll_drain\<close> is the number of calls of
  \<^verbatim>\<open>wait\<close> that the caller makes.

  \<^bold>\<open>Not modelled.\<close> The second name of each module (\<^verbatim>\<open>luaopen_util_*\<close>), which only calls the
  first; the preprocessor, which picks one of the variants that are all here; memory exhaustion inside
  Lua; the sizes that tables are created with. What the operating system, OpenSSL, libidn, ICU
  and Lua do inside is not in \<^verbatim>\<open>src\<close> and enters as parameters. The Lua and Teal code of
  the server, its plugins, tests and build files are outside this development: only their use of
  the modules shows, in the choice of the properties.
\<close>

section \<open>The back ends of util.poll are interchangeable\<close>

text \<open>
  The server is compiled with one of the three back ends and its event loop does not know
  which. They differ in what \<^verbatim>\<open>set\<close> does with an absent flag, in the descriptors they
  accept and in how many they hold; the descriptors below 1024 that select(2) can hold are
  fewer than the 10000 places of the poll(2) back end.
\<close>

lemma plain_op_arguments:
  assumes "list_all (plain_op 1024) ops"
  shows "list_all fd_arg_ok ops"
    and "list_all (\<lambda>p. usable (op_fd p)) ops \<Longrightarrow> list_all (epoll_arg_ok usable) ops"
proof -
  show "list_all fd_arg_ok ops"
    using assms by (auto simp: list_all_iff plain_op_def fd_arg_ok_def fd_ok_def FD_SETSIZE_def)
  assume u: "list_all (\<lambda>p. usable (op_fd p)) ops"
  have "usable (op_fd p) \<Longrightarrow> epoll_arg_ok usable p" for p by (cases p) auto
  then show "list_all (epoll_arg_ok usable) ops" using u by (auto simp: list_all_iff)
qed

lemma run_interest_total:
  "run_ops (interest_step_total strerror) m ops =
    (fst (run_ops (interest_step strerror True None) m ops), map Inr (snd (run_ops (interest_step strerror True None) m ops)))"
  by (induction ops arbitrary: m) (auto simp: interest_step_total_def split: prod.splits)

text \<open>
  C7: For descriptors from 0 to 1023, with both flags given to \<^verbatim>\<open>set\<close>, every sequence of
  \<^verbatim>\<open>add\<close>, \<^verbatim>\<open>set\<close> and \<^verbatim>\<open>del\<close> calls returns the same results, error results included,
  and leaves the same descriptors watched with the same wishes, whichever of the three back
  ends the module was compiled with. The epoll back end needs a kernel that follows the
  documentation of epoll_ctl(2), and descriptors that epoll can watch (\<open>usable\<close>): open ones of a kind that
  it supports, other than its own. For other descriptors it returns the errors of the kernel, while poll(2) and
  select(2) register them.
\<close>

theorem backends_interchangeable:
  assumes "list_all (plain_op 1024) ops"
    and "epoll_ctl_documented sys (epoll_fd state) usable registered"
    and "list_all (\<lambda>p. usable (op_fd p)) ops" and "registered k = Map.empty"
  shows "snd (run_ops (select_step strerror) select_Lnew ops) = map Inr (snd (run_ops (poll_step strerror) poll_Lnew ops)) \<and>
    snd (run_ops (epoll_step strerror sys state junk) k ops) = snd (run_ops (poll_step strerror) poll_Lnew ops) \<and>
    select_watched (fst (run_ops (select_step strerror) select_Lnew ops)) =
      watched (fst (run_ops (poll_step strerror) poll_Lnew ops)) \<and>
    epoll_watched registered (fst (run_ops (epoll_step strerror sys state junk) k ops)) =
      watched (fst (run_ops (poll_step strerror) poll_Lnew ops))"
proof -
  let ?spec = "\<lambda>keep cap. run_ops (interest_step strerror keep cap) Map.empty ops"
  have poll: "?spec False (Some MAX_WATCHED) = (watched (fst (run_ops (poll_step strerror) poll_Lnew ops)),
      snd (run_ops (poll_step strerror) poll_Lnew ops))"
    using pollb.run_refines[OF poll_Lnew_wf(1), of ops strerror] by (simp add: poll_Lnew_wf(2) list.pred_True)
  have sel: "run_ops (interest_step_total strerror) Map.empty ops =
      (select_watched (fst (run_ops (select_step strerror) select_Lnew ops)),
       snd (run_ops (select_step strerror) select_Lnew ops))"
    using selb.run_refines[OF select_Lnew_wf(1) plain_op_arguments(1)[OF assms(1)]] by (simp add: select_Lnew_wf(2))
  have "epoll_watched registered k = Map.empty" using assms(4) by (simp add: epoll_watched_def)
  then have ep: "?spec False None = (epoll_watched registered (fst (run_ops (epoll_step strerror sys state junk) k ops)),
      snd (run_ops (epoll_step strerror sys state junk) k ops))"
    using epoll_run_refines[OF assms(2) plain_op_arguments(2)[OF assms(1,3)], of strerror k junk] by simp
  have "?spec keep' None = ?spec False (Some MAX_WATCHED)" for keep'
    by (rule interest_variants[OF assms(1)]) (simp add: MAX_WATCHED_def)
  with poll have "?spec keep' None = (watched (fst (run_ops (poll_step strerror) poll_Lnew ops)),
      snd (run_ops (poll_step strerror) poll_Lnew ops))" for keep' by simp
  then show ?thesis using sel ep by (simp add: run_interest_total)
qed

theorem backends_interchangeable_witness:
  "snd (run_ops (epoll_step (\<lambda>_. []) simple_kernel \<lparr>processed = 0, epoll_fd = 4, ep_events = []\<rparr> 0) Map.empty
      [Add 5 True False, Set 5 (Some False) (Some True), Add 5 True True, Del 6]) =
   snd (run_ops (poll_step (\<lambda>_. [])) poll_Lnew
      [Add 5 True False, Set 5 (Some False) (Some True), Add 5 True True, Del 6])"
  using backends_interchangeable[of "[Add 5 True False, Set 5 (Some False) (Some True), Add 5 True True, Del 6]"
      simple_kernel "\<lparr>processed = 0, epoll_fd = 4, ep_events = []\<rparr>" "\<lambda>f. f \<noteq> 4" "\<lambda>k. k" Map.empty "\<lambda>_. []" 0]
  by (simp add: simple_kernel_documented plain_op_def to_int_range del: run_ops.simps)

text \<open>
  C30: A registration concerns its descriptor only. After any calls for other descriptors, a
  watched descriptor is refused by \<^verbatim>\<open>add\<close> with \<^verbatim>\<open>EEXIST\<close>, and one that is not watched is
  refused by \<^verbatim>\<open>set\<close> and \<^verbatim>\<open>del\<close> with \<^verbatim>\<open>ENOENT\<close>: in the poll(2) back end for every descriptor that is not
  negative and calls for any others, in the select(2) back end as long as all descriptors lie between 0 and 1023.
\<close>

theorem registrations_independent:
  assumes "poll_wf s" and "select_wf t" and "0 \<le> to_int i" and "list_all (\<lambda>p. op_fd p \<noteq> to_int i) ops"
  shows "(let s' = fst (run_ops (poll_step strerror) s ops) in
      watched s' (to_int i) = watched s (to_int i) \<and>
      (watched s (to_int i) \<noteq> None \<longrightarrow> snd (poll_Ladd strerror s' i r w) = fail_errno strerror EEXIST) \<and>
      (watched s (to_int i) = None \<longrightarrow> snd (poll_Ldel strerror s' i) = fail_errno strerror ENOENT \<and>
         snd (poll_Lset strerror s' i r' w') = fail_errno strerror ENOENT)) \<and>
    (to_int i < 1024 \<and> list_all (\<lambda>p. 0 \<le> op_fd p \<and> op_fd p < 1024) ops \<longrightarrow>
     (let t' = fst (run_ops (select_step strerror) t ops) in
      select_watched t' (to_int i) = select_watched t (to_int i) \<and>
      (select_watched t (to_int i) \<noteq> None \<longrightarrow>
         snd (select_step strerror t' (Add i r w)) = Inr (fail_errno strerror EEXIST)) \<and>
      (select_watched t (to_int i) = None \<longrightarrow>
         snd (select_step strerror t' (Del i)) = Inr (fail_errno strerror ENOENT) \<and>
         snd (select_step strerror t' (Set i r' w')) = Inr (fail_errno strerror ENOENT))))"
proof -
  note poll = pollb.run_frame[OF assms(1) _ assms(4)] pollb.results_later[OF assms(1) _ assms(4)]
  have sel: "select_watched (fst (run_ops (select_step strerror) t ops)) (to_int i) = select_watched t (to_int i) \<and>
      (select_watched t (to_int i) \<noteq> None \<longrightarrow>
         snd (select_step strerror (fst (run_ops (select_step strerror) t ops)) (Add i r w)) = Inr (fail_errno strerror EEXIST)) \<and>
      (select_watched t (to_int i) = None \<longrightarrow>
         snd (select_step strerror (fst (run_ops (select_step strerror) t ops)) (Del i)) = Inr (fail_errno strerror ENOENT) \<and>
         snd (select_step strerror (fst (run_ops (select_step strerror) t ops)) (Set i r' w')) = Inr (fail_errno strerror ENOENT))"
    if r: "to_int i < 1024" "list_all (\<lambda>p. 0 \<le> op_fd p \<and> op_fd p < 1024) ops"
  proof -
    have ok: "list_all fd_arg_ok ops" "fd_arg_ok (Del i)" "fd_arg_ok (Add i r w)" "fd_arg_ok (Set i r' w')"
      using r assms(3) by (auto simp: list_all_iff fd_arg_ok_def fd_ok_def FD_SETSIZE_def)
    show ?thesis
      using selb.run_frame[OF assms(2) ok(1) assms(4), where strerror = strerror]
        selb.results_later[OF assms(2) ok(1) assms(4), where strerror = strerror] ok assms(3) by simp
  qed
  then show ?thesis
    using poll[where strerror = strerror] assms(3) by (simp add: Let_def list.pred_True)
qed

theorem registrations_independent_witness:
  "snd (poll_Ldel (\<lambda>_. []) (fst (run_ops (poll_step (\<lambda>_. [])) poll_Lnew [Add 5 True False])) 7) = fail_errno (\<lambda>_. []) ENOENT \<and>
   snd (select_step (\<lambda>_. []) (fst (run_ops (select_step (\<lambda>_. [])) select_Lnew [Add 5 True False])) (Del 7)) =
     Inr (fail_errno (\<lambda>_. []) ENOENT)"
  using registrations_independent[of poll_Lnew select_Lnew 7 "[Add 5 True False]" "\<lambda>_. []"]
  by (simp add: to_int_range poll_Lnew_wf select_Lnew_wf Let_def del: run_ops.simps)

section \<open>Event loops over util.poll\<close>

text \<open>
  C8: Whatever the order of registrations and waits, and whatever the kernel answers to poll(2), or to
  select(2) as far as its manual allows, and with descriptors from 0 to 1023 for select(2), all results are explained by a map of watched descriptors: the
  registrations return what the map returns and no wait returns an event for a descriptor that is
  not in the map at that moment.
\<close>

theorem event_loops_explained:
  assumes "list_all (loop_op_ok fd_arg_ok select_documented) sel_ops"
  shows "explains (interest_step strerror False (Some MAX_WATCHED)) Map.empty poll_ops
      (snd (loop_run (poll_step strerror) (poll_wait_op strerror) poll_Lnew poll_ops)) \<and>
    explains (interest_step_total strerror) Map.empty sel_ops
      (snd (loop_run (select_step strerror) (select_wait_op strerror) select_Lnew sel_ops))"
proof -
  have "list_all (loop_op_ok (\<lambda>_. True) (\<lambda>_. True)) poll_ops" by (simp add: list_all_iff)
  from pollw.loop_explained[OF poll_Lnew_wf(1) this] selw.loop_explained[OF select_Lnew_wf(1) assms]
  show ?thesis by (simp add: poll_Lnew_wf(2) select_Lnew_wf(2))
qed

theorem event_loops_explained_witness:
  "let ops = [loop_op.Call (Add 5 True False), Wait ((\<lambda>R W E t. (int (card R), 0, R, W, {})), 1), loop_op.Call (Del 5)] in
   explains (interest_step_total (\<lambda>_. [])) Map.empty ops
    (snd (loop_run (select_step (\<lambda>_. [])) (select_wait_op (\<lambda>_. [])) select_Lnew ops))"
  unfolding Let_def
  by (rule event_loops_explained[where poll_ops = "[]", THEN conjunct2])
    (simp add: fd_arg_ok_def fd_ok_def FD_SETSIZE_def to_int_range select_documented_def)

end
